(* ===== verification/Prelude.thy ===== *)
theory Prelude
  imports Complex_Main "HOL-Library.Word"
begin

text \<open>
  Shared vocabulary of the development: the fixed-width integer and byte types of the pool's C++
  sources, exceptions as values, the byte/character correspondence of \<^verbatim>\<open>std::string\<close>, and generic
  facts on lists, little-endian values and words that the component theories rely on.
\<close>

unbundle bit_operations_syntax

section \<open>Types\<close>

type_synonym u8 = "8 word"
type_synonym u16 = "16 word"
type_synonym u32 = "32 word"
type_synonym u64 = "64 word"
type_synonym bytes = "u8 list"

text \<open>
  A C++ exception is a value of type \<open>exn\<close>; a function that may throw returns \<open>exn + 'a\<close>, with
  \<open>Inl\<close> for the throw. The strings are the messages of the \<^verbatim>\<open>throw\<close> expressions. \<open>Undefined\<close> stands for a
  conversion whose result C++ leaves undefined, so that a theorem has to exclude it.
\<close>

datatype exn =
    Invalid_argument string
  | Logic_error string
  | Codec_error string
  | Rpc_error string "int option"
  | Rpc_connection_error string
  | Runtime_error string
  | Config_error string
  | Undefined string

type_synonym 'a result = "exn + 'a"

fun bindE :: "'e + 'a \<Rightarrow> ('a \<Rightarrow> 'e + 'b) \<Rightarrow> 'e + 'b" where
  "bindE (Inl e) f = Inl e"
| "bindE (Inr x) f = f x"

named_theorems word_defs \<open>definitions of fixed-width readers and writers\<close>
named_theorems result_simps \<open>inversion of exception-passing code\<close>

lemma bindE_eq_Inr [result_simps]: "bindE m f = Inr y \<longleftrightarrow> (\<exists>x. m = Inr x \<and> f x = Inr y)"
  by (cases m) auto

lemma bindE_eq_Inl [result_simps]:
  "bindE m f = Inl e \<longleftrightarrow> m = Inl e \<or> (\<exists>x. m = Inr x \<and> f x = Inl e)"
  by (cases m) auto

lemma if_eq_Inr [result_simps]: "(if b then Inl e else m) = Inr y \<longleftrightarrow> \<not> b \<and> m = Inr y"
  by simp

fun mapE :: "('a \<Rightarrow> 'e + 'b) \<Rightarrow> 'a list \<Rightarrow> 'e + 'b list" where
  "mapE f [] = Inr []"
| "mapE f (x # xs) = bindE (f x) (\<lambda>y. bindE (mapE f xs) (\<lambda>ys. Inr (y # ys)))"

lemma mapE_length: "mapE f xs = Inr ys \<Longrightarrow> length ys = length xs"
  by (induction xs arbitrary: ys) (auto simp: result_simps)

lemma mapE_nth: "mapE f xs = Inr ys \<Longrightarrow> i < length xs \<Longrightarrow> f (xs ! i) = Inr (ys ! i)"
  by (induction xs arbitrary: ys i) (auto simp: result_simps nth_Cons split: nat.splits)

section \<open>Characters as bytes\<close>

definition byte_of_char :: "char \<Rightarrow> u8" where
  "byte_of_char c = of_char c"

definition char_of_byte :: "u8 \<Rightarrow> char" where
  "char_of_byte b = char_of (unat b)"

lemma unat_u8_less [simp]: "unat (b :: u8) < 256"
  using unsigned_less [of b] by simp

lemma unat_u8_le [simp]: "unat (b :: u8) \<le> 255"
  using unat_u8_less [of b] by linarith

lemma unat_u16_less [simp]: "unat (v :: u16) < 65536"
  using unsigned_less [of v] by simp

lemma unat_u32_less [simp]: "unat (v :: u32) < 4294967296"
  using unsigned_less [of v] by simp

lemma unat_u64_less [simp]: "unat (v :: u64) < 18446744073709551616"
  using unsigned_less [of v] by simp

lemma unat_drop_bit_div: "unat (drop_bit n (w :: 'a :: len word)) = unat w div 2 ^ n"
  by (subst unat_drop_bit_eq) (rule drop_bit_eq_div)

lemma unat_take_bit_mod: "unat (take_bit n (w :: 'a :: len word)) = unat w mod 2 ^ n"
  by (subst unsigned_take_bit_eq) (rule take_bit_eq_mod)

lemma unat_and_mask: "unat (w AND mask n) = unat (w :: 'a :: len word) mod 2 ^ n"
  by (simp add: unat_take_bit_mod flip: take_bit_eq_mask)

lemma ucast_ucast_small:
  assumes "unat (v :: 'a :: len word) < 2 ^ LENGTH('b :: len)"
  shows "(ucast (ucast v :: 'b word) :: 'a word) = v"
proof -
  have "(ucast (ucast v :: 'b word) :: 'a word) = take_bit LENGTH('b) v"
    by (rule bit_word_eqI) (auto simp: bit_simps)
  moreover have "unat (take_bit LENGTH('b) v) = unat v"
    using assms by (simp add: unat_take_bit_mod)
  ultimately show ?thesis by (simp add: word_unat_eq_iff)
qed

lemma unat_ucast_small:
  "unat (v :: 'a :: len word) < 2 ^ LENGTH('b :: len) \<Longrightarrow> unat (ucast v :: 'b word) = unat v"
  by (simp add: unsigned_ucast_eq take_bit_nat_eq_self)

lemma unat_byte_of_char: "unat (byte_of_char c) = of_char c"
proof -
  have "byte_of_char c = word_of_nat (of_char c)"
    unfolding byte_of_char_def by (simp only: of_nat_of_char)
  then show ?thesis
    using nat_of_char_less_256 [of c] by (simp add: unat_of_nat take_bit_nat_eq_self)
qed

lemma char_of_byte_of_char [simp]: "char_of_byte (byte_of_char c) = c"
  by (simp add: char_of_byte_def unat_byte_of_char)

lemma byte_of_char_of_byte [simp]: "byte_of_char (char_of_byte b) = b"
proof (rule unsigned_word_eqI [where 'a = nat])
  show "unat (byte_of_char (char_of_byte b)) = unat b"
    by (simp add: unat_byte_of_char char_of_byte_def of_char_of)
qed

lemma inj_byte_of_char: "byte_of_char c = byte_of_char d \<longleftrightarrow> c = d"
  by (metis char_of_byte_of_char)

section \<open>Lists\<close>

lemma take_append_exact [simp]: "length xs = n \<Longrightarrow> take n (xs @ ys) = xs"
  by simp

lemma drop_append_exact [simp]: "length xs = n \<Longrightarrow> drop n (xs @ ys) = ys"
  by simp

lemma list_all_length_upt: "list_all P (map f [0..<n]) \<longleftrightarrow> (\<forall>i<n. P (f i))"
  by (auto simp: list_all_iff)

section \<open>Little-endian values\<close>

text \<open>The number a byte string denotes, least significant byte first.\<close>

fun le_value :: "bytes \<Rightarrow> nat" where
  "le_value [] = 0"
| "le_value (b # bs) = unat b + 256 * le_value bs"

lemma le_value_append: "le_value (xs @ ys) = le_value xs + 256 ^ length xs * le_value ys"
  by (induction xs) (auto simp: algebra_simps)

lemma le_value_less: "le_value bs < 256 ^ length bs"
proof (induction bs)
  case (Cons b bs)
  have "unat b + 256 * le_value bs < 256 + 256 * le_value bs"
    by simp
  also have "\<dots> \<le> 256 * 256 ^ length bs"
    using Cons by simp
  finally show ?case by simp
qed simp

lemma le_value_inj: "length xs = length ys \<Longrightarrow> le_value xs = le_value ys \<Longrightarrow> xs = ys"
proof (induction xs ys rule: list_induct2)
  case (Cons x xs y ys)
  have "unat x = (unat x + 256 * le_value xs) mod 256"
    by simp
  also have "\<dots> = (unat y + 256 * le_value ys) mod 256"
    using Cons.prems by simp
  also have "\<dots> = unat y" by simp
  finally have "x = y" by (simp add: word_unat_eq_iff)
  with Cons show ?case by simp
qed simp

lemma le_value_replicate_0 [simp]: "le_value (replicate n 0) = 0"
  by (induction n) auto

lemma le_value_zero_iff: "le_value bs = 0 \<longleftrightarrow> (\<forall>b \<in> set bs. b = 0)"
  by (induction bs) (auto simp: unat_eq_0)

text \<open>The byte string of a given length that denotes a number, modulo the width.\<close>

fun le_encode :: "nat \<Rightarrow> nat \<Rightarrow> bytes" where
  "le_encode 0 v = []"
| "le_encode (Suc n) v = word_of_nat v # le_encode n (v div 256)"

lemma length_le_encode [simp]: "length (le_encode n v) = n"
  by (induction n arbitrary: v) auto

lemma le_value_encode: "le_value (le_encode n v) = v mod 256 ^ n"
proof (induction n arbitrary: v)
  case (Suc n)
  have "unat (word_of_nat v :: u8) = v mod 256"
    by (simp add: unat_of_nat)
  with Suc show ?case
    by (simp add: mod_mult2_eq add.commute)
qed simp

lemma le_encode_value: "length bs = n \<Longrightarrow> le_encode n (le_value bs) = bs"
  by (rule le_value_inj) (use le_value_less [of bs] in \<open>simp_all add: le_value_encode\<close>)

end
