(* ===== verification/Endian.thy ===== *)
theory Endian
  imports Prelude
begin

text \<open>
  \<^verbatim>\<open>src/src/util/endian.hpp\<close> and \<^verbatim>\<open>src/src/util/bytes.hpp\<close>: conversions between integers and byte
  buffers by explicit shifts. A reader takes the bytes from its pointer on; a writer returns the
  bytes it stores. Every reader is shown to return the number its bytes denote, and every writer to
  store the bytes of its argument, so that each pair is inverse in both directions.
\<close>

section \<open>Readers\<close>

definition read_le16 :: "bytes \<Rightarrow> u16" where
  "read_le16 p = ucast (p ! 0) OR push_bit 8 (ucast (p ! 1))"

definition read_le24 :: "bytes \<Rightarrow> u32" where
  "read_le24 p = ucast (p ! 0) OR push_bit 8 (ucast (p ! 1)) OR push_bit 16 (ucast (p ! 2))"

definition read_le32 :: "bytes \<Rightarrow> u32" where
  "read_le32 p = ucast (p ! 0) OR push_bit 8 (ucast (p ! 1)) OR push_bit 16 (ucast (p ! 2))
     OR push_bit 24 (ucast (p ! 3))"

definition read_le64 :: "bytes \<Rightarrow> u64" where
  "read_le64 p = fold (\<lambda>i v. v OR push_bit (8 * i) (ucast (p ! i))) [0..<8] 0"

definition read_be32 :: "bytes \<Rightarrow> u32" where
  "read_be32 p = push_bit 24 (ucast (p ! 0)) OR push_bit 16 (ucast (p ! 1))
     OR push_bit 8 (ucast (p ! 2)) OR ucast (p ! 3)"

definition read_be64 :: "bytes \<Rightarrow> u64" where
  "read_be64 p = fold (\<lambda>i v. push_bit 8 v OR ucast (p ! i)) [0..<8] 0"

section \<open>Writers\<close>

definition write_le16 :: "u16 \<Rightarrow> bytes" where
  "write_le16 v = [ucast v, ucast (drop_bit 8 v)]"

definition write_le24 :: "u32 \<Rightarrow> bytes" where
  "write_le24 v = map (\<lambda>i. ucast (drop_bit (8 * i) v)) [0..<3]"

definition write_le32 :: "u32 \<Rightarrow> bytes" where
  "write_le32 v = map (\<lambda>i. ucast (drop_bit (8 * i) v)) [0..<4]"

definition write_le64 :: "u64 \<Rightarrow> bytes" where
  "write_le64 v = map (\<lambda>i. ucast (drop_bit (8 * i) v)) [0..<8]"

definition write_be32 :: "u32 \<Rightarrow> bytes" where
  "write_be32 v = map (\<lambda>i. ucast (drop_bit (8 * (3 - i)) v)) [0..<4]"

definition write_be64 :: "u64 \<Rightarrow> bytes" where
  "write_be64 v = map (\<lambda>i. ucast (drop_bit (8 * (7 - i)) v)) [0..<8]"

definition le32_bytes :: "u32 \<Rightarrow> bytes" where
  "le32_bytes v = write_le32 v"

definition le64_bytes :: "u64 \<Rightarrow> bytes" where
  "le64_bytes v = write_le64 v"

definition append_le32 :: "bytes \<Rightarrow> u32 \<Rightarrow> bytes" where
  "append_le32 dst v = dst @ write_le32 v"

definition append_le64 :: "bytes \<Rightarrow> u64 \<Rightarrow> bytes" where
  "append_le64 dst v = dst @ write_le64 v"

text \<open>A store of \<open>bs\<close> into the buffer \<open>buf\<close> at the pointer \<^verbatim>\<open>buf + off\<close>.\<close>

definition put_bytes :: "bytes \<Rightarrow> nat \<Rightarrow> bytes \<Rightarrow> bytes" where
  "put_bytes buf off bs = take off buf @ bs @ drop (off + length bs) buf"

definition reversed :: "bytes \<Rightarrow> bytes" where
  "reversed inp = map (\<lambda>i. inp ! (length inp - 1 - i)) [0..<length inp]"

declare read_le16_def [word_defs] read_le24_def [word_defs] read_le32_def [word_defs]
  read_le64_def [word_defs] read_be32_def [word_defs] read_be64_def [word_defs]
  write_le16_def [word_defs] write_le24_def [word_defs] write_le32_def [word_defs]
  write_le64_def [word_defs] write_be32_def [word_defs] write_be64_def [word_defs]
  le32_bytes_def [word_defs] le64_bytes_def [word_defs]

section \<open>Combining bytes\<close>

lemma ucast_u8_word_of_nat: "(ucast (b :: u8) :: 'a :: len word) = word_of_nat (unat b)"
  by simp

lemma or_push_byte:
  assumes "v < 256 ^ n"
  shows "(word_of_nat v :: 'a :: len word) OR push_bit (8 * n) (ucast (b :: u8))
    = word_of_nat (v + 256 ^ n * unat b)"
proof -
  have "v < 2 ^ (8 * n)"
    using assms by (simp add: power_mult)
  then have low: "\<not> bit v k" if "8 * n \<le> k" for k
    using that by (metis bit_take_bit_iff linorder_not_le take_bit_nat_eq_self)
  have "(word_of_nat v :: 'a word) OR push_bit (8 * n) (ucast b)
      = word_of_nat v + push_bit (8 * n) (ucast b)"
    using low by (intro disjunctive_add [symmetric]) (auto simp: bit_simps)
  moreover have "push_bit (8 * n) (ucast b :: 'a word) = 256 ^ n * ucast b"
    by (simp add: push_bit_eq_mult power_mult mult.commute [of "ucast b"])
  ultimately show ?thesis by simp
qed

lemma push_or_byte:
  "push_bit 8 (word_of_nat v :: 'a :: len word) OR ucast (b :: u8) = word_of_nat (256 * v + unat b)"
proof -
  have "push_bit 8 (word_of_nat v :: 'a word) OR ucast b = push_bit 8 (word_of_nat v) + ucast b"
    by (intro disjunctive_add [symmetric]) (auto simp: bit_simps dest: bit_imp_le_length)
  then show ?thesis
    by (simp add: push_bit_eq_mult mult.commute)
qed

lemma read_bytes_le:
  "n \<le> length p \<Longrightarrow>
    fold (\<lambda>i v. v OR push_bit (8 * i) (ucast (p ! i))) [0..<n] 0
      = (word_of_nat (le_value (take n p)) :: 'a :: len word)"
proof (induction n)
  case (Suc n)
  have "le_value (take n p) < 256 ^ n"
    using le_value_less [of "take n p"] Suc.prems by simp
  with Suc show ?case
    by (simp add: or_push_byte take_Suc_conv_app_nth le_value_append)
qed simp

lemma read_bytes_be:
  "n \<le> length p \<Longrightarrow>
    fold (\<lambda>i v. push_bit 8 v OR ucast (p ! i)) [0..<n] 0
      = (word_of_nat (le_value (rev (take n p))) :: 'a :: len word)"
proof (induction n)
  case (Suc n)
  then show ?case
    by (simp add: take_Suc_conv_app_nth push_or_byte add.commute del: of_nat_add of_nat_mult)
qed simp

text \<open>Every reader returns the number its bytes denote.\<close>

lemma upt_small: "[0..<2] = [0, Suc 0]" "[0..<3] = [0, 1, 2]" "[0..<4] = [0, 1, 2, 3]"
  "[0..<8] = [0, 1, 2, 3, 4, 5, 6, 7]"
  by (simp_all add: upt_rec)

lemma read_le16_value: "2 \<le> length p \<Longrightarrow> read_le16 p = word_of_nat (le_value (take 2 p))"
  using read_bytes_le [of 2 p, where 'a = 16] by (simp add: read_le16_def upt_small)

lemma read_le24_value: "3 \<le> length p \<Longrightarrow> read_le24 p = word_of_nat (le_value (take 3 p))"
  using read_bytes_le [of 3 p, where 'a = 32] by (simp add: read_le24_def upt_small or.assoc)

lemma read_le32_value: "4 \<le> length p \<Longrightarrow> read_le32 p = word_of_nat (le_value (take 4 p))"
  using read_bytes_le [of 4 p, where 'a = 32] by (simp add: read_le32_def upt_small or.assoc)

lemma read_le64_value: "8 \<le> length p \<Longrightarrow> read_le64 p = word_of_nat (le_value (take 8 p))"
  using read_bytes_le [of 8 p, where 'a = 64] by (simp add: read_le64_def)

lemma read_be32_value: "4 \<le> length p \<Longrightarrow> read_be32 p = word_of_nat (le_value (rev (take 4 p)))"
  using read_bytes_be [of 4 p, where 'a = 32]
  by (simp add: read_be32_def upt_small push_bit_or or.assoc)

lemma read_be64_value: "8 \<le> length p \<Longrightarrow> read_be64 p = word_of_nat (le_value (rev (take 8 p)))"
  using read_bytes_be [of 8 p, where 'a = 64] by (simp add: read_be64_def)

section \<open>Splitting into bytes\<close>

lemma write_bytes_le:
  "map (\<lambda>i. ucast (drop_bit (8 * i) v)) [0..<n] = le_encode n (unat (v :: 'a :: len word))"
proof -
  have "map (\<lambda>i. ucast (drop_bit (8 * i) v)) [k..<k + n] = le_encode n (unat v div 256 ^ k)" for k
  proof (induction n arbitrary: k)
    case (Suc n)
    have "(ucast (drop_bit (8 * k) v) :: u8) = word_of_nat (unat v div 256 ^ k)"
    proof (rule bit_word_eqI)
      have "unat v div 256 ^ k = drop_bit (8 * k) (unat v)"
        by (simp add: drop_bit_eq_div power_mult)
      then show "bit (ucast (drop_bit (8 * k) v) :: u8) m = bit (word_of_nat (unat v div 256 ^ k) :: u8) m"
        if "m < LENGTH(8)" for m
        using that by (auto simp: bit_simps)
    qed
    moreover have "[k..<k + Suc n] = k # [Suc k..<Suc k + n]"
      by (simp add: upt_conv_Cons del: upt_Suc)
    moreover have "unat v div 256 ^ Suc k = unat v div 256 ^ k div 256"
      by (simp only: power_Suc2 div_mult2_eq)
    ultimately show ?case
      using Suc.IH [of "Suc k"] by (simp del: upt_Suc)
  qed simp
  from this [of 0] show ?thesis by simp
qed
lemma write_le16_encode: "write_le16 v = le_encode 2 (unat v)"
  using write_bytes_le [of v 2] by (simp add: write_le16_def upt_small)

lemma write_le24_encode: "write_le24 v = le_encode 3 (unat v)"
  unfolding write_le24_def by (rule write_bytes_le)

lemma write_le32_encode: "write_le32 v = le_encode 4 (unat v)"
  unfolding write_le32_def by (rule write_bytes_le)

lemma write_le64_encode: "write_le64 v = le_encode 8 (unat v)"
  unfolding write_le64_def by (rule write_bytes_le)

lemma write_be32_rev: "write_be32 v = rev (write_le32 v)"
  by (simp add: write_be32_def write_le32_def upt_small)

lemma write_be64_rev: "write_be64 v = rev (write_le64 v)"
  by (simp add: write_be64_def write_le64_def upt_small)

lemma length_write [simp]:
  "length (write_le16 v) = 2" "length (write_le24 w) = 3" "length (write_le32 w) = 4"
  "length (write_le64 x) = 8" "length (write_be32 w) = 4" "length (write_be64 x) = 8"
  "length (le32_bytes w) = 4" "length (le64_bytes x) = 8"
  by (simp_all add: word_defs)

lemma length_put_bytes [simp]:
  "off + length bs \<le> length buf \<Longrightarrow> length (put_bytes buf off bs) = length buf"
  by (simp add: put_bytes_def)

lemma reversed_rev [simp]: "reversed inp = rev inp"
  by (rule nth_equalityI) (simp_all add: reversed_def rev_nth)

section \<open>Round trips\<close>

lemma read_write_le16 [simp]: "read_le16 (write_le16 v @ rest) = v"
  by (simp add: read_le16_value write_le16_encode le_value_encode)

lemma read_write_le24:
  "unat v < 2 ^ 24 \<Longrightarrow> read_le24 (write_le24 v @ rest) = v"
  by (simp add: read_le24_value write_le24_encode le_value_encode)

lemma read_write_le32 [simp]: "read_le32 (write_le32 v @ rest) = v"
  by (simp add: read_le32_value write_le32_encode le_value_encode)

lemma read_write_le64 [simp]: "read_le64 (write_le64 v @ rest) = v"
  by (simp add: read_le64_value write_le64_encode le_value_encode)

lemma read_write_be32 [simp]: "read_be32 (write_be32 v @ rest) = v"
  by (simp add: read_be32_value write_be32_rev write_le32_encode le_value_encode)

lemma read_write_be64 [simp]: "read_be64 (write_be64 v @ rest) = v"
  by (simp add: read_be64_value write_be64_rev write_le64_encode le_value_encode)

lemma write_read_le16: "length p = 2 \<Longrightarrow> write_le16 (read_le16 p) = p"
  using le_value_less [of p]
  by (simp add: read_le16_value write_le16_encode unat_of_nat le_encode_value)

lemma write_read_le24: "length p = 3 \<Longrightarrow> write_le24 (read_le24 p) = p"
  using le_value_less [of p]
  by (simp add: read_le24_value write_le24_encode unat_of_nat le_encode_value)

lemma write_read_le32: "length p = 4 \<Longrightarrow> write_le32 (read_le32 p) = p"
  using le_value_less [of p]
  by (simp add: read_le32_value write_le32_encode unat_of_nat le_encode_value)

lemma write_read_le64: "length p = 8 \<Longrightarrow> write_le64 (read_le64 p) = p"
  using le_value_less [of p]
  by (simp add: read_le64_value write_le64_encode unat_of_nat le_encode_value)

lemma write_read_be32: "length p = 4 \<Longrightarrow> write_be32 (read_be32 p) = p"
  using le_value_less [of "rev p"]
  by (simp add: read_be32_value write_be32_rev write_le32_encode unat_of_nat le_encode_value)

end
