(* ===== verification/Hex.thy ===== *)
theory Hex
  imports Endian
begin

text \<open>
  \<^verbatim>\<open>src/src/util/hex.cpp\<close>: hexadecimal text. The digit table is built the way the source builds it;
  the decoders differ in how they report failure (an exception, \<^verbatim>\<open>nullopt\<close>, or a \<^verbatim>\<open>bool\<close> with a partly
  written buffer) and are shown to agree with each other and to invert the encoder.
\<close>

definition kHexChars :: string where
  "kHexChars = ''0123456789abcdef''"

definition make_hex_table :: "int list" where
  "make_hex_table =
    fold (\<lambda>i t. t[97 + i := 10 + int i, 65 + i := 10 + int i]) [0..<6]
      (fold (\<lambda>i t. t[48 + i := int i]) [0..<10] (replicate 256 (- 1)))"

definition kHexTable :: "char \<Rightarrow> int" where
  "kHexTable c = make_hex_table ! of_char c"

definition to_hex :: "bytes \<Rightarrow> string" where
  "to_hex data =
    concat (map (\<lambda>byte. [kHexChars ! unat (drop_bit 4 byte), kHexChars ! unat (byte AND 0x0f)]) data)"

definition to_hex_reversed :: "bytes \<Rightarrow> string" where
  "to_hex_reversed data =
    concat (map (\<lambda>index. [kHexChars ! unat (drop_bit 4 (data ! index)),
                          kHexChars ! unat (data ! index AND 0x0f)])
      (rev [0..<length data]))"

definition is_hex :: "string \<Rightarrow> bool" where
  "is_hex text \<longleftrightarrow>
    (if text = [] \<or> length text mod 2 \<noteq> 0 then False else list_all (\<lambda>c. \<not> kHexTable c < 0) text)"

definition hex_byte :: "int \<Rightarrow> int \<Rightarrow> u8" where
  "hex_byte high_nibble low_nibble = word_of_int (push_bit 4 high_nibble OR low_nibble)"

text \<open>The loop shared by the decoders: \<open>None\<close> once a character is not a digit.\<close>

fun hex_loop :: "bytes \<Rightarrow> string \<Rightarrow> bytes option" where
  "hex_loop out (h # l # text) =
    (if kHexTable h < 0 \<or> kHexTable l < 0 then None
     else hex_loop (out @ [hex_byte (kHexTable h) (kHexTable l)]) text)"
| "hex_loop out _ = Some out"

definition from_hex_append :: "bytes \<Rightarrow> string \<Rightarrow> bytes result" where
  "from_hex_append out text =
    (if length text mod 2 \<noteq> 0 then Inl (Invalid_argument ''hex string has odd length'')
     else case hex_loop out text of
       None \<Rightarrow> Inl (Invalid_argument ''hex string has a non-hex character'')
     | Some out' \<Rightarrow> Inr out')"

definition from_hex :: "string \<Rightarrow> bytes result" where
  "from_hex text = from_hex_append [] text"

definition try_from_hex :: "string \<Rightarrow> bytes option" where
  "try_from_hex text = (if length text mod 2 \<noteq> 0 then None else hex_loop [] text)"

fun hex_u32_loop :: "u32 \<Rightarrow> string \<Rightarrow> u32 option" where
  "hex_u32_loop value [] = Some value"
| "hex_u32_loop value (character # text) =
    (let nibble = kHexTable character
     in if nibble < 0 then None
        else hex_u32_loop (push_bit 4 value OR word_of_int nibble) text)"

definition try_parse_hex_u32 :: "string \<Rightarrow> u32 option" where
  "try_parse_hex_u32 text = (if text = [] \<or> length text > 8 then None else hex_u32_loop 0 text)"

definition parse_hex_u32 :: "string \<Rightarrow> u32 result" where
  "parse_hex_u32 text =
    (case try_parse_hex_u32 text of
      Some value \<Rightarrow> Inr value
    | None \<Rightarrow> Inl (Invalid_argument ''hex u32: empty, longer than 8 digits, or non-hex''))"

text \<open>\<^verbatim>\<open>from_hex_into\<close> returns its buffer too: a failure leaves a prefix overwritten.\<close>

fun hex_into_loop :: "bytes \<Rightarrow> bytes \<Rightarrow> string \<Rightarrow> bytes \<times> bool" where
  "hex_into_loop done (slot # out) (h # l # text) =
    (if kHexTable h < 0 \<or> kHexTable l < 0 then (done @ slot # out, False)
     else hex_into_loop (done @ [hex_byte (kHexTable h) (kHexTable l)]) out text)"
| "hex_into_loop done out text = (done @ out, True)"

definition from_hex_into :: "bytes \<Rightarrow> string \<Rightarrow> bytes \<times> bool" where
  "from_hex_into out text =
    (if length text \<noteq> length out * 2 then (out, False) else hex_into_loop [] out text)"

section \<open>The digit table\<close>

lemma length_make_hex_table [simp]: "length make_hex_table = 256"
  by (simp add: make_hex_table_def numeral_eq_Suc)

lemma upt_6_10: "[0..<6] = [0, 1, 2, 3, 4, 5]" "[0..<10] = [0, 1, 2, 3, 4, 5, 6, 7, 8, 9]"
  by (simp_all add: upt_rec)

lemma make_hex_table_nth:
  "n < 256 \<Longrightarrow> make_hex_table ! n =
    (if 48 \<le> n \<and> n \<le> 57 then int n - 48
     else if 65 \<le> n \<and> n \<le> 70 then int n - 55
     else if 97 \<le> n \<and> n \<le> 102 then int n - 87 else - 1)"
  by (simp add: make_hex_table_def upt_6_10 nth_list_update) presburger

lemma kHexTable_eq:
  "kHexTable c =
    (let n = of_char c :: nat
     in if 48 \<le> n \<and> n \<le> 57 then int n - 48
        else if 65 \<le> n \<and> n \<le> 70 then int n - 55
        else if 97 \<le> n \<and> n \<le> 102 then int n - 87 else - 1)"
  unfolding kHexTable_def Let_def by (rule make_hex_table_nth) (rule nat_of_char_less_256)

lemma kHexTable_bounds: "- 1 \<le> kHexTable c" "kHexTable c < 16"
  by (auto simp: kHexTable_eq Let_def)

lemma less_16_cases:
  "(n :: nat) < 16 \<Longrightarrow> n \<in> {0, 1, 2, 3, 4, 5, 6, 7, 8, 9, 10, 11, 12, 13, 14, 15}"
  by (simp; presburger)

lemma kHexTable_kHexChars [simp]: "n < 16 \<Longrightarrow> kHexTable (kHexChars ! n) = int n"
  using less_16_cases [of n] by (auto simp: kHexChars_def kHexTable_eq)

definition lower_hex :: "char \<Rightarrow> char" where
  "lower_hex c = (if 65 \<le> (of_char c :: nat) \<and> of_char c \<le> (70 :: nat) then char_of (of_char c + (32 :: nat)) else c)"

lemma kHexChars_kHexTable:
  assumes "0 \<le> kHexTable c"
  shows "kHexChars ! nat (kHexTable c) = lower_hex c"
proof -
  define n where "n = (of_char c :: nat)"
  have "n \<in> {48..57} \<union> {65..70} \<union> {97..102}"
    using assms by (auto simp: kHexTable_eq Let_def n_def split: if_splits)
  then have "n \<in> {48, 49, 50, 51, 52, 53, 54, 55, 56, 57, 65, 66, 67, 68, 69, 70, 97, 98, 99, 100, 101, 102}"
    by (simp only: Un_iff atLeastAtMost_iff insert_iff empty_iff) presburger
  then have "of_char (kHexChars ! nat (kHexTable c)) = (of_char (lower_hex c) :: nat)"
    unfolding kHexTable_eq lower_hex_def Let_def n_def [symmetric]
    by (auto simp: kHexChars_def of_char_of n_def [symmetric] simp del: of_char_eq_iff)
  then show ?thesis by simp
qed

section \<open>Bytes and digit pairs\<close>

lemma unat_nibbles [simp]: "unat (drop_bit 4 (b :: u8)) < 16" "unat (b AND 15) < 16"
proof -
  have mask: "(15 :: u8) = mask 4" by (simp add: mask_eq_exp_minus_1)
  show "unat (drop_bit 4 b) < 16" "unat (b AND 15) < 16"
    unfolding mask by (simp_all add: unat_drop_bit_div unat_and_mask less_mult_imp_div_less)
qed

lemma hex_byte_nibbles [simp]:
  "hex_byte (uint (drop_bit 4 b)) (uint (b AND 15)) = b"
proof -
  have mask: "(15 :: u8) = mask 4" by (simp add: mask_eq_exp_minus_1)
  show ?thesis
    unfolding hex_byte_def mask by (rule bit_word_eqI) (auto simp: bit_simps)
qed

lemma nibbles_hex_byte:
  assumes "0 \<le> h" "h < 16" "0 \<le> l" "l < 16"
  shows "unat (drop_bit 4 (hex_byte h l)) = nat h" "unat (hex_byte h l AND 15) = nat l"
proof -
  obtain i j where h: "h = int i" "i < 16" and l: "l = int j" "j < 16"
    using assms by (metis nonneg_int_cases of_nat_less_numeral_iff)
  have "hex_byte h l = word_of_nat (16 * i + j)"
  proof -
    have "push_bit 4 h OR l = push_bit 4 h + l"
    proof (rule disjunctive_add [symmetric])
      have "take_bit 4 l = l"
        using l by (simp add: take_bit_eq_mod)
      then show "\<not> bit (push_bit 4 h) n \<or> \<not> bit l n" for n
        by (metis bit_push_bit_iff_int bit_take_bit_iff linorder_not_le)
    qed
    then show ?thesis
      by (simp add: hex_byte_def h l push_bit_eq_mult mult.commute)
  qed
  moreover have mask: "(15 :: u8) = mask 4" by (simp add: mask_eq_exp_minus_1)
  moreover have "unat (word_of_nat (16 * i + j) :: u8) = 16 * i + j"
    using h l by (simp only: unat_of_nat) simp
  ultimately show "unat (drop_bit 4 (hex_byte h l)) = nat h" "unat (hex_byte h l AND 15) = nat l"
    using h l unfolding mask by (simp_all add: unat_drop_bit_div unat_and_mask)
qed

lemma to_hex_simps [simp]:
  "to_hex [] = []"
  "to_hex (b # bs) = kHexChars ! unat (drop_bit 4 b) # kHexChars ! unat (b AND 15) # to_hex bs"
  by (simp_all add: to_hex_def)

lemma length_to_hex [simp]: "length (to_hex data) = 2 * length data"
  by (induction data) auto

lemma to_hex_append [simp]: "to_hex (xs @ ys) = to_hex xs @ to_hex ys"
  by (simp add: to_hex_def)

lemma to_hex_Nil_iff [simp]: "to_hex bs = [] \<longleftrightarrow> bs = []"
  by (cases bs) auto

lemma hex_loop_to_hex [simp]: "hex_loop out (to_hex bs) = Some (out @ bs)"
  by (induction bs arbitrary: out) simp_all

lemma to_hex_reversed_rev: "to_hex_reversed data = to_hex (rev data)"
proof -
  have "rev data = map (\<lambda>index. data ! index) (rev [0..<length data])"
    by (simp add: map_nth flip: rev_map)
  then show ?thesis
    by (simp only: to_hex_reversed_def to_hex_def map_map comp_def)
qed

lemma hex_loop_Some_iff:
  "even (length text) \<Longrightarrow>
    hex_loop out text = Some out' \<longleftrightarrow>
      list_all (\<lambda>c. 0 \<le> kHexTable c) text \<and>
      (\<exists>bs. out' = out @ bs \<and> to_hex bs = map lower_hex text)"
proof (induction out "text" rule: hex_loop.induct)
  case (1 out h l tail)
  show ?case
  proof (cases "kHexTable h < 0 \<or> kHexTable l < 0")
    case False
    let ?b = "hex_byte (kHexTable h) (kHexTable l)"
    have nib: "kHexChars ! unat (drop_bit 4 ?b) = lower_hex h" "kHexChars ! unat (?b AND 15) = lower_hex l"
      using False kHexTable_bounds by (simp_all add: nibbles_hex_byte kHexChars_kHexTable)
    have "(\<exists>bs. out' = (out @ [?b]) @ bs \<and> to_hex bs = map lower_hex tail) \<longleftrightarrow>
        (\<exists>bs. out' = out @ bs \<and> to_hex bs = map lower_hex (h # l # tail))" (is "?L \<longleftrightarrow> ?R")
    proof
      assume ?R
      then obtain bs where bs: "out' = out @ bs" "to_hex bs = map lower_hex (h # l # tail)"
        by blast
      then obtain b bs' where b: "bs = b # bs'"
        by (cases bs) auto
      with bs have "to_hex [b] = to_hex [?b]"
        by (simp add: nib)
      then have "b = ?b"
        using hex_loop_to_hex [of "[]" "[b]"] hex_loop_to_hex [of "[]" "[?b]"]
        by (metis append_Nil list.inject option.inject)
      then show ?L using bs b by auto
    next
      assume ?L
      then obtain bs where "out' = (out @ [?b]) @ bs \<and> to_hex bs = map lower_hex tail" ..
      then show ?R by (intro exI [of _ "?b # bs"]) (simp add: nib)
    qed
    then show ?thesis
      using False 1 by (simp add: not_less)
  qed auto
qed auto

lemma from_hex_try_from_hex:
  "from_hex s = (case try_from_hex s of
      Some bs \<Rightarrow> Inr bs
    | None \<Rightarrow> Inl (Invalid_argument (if odd (length s) then ''hex string has odd length''
        else ''hex string has a non-hex character'')))"
  by (auto simp: from_hex_def from_hex_append_def try_from_hex_def odd_iff_mod_2_eq_one
      split: option.splits)

lemma try_from_hex_Some_iff:
  "try_from_hex s = Some bs \<longleftrightarrow>
    even (length s) \<and> list_all (\<lambda>c. 0 \<le> kHexTable c) s \<and> to_hex bs = map lower_hex s"
  using hex_loop_Some_iff [of s "[]" bs] by (auto simp: try_from_hex_def)

lemma try_from_hex_to_hex [simp]: "try_from_hex (to_hex data) = Some data"
  by (simp add: try_from_hex_def)

lemma from_hex_to_hex [simp]: "from_hex (to_hex data) = Inr data"
  by (simp add: from_hex_try_from_hex)

lemma from_hex_Inr_iff: "from_hex s = Inr bs \<longleftrightarrow> try_from_hex s = Some bs"
  by (auto simp: from_hex_try_from_hex split: option.splits)

lemma from_hex_length: "from_hex s = Inr bs \<Longrightarrow> length s = 2 * length bs"
  using length_to_hex [of bs]
  by (auto simp: from_hex_Inr_iff try_from_hex_Some_iff)

section \<open>Properties of the codec\<close>

text \<open>Decoding succeeds exactly on even-length digit strings, \<^verbatim>\<open>is_hex\<close> tells in advance which
  non-empty ones, and the decoded bytes print back as the input in lower case; in particular
  \<^verbatim>\<open>from_hex(to_hex(data)) == data\<close>.\<close>

theorem from_hex_correct:
  "(from_hex s = Inr bs \<longleftrightarrow>
      even (length s) \<and> list_all (\<lambda>c. 0 \<le> kHexTable c) s \<and> to_hex bs = map lower_hex s)
   \<and> (is_hex s \<longleftrightarrow> s \<noteq> [] \<and> (\<exists>bs'. from_hex s = Inr bs'))
   \<and> from_hex (to_hex data) = Inr data"
proof (intro conjI)
  show "is_hex s \<longleftrightarrow> s \<noteq> [] \<and> (\<exists>bs'. from_hex s = Inr bs')"
  proof -
    have "(\<exists>bs'. try_from_hex s = Some bs') \<longleftrightarrow> even (length s) \<and> list_all (\<lambda>c. 0 \<le> kHexTable c) s"
    proof (cases "even (length s) \<and> list_all (\<lambda>c. 0 \<le> kHexTable c) s")
      case True
      have "hex_loop out t \<noteq> None" if "list_all (\<lambda>c. 0 \<le> kHexTable c) t" for out t
        using that by (induction out t rule: hex_loop.induct) auto
      with True show ?thesis
        by (auto simp: try_from_hex_def even_iff_mod_2_eq_zero)
    qed (auto simp: try_from_hex_Some_iff)
    then show ?thesis
      by (auto simp: from_hex_try_from_hex is_hex_def even_iff_mod_2_eq_zero not_less list_all_iff
          split: option.splits)
  qed
qed (simp_all add: from_hex_Inr_iff try_from_hex_Some_iff)

lemma hex_into_loop_eq:
  "length s = 2 * length out \<Longrightarrow>
    (case hex_loop acc s of
      Some bs \<Rightarrow> hex_into_loop acc out s = (bs, True)
    | None \<Rightarrow> \<not> snd (hex_into_loop acc out s) \<and> length (fst (hex_into_loop acc out s)) = length acc + length out)"
  by (induction acc out s rule: hex_into_loop.induct) (auto split: option.splits)

text \<open>The allocation-free decoder \<^verbatim>\<open>from_hex_into\<close> never resizes its buffer, reports success exactly
  when the text has the buffer's size and \<^verbatim>\<open>try_from_hex\<close> accepts it, and then holds the same bytes;
  a text of the wrong size leaves the buffer untouched.\<close>

theorem from_hex_into_refines:
  "length (fst (from_hex_into out s)) = length out
   \<and> (snd (from_hex_into out s) \<longleftrightarrow> length s = 2 * length out \<and> try_from_hex s \<noteq> None)
   \<and> (if snd (from_hex_into out s) then try_from_hex s = Some (fst (from_hex_into out s))
      else length s = 2 * length out \<or> fst (from_hex_into out s) = out)"
proof (cases "length s = 2 * length out")
  case True
  have "length bs = length out" if "try_from_hex s = Some bs" for bs
    using that True length_to_hex [of bs] by (auto simp: try_from_hex_Some_iff)
  with True show ?thesis
    using hex_into_loop_eq [of s out "[]"]
    by (auto simp: from_hex_into_def try_from_hex_def split: option.splits)
qed (simp add: from_hex_into_def)

end
