(* ===== verification/Uint256.thy ===== *)
theory Uint256
  imports Hex
begin

text \<open>
  \<^verbatim>\<open>src/src/util/uint256.cpp\<close>: the 256-bit hash and target type. The class keeps 32 bytes least
  significant first (\<^verbatim>\<open>std::array<uint8_t, 32> bytes_\<close>); its comparison walks the bytes from the top.
  The comparison is shown to be the order of the denoted integers, and the type is made an instance
  of the library's linear orders through it, so that \<open>hash \<le> target\<close> reads as in the source.
\<close>

typedef uint256 = "{bs :: bytes. length bs = 32}"
  morphisms le_bytes Uint256
  by (rule exI [of _ "replicate 32 0"]) simp

declare le_bytes_inverse [code abstype]

lemma length_le_bytes [simp]: "length (le_bytes x) = 32"
  using le_bytes [of x] by simp

text \<open>Copying at most 32 bytes over a value-initialised array.\<close>

definition uint256_of_bytes :: "bytes \<Rightarrow> uint256" where
  "uint256_of_bytes bs = Uint256 (take 32 bs @ replicate (32 - length bs) 0)"

lemma le_bytes_uint256_of_bytes [code abstract]:
  "le_bytes (uint256_of_bytes bs) = take 32 bs @ replicate (32 - length bs) 0"
  by (simp add: uint256_of_bytes_def Uint256_inverse)

definition uint256_zero :: uint256 where
  "uint256_zero = uint256_of_bytes []"

definition from_le_bytes :: "bytes \<Rightarrow> uint256 result" where
  "from_le_bytes little_endian =
    (if length little_endian > 32 then Inl (Invalid_argument ''uint256: more than 32 bytes'')
     else Inr (uint256_of_bytes little_endian))"

definition from_display_hex :: "string \<Rightarrow> uint256 result" where
  "from_display_hex hex =
    bindE (from_hex hex) (\<lambda>big_endian.
      if length big_endian > 32 then Inl (Invalid_argument ''uint256: hex longer than 32 bytes'')
      else Inr (uint256_of_bytes
        (map (\<lambda>i. big_endian ! (length big_endian - 1 - i)) [0..<length big_endian])))"

definition to_display_hex :: "uint256 \<Rightarrow> string" where
  "to_display_hex x = to_hex_reversed (le_bytes x)"

definition is_zero :: "uint256 \<Rightarrow> bool" where
  "is_zero x = list_all (\<lambda>byte. byte = 0) (le_bytes x)"

datatype strong_ordering = SO_less | SO_equal | SO_greater

text \<open>The loop of \<^verbatim>\<open>operator<=>\<close>: \<open>Suc i\<close> stands for the loop index \<open>i\<close>, \<open>0\<close> for leaving the loop.\<close>

fun spaceship_loop :: "nat \<Rightarrow> bytes \<Rightarrow> bytes \<Rightarrow> strong_ordering" where
  "spaceship_loop 0 a b = SO_equal"
| "spaceship_loop (Suc i) a b =
    (if a ! i \<noteq> b ! i then (if a ! i < b ! i then SO_less else SO_greater)
     else spaceship_loop i a b)"

definition spaceship :: "uint256 \<Rightarrow> uint256 \<Rightarrow> strong_ordering" where
  "spaceship a b = spaceship_loop 32 (le_bytes a) (le_bytes b)"

section \<open>The denoted integer\<close>

definition uint256_value :: "uint256 \<Rightarrow> nat" where
  "uint256_value x = le_value (le_bytes x)"

lemma uint256_value_less: "uint256_value x < 2 ^ 256"
  using le_value_less [of "le_bytes x"] by (simp add: uint256_value_def)

lemma uint256_value_inject: "uint256_value x = uint256_value y \<longleftrightarrow> x = y"
  by (auto simp: uint256_value_def le_bytes_inject dest: le_value_inj [rotated])

lemma le_bytes_of_bytes: "length bs = 32 \<Longrightarrow> le_bytes (uint256_of_bytes bs) = bs"
  by (simp add: le_bytes_uint256_of_bytes)

lemma uint256_of_le_bytes [simp]: "uint256_of_bytes (le_bytes x) = x"
  by (simp add: le_bytes_of_bytes flip: le_bytes_inject)

lemma uint256_value_of_bytes: "length bs \<le> 32 \<Longrightarrow> uint256_value (uint256_of_bytes bs) = le_value bs"
  by (simp add: uint256_value_def le_bytes_uint256_of_bytes le_value_append)

lemma uint256_value_encode:
  "n < 2 ^ 256 \<Longrightarrow> uint256_value (uint256_of_bytes (le_encode 32 n)) = n"
  by (simp add: uint256_value_of_bytes le_value_encode)

lemma spaceship_loop_value:
  "n \<le> length a \<Longrightarrow> n \<le> length b \<Longrightarrow>
    spaceship_loop n a b =
      (if le_value (take n a) < le_value (take n b) then SO_less
       else if le_value (take n a) = le_value (take n b) then SO_equal else SO_greater)"
proof (induction n)
  case (Suc n)
  let ?A = "le_value (take n a)" and ?B = "le_value (take n b)"
  have bound: "?A < 256 ^ n" "?B < 256 ^ n"
    using le_value_less [of "take n a"] le_value_less [of "take n b"] Suc.prems by simp_all
  have top: "le_value (take (Suc n) a) = ?A + 256 ^ n * unat (a ! n)"
    "le_value (take (Suc n) b) = ?B + 256 ^ n * unat (b ! n)"
    using Suc.prems by (simp_all add: take_Suc_conv_app_nth le_value_append)
  have step: "x + 256 ^ n * i < y + 256 ^ n * j" if "x < 256 ^ n" "i < j" for x y i j :: nat
  proof -
    have "x + 256 ^ n * i < 256 ^ n * Suc i" using that by simp
    also have "\<dots> \<le> 256 ^ n * j" using that by (intro mult_left_mono) auto
    finally show ?thesis by simp
  qed
  consider "a ! n = b ! n" | "unat (a ! n) < unat (b ! n)" | "unat (b ! n) < unat (a ! n)"
    by (metis linorder_neqE_nat word_unat_eq_iff)
  then show ?case
  proof cases
    case 1
    then show ?thesis using Suc by (simp add: top)
  next
    case 2
    then show ?thesis
      using step [OF bound(1) 2, of ?B] unfolding top by (auto simp: word_less_nat_alt)
  next
    case 3
    then show ?thesis
      using step [OF bound(2) 3, of ?A] unfolding top by (auto simp: word_less_nat_alt)
  qed
qed simp

lemma spaceship_value:
  "spaceship a b =
    (if uint256_value a < uint256_value b then SO_less
     else if uint256_value a = uint256_value b then SO_equal else SO_greater)"
  using spaceship_loop_value [of 32 "le_bytes a" "le_bytes b"]
  by (simp add: spaceship_def uint256_value_def)

instantiation uint256 :: linorder
begin

definition less_eq_uint256 :: "uint256 \<Rightarrow> uint256 \<Rightarrow> bool" where
  "less_eq_uint256 a b \<longleftrightarrow> spaceship a b \<noteq> SO_greater"

definition less_uint256 :: "uint256 \<Rightarrow> uint256 \<Rightarrow> bool" where
  "less_uint256 a b \<longleftrightarrow> spaceship a b = SO_less"

instance
  by standard
    (auto simp: less_eq_uint256_def less_uint256_def spaceship_value uint256_value_inject
      split: if_splits)

end

instantiation uint256 :: equal
begin

definition equal_uint256 :: "uint256 \<Rightarrow> uint256 \<Rightarrow> bool" where
  "equal_uint256 a b \<longleftrightarrow> le_bytes a = le_bytes b"

instance
  by standard (simp add: equal_uint256_def le_bytes_inject)

end

lemma uint256_le_iff: "a \<le> b \<longleftrightarrow> uint256_value a \<le> uint256_value b"
  by (auto simp: less_eq_uint256_def spaceship_value)

lemma uint256_less_iff: "a < b \<longleftrightarrow> uint256_value a < uint256_value b"
  by (auto simp: less_uint256_def spaceship_value)

text \<open>\<^verbatim>\<open>operator<=>\<close> orders two values as the 256-bit integers their little-endian bytes denote, and
  answers "equal" exactly for equal byte arrays, so \<^verbatim>\<open>hash <= target\<close> is the consensus comparison.\<close>

theorem spaceship_correct:
  "spaceship a b =
      (if le_value (le_bytes a) < le_value (le_bytes b) then SO_less
       else if le_bytes a = le_bytes b then SO_equal else SO_greater)
   \<and> (a \<le> b \<longleftrightarrow> le_value (le_bytes a) \<le> le_value (le_bytes b))"
  by (metis spaceship_value uint256_le_iff uint256_value_def uint256_value_inject le_bytes_inject)

lemma is_zero_iff: "is_zero x \<longleftrightarrow> uint256_value x = 0"
  by (simp add: is_zero_def uint256_value_def le_value_zero_iff list_all_iff)

text \<open>The display form is the big-endian hexadecimal numeral: parsing a printed value restores it,
  and parsing any text of at most 64 digits gives the number the digits denote.\<close>

theorem display_hex_roundtrip:
  "from_display_hex (to_display_hex x) = Inr x
   \<and> (from_display_hex s = Inr y \<longleftrightarrow>
        (\<exists>bs. from_hex s = Inr bs \<and> length bs \<le> 32 \<and> uint256_value y = le_value (rev bs)))"
proof -
  have rev: "map (\<lambda>i. bs ! (length bs - 1 - i)) [0..<length bs] = rev bs" for bs :: bytes
    using reversed_rev [of bs] by (simp only: reversed_def)
  have "from_display_hex s = Inr y \<longleftrightarrow>
      (\<exists>bs. from_hex s = Inr bs \<and> length bs \<le> 32 \<and> uint256_of_bytes (rev bs) = y)"
    unfolding from_display_hex_def rev by (auto simp: result_simps not_less)
  moreover have "uint256_of_bytes (rev bs) = y \<longleftrightarrow> uint256_value y = le_value (rev bs)"
    if "length bs \<le> 32" for bs
    using that uint256_value_of_bytes [of "rev bs"] by (metis length_rev uint256_value_inject)
  moreover have "from_display_hex (to_display_hex x) = Inr x"
    unfolding from_display_hex_def to_display_hex_def to_hex_reversed_rev from_hex_to_hex bindE.simps rev
    by simp
  ultimately show ?thesis by auto
qed

end
