(* ===== verification/Varint.thy ===== *)
theory Varint
  imports Endian
begin

text \<open>
  \<^verbatim>\<open>src/src/util/varint.cpp\<close>: Bitcoin's CompactSize integers. The decoder reports the value and how
  many bytes it used; it inverts the encoder on every 64-bit value, whatever follows the encoding.
\<close>

record Varint =
  varint_value :: u64
  varint_size :: nat

definition encode_varint :: "u64 \<Rightarrow> bytes" where
  "encode_varint val =
    (if val < 0xfd then [ucast val]
     else if val \<le> 0xffff then [0xfd, ucast val, ucast (drop_bit 8 val)]
     else if val \<le> 0xffffffff then 0xfe # map (\<lambda>i. ucast (drop_bit (8 * i) val)) [0..<4]
     else 0xff # map (\<lambda>i. ucast (drop_bit (8 * i) val)) [0..<8])"

definition decode_varint :: "bytes \<Rightarrow> Varint result" where
  "decode_varint inp =
    (if inp = [] then Inl (Invalid_argument ''varint: empty input'')
     else let first = inp ! 0
       in if first < 0xfd then Inr \<lparr>varint_value = ucast first, varint_size = 1\<rparr>
       else if first = 0xfd then
         (if length inp < 3 then Inl (Invalid_argument ''varint: truncated 2-byte value'')
          else Inr \<lparr>varint_value = ucast (read_le16 (drop 1 inp)), varint_size = 3\<rparr>)
       else if first = 0xfe then
         (if length inp < 5 then Inl (Invalid_argument ''varint: truncated 4-byte value'')
          else Inr \<lparr>varint_value = ucast (read_le32 (drop 1 inp)), varint_size = 5\<rparr>)
       else
         (if length inp < 9 then Inl (Invalid_argument ''varint: truncated 8-byte value'')
          else Inr \<lparr>varint_value = read_le64 (drop 1 inp), varint_size = 9\<rparr>))"

lemma encode_varint_cases:
  "encode_varint val =
    (if unat val < 253 then [ucast val]
     else if unat val < 65536 then 0xfd # le_encode 2 (unat val)
     else if unat val < 4294967296 then 0xfe # le_encode 4 (unat val)
     else 0xff # le_encode 8 (unat val))"
proof -
  have two: "[ucast val, ucast (drop_bit 8 val)] = le_encode 2 (unat val)"
    using write_bytes_le [of val 2] by (simp add: upt_small)
  show ?thesis
    unfolding encode_varint_def write_bytes_le two
    by (auto simp: word_less_nat_alt word_le_nat_alt)
qed

lemma length_encode_varint:
  "length (encode_varint val) =
    (if unat val < 253 then 1 else if unat val < 65536 then 3
     else if unat val < 4294967296 then 5 else 9)"
  by (simp add: encode_varint_cases)

lemma decode_encode_varint:
  "decode_varint (encode_varint val @ rest) = Inr \<lparr>varint_value = val, varint_size = length (encode_varint val)\<rparr>"
proof -
  consider "unat val < 253" | "253 \<le> unat val" "unat val < 65536"
    | "65536 \<le> unat val" "unat val < 4294967296" | "4294967296 \<le> unat val"
    by linarith
  then show ?thesis
  proof cases
    case 1
    then show ?thesis
      using ucast_ucast_small [of val, where 'b = 8] unat_ucast_small [of val, where 'b = 8]
      by (simp add: encode_varint_cases decode_varint_def word_less_nat_alt)
  next
    case 2
    then show ?thesis
      using ucast_ucast_small [of val, where 'b = 16]
      by (simp add: encode_varint_cases decode_varint_def read_le16_value le_value_encode)
  next
    case 3
    then show ?thesis
      using ucast_ucast_small [of val, where 'b = 32]
      by (simp add: encode_varint_cases decode_varint_def read_le32_value le_value_encode)
  next
    case 4
    then show ?thesis
      by (simp add: encode_varint_cases decode_varint_def read_le64_value le_value_encode)
  qed
qed

lemma le_encode_take: "k \<le> length bs \<Longrightarrow> n = le_value (take k bs) \<Longrightarrow> le_encode k n @ drop k bs = bs"
  by (simp add: le_encode_value)

lemma unat_read_varint:
  "2 \<le> length p \<Longrightarrow> unat (ucast (read_le16 p) :: u64) = le_value (take 2 p)"
  "4 \<le> length p \<Longrightarrow> unat (ucast (read_le32 p) :: u64) = le_value (take 4 p)"
  "8 \<le> length p \<Longrightarrow> unat (read_le64 p) = le_value (take 8 p)"
  using le_value_less [of "take 2 p"] le_value_less [of "take 4 p"] le_value_less [of "take 8 p"]
  by (simp_all add: read_le16_value read_le32_value read_le64_value unsigned_ucast_eq unat_of_nat take_bit_nat_eq_self)

lemma decode_varint_canonical:
  assumes "decode_varint inp = Inr v"
    and "\<not> (varint_size v = 3 \<and> varint_value v < 0xfd)" "\<not> (varint_size v = 5 \<and> varint_value v \<le> 0xffff)"
      "\<not> (varint_size v = 9 \<and> varint_value v \<le> 0xffffffff)"
  shows "encode_varint (varint_value v) @ drop (varint_size v) inp = inp"
proof -
  obtain first rest where inp: "inp = first # rest"
    using assms(1) by (cases inp) (auto simp: decode_varint_def)
  have bytes: "unat (0xfd :: u8) = 253" "unat (0xfe :: u8) = 254" "unat (0xff :: u8) = 255" by simp_all
  have top: "\<not> first < 0xfd \<Longrightarrow> first = 0xfd \<or> first = 0xfe \<or> first = 0xff"
    using unat_u8_less [of first] bytes unfolding word_less_nat_alt word_unat_eq_iff by linarith
  have "le_value (take k rest) < 256 ^ k" for k
    by (rule less_le_trans [OF le_value_less power_increasing]) simp_all
  then have bounds: "le_value (take 2 rest) < 256 ^ 2" "le_value (take 4 rest) < 256 ^ 4" by blast+
  consider "first < 0xfd" | "first = 0xfd" "2 \<le> length rest" "v = \<lparr>varint_value = ucast (read_le16 rest), varint_size = 3\<rparr>"
    | "first = 0xfe" "4 \<le> length rest" "v = \<lparr>varint_value = ucast (read_le32 rest), varint_size = 5\<rparr>"
    | "first = 0xff" "8 \<le> length rest" "v = \<lparr>varint_value = read_le64 rest, varint_size = 9\<rparr>"
    using assms(1) top by (auto simp: inp decode_varint_def split: if_splits)
  then show ?thesis
  proof cases
    case 1
    have "unat (ucast first :: u64) = unat first"
      by (simp add: unsigned_ucast_eq) (rule take_bit_nat_eq_self, rule less_trans [OF unat_u8_less], simp)
    moreover have "(ucast (ucast first :: u64) :: u8) = first" by (rule bit_eqI) (auto simp: bit_simps)
    ultimately show ?thesis
      using assms(1) 1 by (auto simp: inp decode_varint_def encode_varint_cases word_less_nat_alt)
  next
    case 2
    then show ?thesis
      using assms(2) bounds(1) unat_read_varint(1) [of rest] le_encode_take [of 2 rest]
      by (simp add: inp encode_varint_cases word_less_nat_alt)
  next
    case 3
    then show ?thesis
      using assms(3) bounds(2) unat_read_varint(2) [of rest] le_encode_take [of 4 rest]
      by (simp add: inp encode_varint_cases word_le_nat_alt)
  next
    case 4
    then show ?thesis
      using assms(4) unat_read_varint(3) [of rest] le_encode_take [of 8 rest]
      by (simp add: inp encode_varint_cases word_le_nat_alt)
  qed
qed

text \<open>Decoding an encoded value, with any bytes after it, returns the value and the exact length of
  its encoding, which is the shortest of the four forms that fits.\<close>

theorem varint_roundtrip:
  "decode_varint (encode_varint val @ rest)
      = Inr \<lparr>varint_value = val, varint_size = length (encode_varint val)\<rparr>
   \<and> length (encode_varint val) =
      (if unat val < 253 then 1 else if unat val < 2 ^ 16 then 3
       else if unat val < 2 ^ 32 then 5 else 9)"
  by (simp add: decode_encode_varint length_encode_varint)

end
