(* ===== verification/Sha256.thy ===== *)
theory Sha256
  imports Endian
begin

text \<open>
  \<^verbatim>\<open>src/third_party/bitcoin/crypto/sha256.cpp\<close> (with \<^verbatim>\<open>common.h\<close>) and its wrapper
  \<^verbatim>\<open>src/src/util/sha256.cpp\<close>: the portable SHA-256 of Bitcoin Core that the pool vendors. The
  streaming class, its compression function with the unrolled message schedule, the hand-optimised
  double hash of 64-byte blobs and the dispatch to batched kernels are modelled; the batched kernels
  themselves (SIMD and SHA-extension code) are parameters.
\<close>

section \<open>Byte order (common.h)\<close>

definition ReadBE32 :: "bytes \<Rightarrow> u32" where
  "ReadBE32 ptr = read_be32 ptr"

definition WriteBE32 :: "u32 \<Rightarrow> bytes" where
  "WriteBE32 x = write_be32 x"

definition WriteBE64 :: "u64 \<Rightarrow> bytes" where
  "WriteBE64 x = write_be64 x"

section \<open>Compression\<close>

definition Ch :: "u32 \<Rightarrow> u32 \<Rightarrow> u32 \<Rightarrow> u32" where
  "Ch x y z = z XOR (x AND (y XOR z))"

definition Maj :: "u32 \<Rightarrow> u32 \<Rightarrow> u32 \<Rightarrow> u32" where
  "Maj x y z = (x AND y) OR (z AND (x OR y))"

definition Sigma0 :: "u32 \<Rightarrow> u32" where
  "Sigma0 x = (drop_bit 2 x OR push_bit 30 x) XOR (drop_bit 13 x OR push_bit 19 x)
     XOR (drop_bit 22 x OR push_bit 10 x)"

definition Sigma1 :: "u32 \<Rightarrow> u32" where
  "Sigma1 x = (drop_bit 6 x OR push_bit 26 x) XOR (drop_bit 11 x OR push_bit 21 x)
     XOR (drop_bit 25 x OR push_bit 7 x)"

definition sigma0 :: "u32 \<Rightarrow> u32" where
  "sigma0 x = (drop_bit 7 x OR push_bit 25 x) XOR (drop_bit 18 x OR push_bit 14 x) XOR drop_bit 3 x"

definition sigma1 :: "u32 \<Rightarrow> u32" where
  "sigma1 x = (drop_bit 17 x OR push_bit 15 x) XOR (drop_bit 19 x OR push_bit 13 x) XOR drop_bit 10 x"

text \<open>\<^verbatim>\<open>Round\<close> updates its reference parameters \<open>d\<close> and \<open>h\<close>, which are returned.\<close>

definition Round :: "u32 \<Rightarrow> u32 \<Rightarrow> u32 \<Rightarrow> u32 \<Rightarrow> u32 \<Rightarrow> u32 \<Rightarrow> u32 \<Rightarrow> u32 \<Rightarrow> u32 \<Rightarrow> u32 \<times> u32" where
  "Round a b c d e f g h k =
    (let t1 = h + Sigma1 e + Ch e f g + k; t2 = Sigma0 a + Maj a b c in (d + t1, t1 + t2))"

type_synonym sha_state = "u32 \<times> u32 \<times> u32 \<times> u32 \<times> u32 \<times> u32 \<times> u32 \<times> u32"

definition Initialize :: sha_state where
  "Initialize = (0x6a09e667, 0xbb67ae85, 0x3c6ef372, 0xa54ff53a,
    0x510e527f, 0x9b05688c, 0x1f83d9ab, 0x5be0cd19)"

text \<open>Eight consecutive \<^verbatim>\<open>Round\<close> calls, with the source's rotation of the variable names.\<close>

fun rounds8 :: "sha_state \<Rightarrow> u32 \<Rightarrow> u32 \<Rightarrow> u32 \<Rightarrow> u32 \<Rightarrow> u32 \<Rightarrow> u32 \<Rightarrow> u32 \<Rightarrow> u32 \<Rightarrow> sha_state" where
  "rounds8 (a, b, c, d, e, f, g, h) k0 k1 k2 k3 k4 k5 k6 k7 =
    (let (d, h) = Round a b c d e f g h k0;
         (c, g) = Round h a b c d e f g k1;
         (b, f) = Round g h a b c d e f k2;
         (a, e) = Round f g h a b c d e k3;
         (h, d) = Round e f g h a b c d k4;
         (g, c) = Round d e f g h a b c k5;
         (f, b) = Round c d e f g h a b k6;
         (e, a) = Round b c d e f g h a k7
     in (a, b, c, d, e, f, g, h))"

fun rounds :: "sha_state \<Rightarrow> u32 list \<Rightarrow> sha_state" where
  "rounds s (k0 # k1 # k2 # k3 # k4 # k5 # k6 # k7 # ks) = rounds (rounds8 s k0 k1 k2 k3 k4 k5 k6 k7) ks"
| "rounds s _ = s"

text \<open>The last argument of the \<^verbatim>\<open>Round\<close> calls: a constant added to the current schedule word.\<close>

definition first_keys :: "u32 list \<Rightarrow> u32 list" where
  "first_keys w =
    [0x428a2f98 + w ! 0, 0x71374491 + w ! 1, 0xb5c0fbcf + w ! 2, 0xe9b5dba5 + w ! 3,
     0x3956c25b + w ! 4, 0x59f111f1 + w ! 5, 0x923f82a4 + w ! 6, 0xab1c5ed5 + w ! 7,
     0xd807aa98 + w ! 8, 0x12835b01 + w ! 9, 0x243185be + w ! 10, 0x550c7dc3 + w ! 11,
     0x72be5d74 + w ! 12, 0x80deb1fe + w ! 13, 0x9bdc06a7 + w ! 14, 0xc19bf174 + w ! 15]"

definition second_keys :: "u32 list \<Rightarrow> u32 list" where
  "second_keys w =
    [0xe49b69c1 + w ! 0, 0xefbe4786 + w ! 1, 0x0fc19dc6 + w ! 2, 0x240ca1cc + w ! 3,
     0x2de92c6f + w ! 4, 0x4a7484aa + w ! 5, 0x5cb0a9dc + w ! 6, 0x76f988da + w ! 7,
     0x983e5152 + w ! 8, 0xa831c66d + w ! 9, 0xb00327c8 + w ! 10, 0xbf597fc7 + w ! 11,
     0xc6e00bf3 + w ! 12, 0xd5a79147 + w ! 13, 0x06ca6351 + w ! 14, 0x14292967 + w ! 15]"

definition third_keys :: "u32 list \<Rightarrow> u32 list" where
  "third_keys w =
    [0x27b70a85 + w ! 0, 0x2e1b2138 + w ! 1, 0x4d2c6dfc + w ! 2, 0x53380d13 + w ! 3,
     0x650a7354 + w ! 4, 0x766a0abb + w ! 5, 0x81c2c92e + w ! 6, 0x92722c85 + w ! 7,
     0xa2bfe8a1 + w ! 8, 0xa81a664b + w ! 9, 0xc24b8b70 + w ! 10, 0xc76c51a3 + w ! 11,
     0xd192e819 + w ! 12, 0xd6990624 + w ! 13, 0xf40e3585 + w ! 14, 0x106aa070 + w ! 15]"

definition fourth_keys :: "u32 list \<Rightarrow> u32 list" where
  "fourth_keys w =
    [0x19a4c116 + w ! 0, 0x1e376c08 + w ! 1, 0x2748774c + w ! 2, 0x34b0bcb5 + w ! 3,
     0x391c0cb3 + w ! 4, 0x4ed8aa4a + w ! 5, 0x5b9cca4f + w ! 6, 0x682e6ff3 + w ! 7,
     0x748f82ee + w ! 8, 0x78a5636f + w ! 9, 0x84c87814 + w ! 10, 0x8cc70208 + w ! 11,
     0x90befffa + w ! 12, 0xa4506ceb + w ! 13, 0xbef9a3f7 + w ! 14, 0xc67178f2 + w ! 15]"

text \<open>Sixteen in-place updates of the schedule words \<^verbatim>\<open>w0\<close> to \<^verbatim>\<open>w15\<close>.\<close>

definition expand16 :: "u32 list \<Rightarrow> u32 list" where
  "expand16 w =
    (let w0 = w ! 0; w1 = w ! 1; w2 = w ! 2; w3 = w ! 3;
        w4 = w ! 4; w5 = w ! 5; w6 = w ! 6; w7 = w ! 7;
        w8 = w ! 8; w9 = w ! 9; w10 = w ! 10; w11 = w ! 11;
        w12 = w ! 12; w13 = w ! 13; w14 = w ! 14; w15 = w ! 15;
        w0 = w0 + (sigma1 w14 + w9 + sigma0 w1);
        w1 = w1 + (sigma1 w15 + w10 + sigma0 w2);
        w2 = w2 + (sigma1 w0 + w11 + sigma0 w3);
        w3 = w3 + (sigma1 w1 + w12 + sigma0 w4);
        w4 = w4 + (sigma1 w2 + w13 + sigma0 w5);
        w5 = w5 + (sigma1 w3 + w14 + sigma0 w6);
        w6 = w6 + (sigma1 w4 + w15 + sigma0 w7);
        w7 = w7 + (sigma1 w5 + w0 + sigma0 w8);
        w8 = w8 + (sigma1 w6 + w1 + sigma0 w9);
        w9 = w9 + (sigma1 w7 + w2 + sigma0 w10);
        w10 = w10 + (sigma1 w8 + w3 + sigma0 w11);
        w11 = w11 + (sigma1 w9 + w4 + sigma0 w12);
        w12 = w12 + (sigma1 w10 + w5 + sigma0 w13);
        w13 = w13 + (sigma1 w11 + w6 + sigma0 w14);
        w14 = w14 + (sigma1 w12 + w7 + sigma0 w15);
        w15 = w15 + (sigma1 w13 + w8 + sigma0 w0)
     in [w0, w1, w2, w3, w4, w5, w6, w7, w8, w9, w10, w11, w12, w13, w14, w15])"

definition round_keys :: "u32 list \<Rightarrow> u32 list" where
  "round_keys w = first_keys w @ second_keys (expand16 w) @ third_keys (expand16 (expand16 w))
     @ fourth_keys (expand16 (expand16 (expand16 w)))"

definition chunk_words :: "bytes \<Rightarrow> u32 list" where
  "chunk_words chunk = map (\<lambda>i. ReadBE32 (drop (4 * i) chunk)) [0..<16]"

fun add_state :: "sha_state \<Rightarrow> sha_state \<Rightarrow> sha_state" where
  "add_state (s0, s1, s2, s3, s4, s5, s6, s7) (a, b, c, d, e, f, g, h) =
    (s0 + a, s1 + b, s2 + c, s3 + d, s4 + e, s5 + f, s6 + g, s7 + h)"

text \<open>The body of the block loop of \<^verbatim>\<open>sha256::Transform\<close>, and the loop.\<close>

definition Transform1 :: "sha_state \<Rightarrow> bytes \<Rightarrow> sha_state" where
  "Transform1 s chunk =
    add_state s (rounds s (round_keys (chunk_words chunk)))"

fun Transform :: "sha_state \<Rightarrow> bytes \<Rightarrow> nat \<Rightarrow> sha_state" where
  "Transform s chunk 0 = s"
| "Transform s chunk (Suc blocks) = Transform (Transform1 s chunk) (drop 64 chunk) blocks"

fun state_bytes :: "sha_state \<Rightarrow> bytes" where
  "state_bytes (s0, s1, s2, s3, s4, s5, s6, s7) =
    WriteBE32 s0 @ WriteBE32 s1 @ WriteBE32 s2 @ WriteBE32 s3 @
    WriteBE32 s4 @ WriteBE32 s5 @ WriteBE32 s6 @ WriteBE32 s7"

section \<open>The double hash of one 64-byte blob\<close>

definition transform2_keys :: "u32 list" where
  "transform2_keys =
   [0xc28a2f98, 0x71374491, 0xb5c0fbcf, 0xe9b5dba5, 0x3956c25b, 0x59f111f1, 0x923f82a4, 0xab1c5ed5,
    0xd807aa98, 0x12835b01, 0x243185be, 0x550c7dc3, 0x72be5d74, 0x80deb1fe, 0x9bdc06a7, 0xc19bf374,
    0x649b69c1, 0xf0fe4786, 0x0fe1edc6, 0x240cf254, 0x4fe9346f, 0x6cc984be, 0x61b9411e, 0x16f988fa,
    0xf2c65152, 0xa88e5a6d, 0xb019fc65, 0xb9d99ec7, 0x9a1231c3, 0xe70eeaa0, 0xfdb1232b, 0xc7353eb0,
    0x3069bad5, 0xcb976d5f, 0x5a0f118f, 0xdc1eeefd, 0x0a35b689, 0xde0b7a04, 0x58f4ca9d, 0xe15d5b16,
    0x007f3e86, 0x37088980, 0xa507ea32, 0x6fab9537, 0x17406110, 0x0d8cd6f1, 0xcdaa3b6d, 0xc0bbbe37,
    0x83613bda, 0xdb48a363, 0x0b02e931, 0x6fd15ca7, 0x521afaca, 0x31338431, 0x6ed41a95, 0x6d437890,
    0xc39c91f2, 0x9eccabbd, 0xb5c9a0e6, 0x532fb63c, 0xd2c741c6, 0x07237ea3, 0xa4954b68, 0x4c191d76]"

fun state_words :: "sha_state \<Rightarrow> u32 list" where
  "state_words (s0, s1, s2, s3, s4, s5, s6, s7) = [s0, s1, s2, s3, s4, s5, s6, s7]"

text \<open>Rounds 16 to 31 of the third transform, specialised to the constant words \<^verbatim>\<open>w8\<close> to \<^verbatim>\<open>w15\<close>.\<close>

definition expand16_transform3 :: "u32 list \<Rightarrow> u32 list" where
  "expand16_transform3 w =
    (let w0 = w ! 0; w1 = w ! 1; w2 = w ! 2; w3 = w ! 3;
        w4 = w ! 4; w5 = w ! 5; w6 = w ! 6; w7 = w ! 7;
        w0 = w0 + (sigma0 w1);
        w1 = w1 + (0xa00000 + sigma0 w2);
        w2 = w2 + (sigma1 w0 + sigma0 w3);
        w3 = w3 + (sigma1 w1 + sigma0 w4);
        w4 = w4 + (sigma1 w2 + sigma0 w5);
        w5 = w5 + (sigma1 w3 + sigma0 w6);
        w6 = w6 + (sigma1 w4 + 0x100 + sigma0 w7);
        w7 = w7 + (sigma1 w5 + w0 + 0x11002000);
        w8 = 0x80000000 + sigma1 w6 + w1;
        w9 = sigma1 w7 + w2;
        w10 = sigma1 w8 + w3;
        w11 = sigma1 w9 + w4;
        w12 = sigma1 w10 + w5;
        w13 = sigma1 w11 + w6;
        w14 = sigma1 w12 + w7 + 0x400022;
        w15 = 0x100 + sigma1 w13 + w8 + sigma0 w0
     in [w0, w1, w2, w3, w4, w5, w6, w7, w8, w9, w10, w11, w12, w13, w14, w15])"

definition transform3_keys :: "u32 list \<Rightarrow> u32 list" where
  "transform3_keys w =
    [0x428a2f98 + w ! 0, 0x71374491 + w ! 1, 0xb5c0fbcf + w ! 2, 0xe9b5dba5 + w ! 3,
     0x3956c25b + w ! 4, 0x59f111f1 + w ! 5, 0x923f82a4 + w ! 6, 0xab1c5ed5 + w ! 7,
     0x5807aa98, 0x12835b01, 0x243185be, 0x550c7dc3, 0x72be5d74, 0x80deb1fe, 0x9bdc06a7, 0xc19bf274]
    @ second_keys (expand16_transform3 w) @ third_keys (expand16 (expand16_transform3 w))
    @ fourth_keys (expand16 (expand16 (expand16_transform3 w)))"

definition TransformD64 :: "bytes \<Rightarrow> bytes" where
  "TransformD64 inp =
    (let t = add_state (rounds Initialize (round_keys (chunk_words inp))) Initialize;
         w = add_state t (rounds t transform2_keys);
         s = rounds Initialize (transform3_keys (state_words w))
     in state_bytes (add_state s Initialize))"

definition padding1 :: bytes where
  "padding1 = 0x80 # replicate 61 0 @ [2, 0]"

definition TransformD64Wrapper :: "(sha_state \<Rightarrow> bytes \<Rightarrow> nat \<Rightarrow> sha_state) \<Rightarrow> bytes \<Rightarrow> bytes" where
  "TransformD64Wrapper tr inp =
    (let s = tr Initialize inp 1;
         s = tr s padding1 1;
         buffer2 = state_bytes s @ 0x80 # replicate 29 0 @ [1, 0]
     in state_bytes (tr Initialize buffer2 1))"

section \<open>The streaming class\<close>

record CSHA256 =
  sha_s :: sha_state
  sha_buf :: bytes
  sha_bytes :: u64

text \<open>The constructor leaves \<^verbatim>\<open>buf\<close> uninitialised; no byte of it is read before it is written.\<close>

definition CSHA256_init :: CSHA256 where
  "CSHA256_init = \<lparr>sha_s = Initialize, sha_buf = replicate 64 0, sha_bytes = 0\<rparr>"

definition Write :: "CSHA256 \<Rightarrow> bytes \<Rightarrow> CSHA256" where
  "Write st data =
    (let bufsize = unat (sha_bytes st mod 64);
         (st, data, bufsize) =
           (if bufsize \<noteq> 0 \<and> bufsize + length data \<ge> 64 then
              let buf = put_bytes (sha_buf st) bufsize (take (64 - bufsize) data)
              in (st\<lparr>sha_buf := buf,
                    sha_bytes := sha_bytes st + word_of_nat (64 - bufsize),
                    sha_s := Transform (sha_s st) buf 1\<rparr>,
                  drop (64 - bufsize) data, 0)
            else (st, data, bufsize));
         (st, data) =
           (if length data \<ge> 64 then
              let blocks = length data div 64
              in (st\<lparr>sha_s := Transform (sha_s st) data blocks,
                    sha_bytes := sha_bytes st + word_of_nat (64 * blocks)\<rparr>,
                  drop (64 * blocks) data)
            else (st, data))
     in if data \<noteq> [] then
          st\<lparr>sha_buf := put_bytes (sha_buf st) bufsize data,
             sha_bytes := sha_bytes st + word_of_nat (length data)\<rparr>
        else st)"

definition Finalize :: "CSHA256 \<Rightarrow> bytes" where
  "Finalize st =
    (let pad = 0x80 # replicate 63 0;
         sizedesc = WriteBE64 (push_bit 3 (sha_bytes st));
         st = Write st (take (1 + (119 - unat (sha_bytes st mod 64)) mod 64) pad);
         st = Write st sizedesc
     in state_bytes (sha_s st))"

section \<open>The dispatch to batched kernels and the pool's wrappers\<close>

record sha_backend =
  backend_D64 :: "bytes \<Rightarrow> bytes"
  backend_2way :: "(bytes \<Rightarrow> bytes) option"
  backend_4way :: "(bytes \<Rightarrow> bytes) option"
  backend_8way :: "(bytes \<Rightarrow> bytes) option"

definition standard_backend :: sha_backend where
  "standard_backend =
    \<lparr>backend_D64 = TransformD64, backend_2way = None, backend_4way = None, backend_8way = None\<rparr>"

text \<open>One of the four loops: while at least \<open>n\<close> blobs are left, hash \<open>n\<close> of them with \<open>k\<close>.\<close>

function batch_loop :: "nat \<Rightarrow> (bytes \<Rightarrow> bytes) \<Rightarrow> bytes \<Rightarrow> nat \<Rightarrow> bytes \<times> bytes \<times> nat" where
  "batch_loop n k inp blocks =
    (if n \<noteq> 0 \<and> n \<le> blocks then
       (case batch_loop n k (drop (64 * n) inp) (blocks - n) of
         (out, inp', blocks') \<Rightarrow> (k (take (64 * n) inp) @ out, inp', blocks'))
     else ([], inp, blocks))"
  by pat_completeness auto
termination by (relation "measure (\<lambda>(n, k, inp, blocks). blocks)") auto

definition opt_batch_loop :: "nat \<Rightarrow> (bytes \<Rightarrow> bytes) option \<Rightarrow> bytes \<Rightarrow> nat \<Rightarrow> bytes \<times> bytes \<times> nat" where
  "opt_batch_loop n ko inp blocks =
    (case ko of Some k \<Rightarrow> batch_loop n k inp blocks | None \<Rightarrow> ([], inp, blocks))"

definition SHA256D64 :: "sha_backend \<Rightarrow> bytes \<Rightarrow> nat \<Rightarrow> bytes" where
  "SHA256D64 be inp blocks =
    (let (out8, inp, blocks) = opt_batch_loop 8 (backend_8way be) inp blocks;
         (out4, inp, blocks) = opt_batch_loop 4 (backend_4way be) inp blocks;
         (out2, inp, blocks) = opt_batch_loop 2 (backend_2way be) inp blocks;
         (out1, inp, blocks) = batch_loop 1 (backend_D64 be) inp blocks
     in out8 @ out4 @ out2 @ out1)"

definition sha256 :: "bytes \<Rightarrow> bytes" where
  "sha256 data = Finalize (Write CSHA256_init data)"

definition sha256d :: "bytes \<Rightarrow> bytes" where
  "sha256d data = Finalize (Write CSHA256_init (Finalize (Write CSHA256_init data)))"


section \<open>The message schedule and rounds of FIPS 180-4\<close>

text \<open>The standard's definitions: the recurrence for the schedule words and a round that shifts all
  eight variables.\<close>

fun fips_W :: "u32 list \<Rightarrow> nat \<Rightarrow> u32" where
  "fips_W M t =
    (if t < 16 then M ! t
     else sigma1 (fips_W M (t - 2)) + fips_W M (t - 7) + sigma0 (fips_W M (t - 15)) + fips_W M (t - 16))"

declare fips_W.simps [simp del]

text \<open>The additive constants of the rounds, and the sixteen words of each pass.\<close>

definition round_constants :: "u32 list" where
  "round_constants = (let z = replicate 16 0 in first_keys z @ second_keys z @ third_keys z @ fourth_keys z)"

definition schedule :: "u32 list \<Rightarrow> u32 list" where
  "schedule w = w @ expand16 w @ expand16 (expand16 w) @ expand16 (expand16 (expand16 w))"

fun fips_round :: "u32 \<Rightarrow> sha_state \<Rightarrow> sha_state" where
  "fips_round k (a, b, c, d, e, f, g, h) =
    (let T1 = h + Sigma1 e + Ch e f g + k; T2 = Sigma0 a + Maj a b c
     in (T1 + T2, a, b, c, d + T1, e, f, g))"

definition fips_compress :: "sha_state \<Rightarrow> u32 list \<Rightarrow> sha_state" where
  "fips_compress s M =
    add_state s (fold (\<lambda>t. fips_round (round_constants ! t + fips_W M t)) [0..<64] s)"

lemma fips_round_Round:
  "fips_round k (a, b, c, d, e, f, g, h) =
    (case Round a b c d e f g h k of (d', h') \<Rightarrow> (h', a, b, c, d', e, f, g))"
  by (simp add: Round_def Let_def)

declare fips_round.simps [simp del]

lemma rounds8_fips:
  "rounds8 s k0 k1 k2 k3 k4 k5 k6 k7 = fold fips_round [k0, k1, k2, k3, k4, k5, k6, k7] s"
  by (cases "(k0, s)" rule: fips_round.cases) (simp add: fips_round_Round split: prod.split)

lemma rounds_fips: "8 dvd length ks \<Longrightarrow> rounds s ks = fold fips_round ks s"
proof (induction s ks rule: rounds.induct)
  case (1 s k0 k1 k2 k3 k4 k5 k6 k7 ks)
  from "1.prems" have "8 dvd length ks" by (simp only: list.size) presburger
  with "1.IH" show ?case by (simp only: rounds.simps rounds8_fips) simp
qed (auto dest: dvd_imp_le)

lemma fips_W_step:
  "fips_W M n + (sigma1 (fips_W M (n + 14)) + fips_W M (n + 9) + sigma0 (fips_W M (n + 1)))
    = fips_W M (n + 16)"
  by (subst (5) fips_W.simps) (simp add: algebra_simps)

lemma upt_16: "[0..<16] = [0, 1, 2, 3, 4, 5, 6, 7, 8, 9, 10, 11, 12, 13, 14, 15]"
  by (simp add: upt_rec)

lemma expand16_fips:
  "expand16 (map (\<lambda>i. fips_W M (n + i)) [0..<16]) = map (\<lambda>i. fips_W M (n + 16 + i)) [0..<16]"
proof -
  define F where "F j = fips_W M (n + j)" for j
  have step: "F j + (sigma1 (F a) + F b + sigma0 (F c)) = F (j + 16)"
    if "a = j + 14" "b = j + 9" "c = j + 1" for a b c j
    using fips_W_step [of M "n + j"] that by (simp add: F_def add.assoc)
  have "expand16 (map F [0..<16]) = map (\<lambda>i. F (16 + i)) [0..<16]"
    unfolding upt_16 expand16_def by (simp add: Let_def step)
  then show ?thesis unfolding F_def by (simp add: add.assoc)
qed

lemma length_expand16 [simp]: "length (expand16 w) = 16"
  by (simp add: expand16_def Let_def)

lemma map_upt_shift: "map (\<lambda>i. f (n + i)) [0..<m] = map f [n..<n + m]"
  by (rule nth_equalityI) simp_all

lemma schedule_fips:
  assumes "length M = 16"
  shows "schedule M = map (fips_W M) [0..<64]"
proof -
  have "M = map (\<lambda>i. fips_W M (0 + i)) [0..<16]"
    using assms by (intro nth_equalityI) (simp_all add: fips_W.simps)
  with expand16_fips [of M 0] expand16_fips [of M 16] expand16_fips [of M 32]
  have "schedule M = map (\<lambda>i. fips_W M i) [0..<16] @ map (\<lambda>i. fips_W M (16 + i)) [0..<16]
      @ map (\<lambda>i. fips_W M (32 + i)) [0..<16] @ map (\<lambda>i. fips_W M (48 + i)) [0..<16]"
    unfolding schedule_def by simp
  also have "\<dots> = map (fips_W M) ([0..<16] @ [16..<32] @ [32..<48] @ [48..<64])"
    using map_upt_shift [of "fips_W M" 16 16] map_upt_shift [of "fips_W M" 32 16]
      map_upt_shift [of "fips_W M" 48 16] by simp
  also have "[0..<16] @ [16..<32] @ [32..<48] @ [48..<64] = [0..<64]"
    using upt_add_eq_append [of 0 48 16] upt_add_eq_append [of 0 32 16]
      upt_add_eq_append [of 0 16 16] by simp
  finally show ?thesis .
qed

lemma length_keys [simp]:
  "length (first_keys w) = 16" "length (second_keys w) = 16" "length (third_keys w) = 16"
  "length (fourth_keys w) = 16"
  by (simp_all add: first_keys_def second_keys_def third_keys_def fourth_keys_def)

lemma length_round_constants [simp]: "length round_constants = 64"
  by (simp add: round_constants_def Let_def)

lemma zeros_16: "replicate 16 (0 :: u32) = [0, 0, 0, 0, 0, 0, 0, 0, 0, 0, 0, 0, 0, 0, 0, 0]"
  by (simp add: numeral_eq_Suc)

lemma keys_zero:
  assumes "length w = 16"
  shows "first_keys w = map2 (+) (first_keys (replicate 16 0)) w"
    "second_keys w = map2 (+) (second_keys (replicate 16 0)) w"
    "third_keys w = map2 (+) (third_keys (replicate 16 0)) w"
    "fourth_keys w = map2 (+) (fourth_keys (replicate 16 0)) w"
proof -
  obtain a0 a1 a2 a3 a4 a5 a6 a7 a8 a9 a10 a11 a12 a13 a14 a15
    where w: "w = [a0, a1, a2, a3, a4, a5, a6, a7, a8, a9, a10, a11, a12, a13, a14, a15]"
    using assms by (auto simp: numeral_eq_Suc length_Suc_conv)
  show "first_keys w = map2 (+) (first_keys (replicate 16 0)) w"
    "second_keys w = map2 (+) (second_keys (replicate 16 0)) w"
    "third_keys w = map2 (+) (third_keys (replicate 16 0)) w"
    "fourth_keys w = map2 (+) (fourth_keys (replicate 16 0)) w"
    by (simp_all add: w zeros_16 first_keys_def second_keys_def third_keys_def fourth_keys_def)
qed

lemma round_keys_schedule:
  assumes "length w = 16"
  shows "round_keys w = map2 (+) round_constants (schedule w)"
  unfolding round_keys_def round_constants_def schedule_def Let_def
  by (simp add: keys_zero [of w] keys_zero [of "expand16 w"] keys_zero [of "expand16 (expand16 w)"]
      keys_zero [of "expand16 (expand16 (expand16 w))"] assms)

lemma length_chunk_words [simp]: "length (chunk_words chunk) = 16"
  by (simp add: chunk_words_def)

lemma length_schedule [simp]: "length M = 16 \<Longrightarrow> length (schedule M) = 64"
  by (simp add: schedule_def)

lemma Transform1_fips: "Transform1 s chunk = fips_compress s (chunk_words chunk)"
proof -
  let ?M = "chunk_words chunk"
  have keys: "map2 (+) round_constants (schedule ?M)
      = map (\<lambda>t. round_constants ! t + fips_W ?M t) [0..<64]"
    by (rule nth_equalityI) (simp_all add: schedule_fips)
  show ?thesis
    unfolding Transform1_def fips_compress_def round_keys_schedule [OF length_chunk_words] keys
    by (subst rounds_fips) (simp_all add: fold_map comp_def)
qed


section \<open>The optimised double hash\<close>

text \<open>Evaluation on literals: word numerals are reduced to 32 bits as they arise.\<close>

lemma u32_of_nat_mod: "word_of_nat (n mod 4294967296) = (word_of_nat n :: u32)"
  by (simp add: word_of_nat_eq_iff take_bit_eq_mod)

lemma u32_numeral_reduce:
  "4294967296 \<le> (numeral k :: nat) \<Longrightarrow> (numeral k :: u32) = word_of_nat (numeral k mod 4294967296)"
  by (simp only: u32_of_nat_mod of_nat_numeral)

lemmas sigma_eval = sigma0_def sigma1_def u32_numeral_reduce

lemma expand16_padding:
  "expand16 [0x80000000, 0x0, 0x0, 0x0, 0x0, 0x0, 0x0, 0x0,
    0x0, 0x0, 0x0, 0x0, 0x0, 0x0, 0x0, 0x200] =
   [0x80000000, 0x1400000, 0x205000, 0x5088, 0x22000800, 0x22550014, 0x5089742, 0xa0000020,
    0x5a880000, 0x5c9400, 0x16d49d, 0xfa801f00, 0xd33225d0, 0x11675959, 0xf6e6bfda, 0xb30c1549]"
  "expand16 [0x80000000, 0x1400000, 0x205000, 0x5088, 0x22000800, 0x22550014, 0x5089742, 0xa0000020,
    0x5a880000, 0x5c9400, 0x16d49d, 0xfa801f00, 0xd33225d0, 0x11675959, 0xf6e6bfda, 0xb30c1549] =
   [0x8b2b050, 0x9d7c4c27, 0xce2a393, 0x88e6e1ea, 0xa52b4335, 0x67a16f49, 0xd732016f, 0x4eeb2e91,
    0x5dbf55e5, 0x8eee2335, 0xe2bc5ec2, 0xa83f4394, 0x45ad78f7, 0x36f3d0cd, 0xd99c05e8, 0xb0511dc7]"
  "expand16 [0x8b2b050, 0x9d7c4c27, 0xce2a393, 0x88e6e1ea, 0xa52b4335, 0x67a16f49, 0xd732016f, 0x4eeb2e91,
    0x5dbf55e5, 0x8eee2335, 0xe2bc5ec2, 0xa83f4394, 0x45ad78f7, 0x36f3d0cd, 0xd99c05e8, 0xb0511dc7] =
   [0x69bc7ac4, 0xbd11375b, 0xe3ba71e5, 0x3b209ff2, 0x18feee17, 0xe25ad9e7, 0x13375046, 0x515089d,
    0x4f0d0f04, 0x2627484e, 0x310128d2, 0xc668b434, 0x420841cc, 0x62d311b8, 0xe59ba771, 0x85a7a484]"
  unfolding expand16_def by (simp_all add: sigma_eval cong: let_weak_cong)

lemma drop_concat_const:
  "(\<forall>x \<in> set xs. length x = n) \<Longrightarrow> drop (n * i) (concat xs) = concat (drop i xs)"
proof (induction xs arbitrary: i)
  case (Cons x xs)
  then show ?case by (cases i) auto
qed simp

lemma chunk_words_concat:
  assumes "length ws = 16"
  shows "chunk_words (concat (map WriteBE32 ws)) = ws"
proof (rule nth_equalityI)
  fix i assume "i < length (chunk_words (concat (map WriteBE32 ws)))"
  then have i: "i < 16" by simp
  have "drop (4 * i) (concat (map WriteBE32 ws)) = concat (map WriteBE32 (drop i ws))"
    by (subst drop_concat_const) (auto simp: WriteBE32_def drop_map)
  also have "drop i ws = ws ! i # drop (Suc i) ws"
    using i assms by (simp add: Cons_nth_drop_Suc)
  finally show "chunk_words (concat (map WriteBE32 ws)) ! i = ws ! i"
    using i by (simp add: chunk_words_def ReadBE32_def) (simp add: WriteBE32_def)
qed (simp add: assms)

lemma WriteBE32_literals:
  "WriteBE32 0 = [0, 0, 0, 0]" "WriteBE32 0x80000000 = [0x80, 0, 0, 0]"
  "WriteBE32 0x200 = [0, 0, 2, 0]" "WriteBE32 0x100 = [0, 0, 1, 0]"
  by (simp_all add: WriteBE32_def write_be32_def upt_small)

lemma chunk_words_padding1:
  "chunk_words padding1 = [0x80000000, 0, 0, 0, 0, 0, 0, 0, 0, 0, 0, 0, 0, 0, 0, 0x200]"
proof -
  have eq: "padding1 = concat (map WriteBE32 [0x80000000, 0, 0, 0, 0, 0, 0, 0, 0, 0, 0, 0, 0, 0, 0, 0x200])"
    by (simp add: padding1_def WriteBE32_literals numeral_eq_Suc)
  show ?thesis unfolding eq by (rule chunk_words_concat) simp
qed

lemma transform2_keys_schedule: "transform2_keys = round_keys (chunk_words padding1)"
  unfolding chunk_words_padding1 round_keys_def expand16_padding
  by (simp add: transform2_keys_def first_keys_def second_keys_def third_keys_def fourth_keys_def)


text \<open>The block of the second hash: the first digest, then the constant words \<^verbatim>\<open>w8\<close> to \<^verbatim>\<open>w15\<close>.\<close>

definition transform3_tail :: "u32 list" where
  "transform3_tail = [0x80000000, 0, 0, 0, 0, 0, 0, 0x100]"

lemma sigma_constants:
  "sigma0 0 = 0" "sigma1 0 = 0" "sigma0 0x80000000 = 0x11002000"
  "sigma0 0x100 = 0x400022" "sigma1 0x100 = 0xa00000"
  by (simp_all add: sigma_eval)

lemma expand16_transform3_eq:
  assumes "length w = 8"
  shows "expand16 (w @ transform3_tail) = expand16_transform3 w"
proof -
  obtain a0 a1 a2 a3 a4 a5 a6 a7 where w: "w = [a0, a1, a2, a3, a4, a5, a6, a7]"
    using assms by (auto simp: numeral_eq_Suc length_Suc_conv)
  define b0 where "b0 = a0 + sigma0 a1"
  define b1 where "b1 = a1 + (0xa00000 + sigma0 a2)"
  define b2 where "b2 = a2 + (sigma1 b0 + sigma0 a3)"
  define b3 where "b3 = a3 + (sigma1 b1 + sigma0 a4)"
  define b4 where "b4 = a4 + (sigma1 b2 + sigma0 a5)"
  define b5 where "b5 = a5 + (sigma1 b3 + sigma0 a6)"
  define b6 where "b6 = a6 + (sigma1 b4 + (0x100 + sigma0 a7))"
  define b7 where "b7 = a7 + (sigma1 b5 + (b0 + 0x11002000))"
  define b8 where "b8 = 0x80000000 + (sigma1 b6 + b1)"
  define b9 where "b9 = sigma1 b7 + b2"
  define b10 where "b10 = sigma1 b8 + b3"
  define b11 where "b11 = sigma1 b9 + b4"
  define b12 where "b12 = sigma1 b10 + b5"
  define b13 where "b13 = sigma1 b11 + b6"
  define b14 where "b14 = sigma1 b12 + (b7 + 0x400022)"
  define b15 where "b15 = 0x100 + (sigma1 b13 + (b8 + sigma0 b0))"
  note folds = b0_def [symmetric] b1_def [symmetric] b2_def [symmetric] b3_def [symmetric] b4_def [symmetric] b5_def [symmetric] b6_def [symmetric] b7_def [symmetric] b8_def [symmetric] b9_def [symmetric] b10_def [symmetric] b11_def [symmetric] b12_def [symmetric] b13_def [symmetric] b14_def [symmetric] b15_def [symmetric]
  show ?thesis
    unfolding w expand16_def expand16_transform3_def transform3_tail_def
    by (simp add: sigma_constants folds add.assoc Let_def cong: let_weak_cong)
qed

lemma transform3_keys_schedule:
  assumes "length w = 8"
  shows "transform3_keys w = round_keys (w @ transform3_tail)"
proof -
  obtain a0 a1 a2 a3 a4 a5 a6 a7 where w: "w = [a0, a1, a2, a3, a4, a5, a6, a7]"
    using assms by (auto simp: numeral_eq_Suc length_Suc_conv)
  have "first_keys (w @ transform3_tail) = take 16 (transform3_keys w)"
    by (simp add: first_keys_def transform3_keys_def transform3_tail_def w)
  then show ?thesis
    using assms by (simp add: round_keys_def expand16_transform3_eq) (simp add: transform3_keys_def)
qed

lemma add_state_commute: "add_state s t = add_state t s"
  by (cases "(s, t)" rule: add_state.cases) (simp add: add.commute)

lemma chunk_words_buffer2:
  "chunk_words (state_bytes s @ 0x80 # replicate 29 0 @ [1, 0]) = state_words s @ transform3_tail"
proof (cases s rule: state_words.cases)
  case (1 s0 s1 s2 s3 s4 s5 s6 s7)
  have "state_bytes s @ 0x80 # replicate 29 0 @ [1, 0]
      = concat (map WriteBE32 (state_words s @ transform3_tail))"
    by (simp add: 1 transform3_tail_def WriteBE32_literals numeral_eq_Suc)
  moreover have "length (state_words s @ transform3_tail) = 16"
    by (simp add: 1 transform3_tail_def)
  ultimately show ?thesis
    by (simp only: chunk_words_concat)
qed

lemma TransformD64_wrapper: "TransformD64 inp = TransformD64Wrapper Transform inp"
proof -
  have "length (state_words w) = 8" for w
    by (cases w rule: state_words.cases) simp
  then show ?thesis
    by (simp add: TransformD64_def TransformD64Wrapper_def Let_def Transform1_def chunk_words_buffer2
        transform3_keys_schedule transform2_keys_schedule add_state_commute [of _ Initialize])
qed

section \<open>Streaming\<close>

lemma chunk_words_append: "64 \<le> length c \<Longrightarrow> chunk_words (c @ x) = chunk_words c"
  by (auto simp: chunk_words_def ReadBE32_def read_be32_def nth_append)

lemma Transform1_append: "64 \<le> length c \<Longrightarrow> Transform1 s (c @ x) = Transform1 s c"
  by (simp add: Transform1_def chunk_words_append)

lemma Transform_append: "64 * n \<le> length c \<Longrightarrow> Transform s (c @ x) n = Transform s c n"
proof (induction n arbitrary: s c)
  case (Suc n)
  then show ?case by (simp add: Transform1_append)
qed simp

lemma Transform_add: "Transform s c (m + n) = Transform (Transform s c m) (drop (64 * m) c) n"
  by (induction m arbitrary: s c) (simp_all add: add.commute)

text \<open>The state of a hasher that has been fed the bytes \<open>m\<close>.\<close>

definition sha_fed :: "CSHA256 \<Rightarrow> bytes \<Rightarrow> bool" where
  "sha_fed st m \<longleftrightarrow>
    sha_bytes st = word_of_nat (length m)
    \<and> sha_s st = Transform Initialize m (length m div 64)
    \<and> length (sha_buf st) = 64
    \<and> take (length m mod 64) (sha_buf st) = drop (64 * (length m div 64)) m"

lemma unat_mod_64: "unat ((word_of_nat n :: u64) mod 64) = n mod 64"
  by (simp add: unat_mod_distrib unat_of_nat mod_mod_cancel)

lemma sha_fed_bytes: "sha_fed st m \<Longrightarrow> unat (sha_bytes st mod 64) = length m mod 64"
  by (simp add: sha_fed_def unat_mod_64)

lemma sha_fed_tail:
  assumes "sha_fed st m" "length m mod 64 + length d < 64"
  shows "sha_fed (st\<lparr>sha_buf := put_bytes (sha_buf st) (length m mod 64) d,
    sha_bytes := sha_bytes st + word_of_nat (length d)\<rparr>) (m @ d)"
proof -
  let ?q = "length m div 64" and ?r = "length m mod 64"
  have len: "length m + length d = 64 * ?q + (?r + length d)" by simp
  have "(length m + length d) div 64 = ?q" "(length m + length d) mod 64 = ?r + length d"
    using assms(2) by (metis len div_mult_self4 div_less add_0_right zero_neq_numeral)
      (metis len mod_mult_self4 mod_less assms(2))
  moreover have "take ?r (sha_buf st) = drop (64 * ?q) m" "length (sha_buf st) = 64"
    using assms(1) by (simp_all add: sha_fed_def)
  ultimately show ?thesis
    using assms by (simp add: sha_fed_def put_bytes_def Transform_append minus_mult_div_eq_mod)
qed

lemma sha_fed_blocks:
  assumes "sha_fed st m" "length m mod 64 = 0" "length d = 64 * n"
  shows "sha_fed (st\<lparr>sha_s := Transform (sha_s st) (d @ x) n,
    sha_bytes := sha_bytes st + word_of_nat (64 * n)\<rparr>) (m @ d)"
proof -
  have m: "length m = 64 * (length m div 64)" using assms(2) by presburger
  have "(length m + 64 * n) div 64 = length m div 64 + n" by simp
  moreover have "Transform Initialize (m @ d) (length m div 64 + n)
      = Transform (Transform Initialize m (length m div 64)) d n"
    using m by (simp add: Transform_add Transform_append)
  ultimately show ?thesis
    using assms m by (simp add: sha_fed_def Transform_append add.commute)
qed

lemma sha_fed_fill:
  assumes "sha_fed st m" "length m mod 64 + length d = 64" "length m mod 64 \<noteq> 0"
  shows "sha_fed (st\<lparr>sha_buf := put_bytes (sha_buf st) (length m mod 64) d,
    sha_bytes := sha_bytes st + word_of_nat (length d),
    sha_s := Transform (sha_s st) (put_bytes (sha_buf st) (length m mod 64) d) 1\<rparr>) (m @ d)"
proof -
  let ?q = "length m div 64" and ?r = "length m mod 64"
  have len: "length m + length d = 64 * (?q + 1)" using assms(2) by presburger
  have buf: "put_bytes (sha_buf st) ?r d = drop (64 * ?q) m @ d"
    using assms by (simp add: sha_fed_def put_bytes_def)
  have "Transform Initialize (m @ d) (?q + 1)
      = Transform (Transform Initialize m ?q) (drop (64 * ?q) m @ d) 1"
    unfolding Transform_add by (simp add: Transform_append)
  moreover have "64 + 64 * ?q - length m = length d"
    using len by simp
  ultimately show ?thesis
    using assms unfolding sha_fed_def buf length_append len
    by (simp add: len minus_mult_div_eq_mod flip: of_nat_add del: Transform.simps of_nat_Suc of_nat_mult)
qed

text \<open>The second and third step of \<^verbatim>\<open>Write\<close>: whole blocks, then the rest into the buffer.\<close>

definition Write_rest :: "CSHA256 \<Rightarrow> bytes \<Rightarrow> nat \<Rightarrow> CSHA256" where
  "Write_rest st data bufsize =
    (let (st, data) =
        (if length data \<ge> 64 then
           let blocks = length data div 64
           in (st\<lparr>sha_s := Transform (sha_s st) data blocks,
                 sha_bytes := sha_bytes st + word_of_nat (64 * blocks)\<rparr>, drop (64 * blocks) data)
         else (st, data))
      in if data \<noteq> [] then
           st\<lparr>sha_buf := put_bytes (sha_buf st) bufsize data,
              sha_bytes := sha_bytes st + word_of_nat (length data)\<rparr>
         else st)"

lemma Write_rest_fed:
  assumes fed: "sha_fed st m" and small: "length m mod 64 = 0 \<or> length m mod 64 + length data < 64"
  shows "sha_fed (Write_rest st data (length m mod 64)) (m @ data)"
proof (cases "length data \<ge> 64")
  case False
  with small have "length m mod 64 + length data < 64" by linarith
  with sha_fed_tail [OF fed this] False fed show ?thesis
    by (cases "data = []") (simp_all add: Write_rest_def)
next
  case True
  with small have m: "length m mod 64 = 0" by linarith
  define n where "n = length data div 64"
  let ?d = "take (64 * n) data" and ?x = "drop (64 * n) data"
  let ?st = "st\<lparr>sha_s := Transform (sha_s st) data n, sha_bytes := sha_bytes st + word_of_nat (64 * n)\<rparr>"
  have len: "length ?d = 64 * n" "length ?x < 64"
    by (simp_all add: n_def minus_mult_div_eq_mod)
  have fed': "sha_fed ?st (m @ ?d)"
    using sha_fed_blocks [OF fed m len(1), of ?x] by simp
  have r: "length (m @ ?d) mod 64 = 0"
    using m len(1) by simp
  have "sha_fed (if ?x \<noteq> [] then ?st\<lparr>sha_buf := put_bytes (sha_buf ?st) 0 ?x,
      sha_bytes := sha_bytes ?st + word_of_nat (length ?x)\<rparr> else ?st) ((m @ ?d) @ ?x)"
    using sha_fed_tail [OF fed', of ?x] fed' len r by auto
  moreover have "Write_rest st data 0 = (if ?x \<noteq> [] then ?st\<lparr>sha_buf := put_bytes (sha_buf ?st) 0 ?x,
      sha_bytes := sha_bytes ?st + word_of_nat (length ?x)\<rparr> else ?st)"
    by (simp only: Write_rest_def n_def [symmetric] Let_def True if_True prod.case)
  ultimately show ?thesis
    by (simp only: m append.assoc append_take_drop_id)
qed

lemma Write_cases:
  "Write st data =
    (let bufsize = unat (sha_bytes st mod 64)
     in if bufsize \<noteq> 0 \<and> bufsize + length data \<ge> 64 then
          let buf = put_bytes (sha_buf st) bufsize (take (64 - bufsize) data)
          in Write_rest (st\<lparr>sha_buf := buf, sha_bytes := sha_bytes st + word_of_nat (64 - bufsize),
               sha_s := Transform (sha_s st) buf 1\<rparr>) (drop (64 - bufsize) data) 0
        else Write_rest st data bufsize)"
  by (simp only: Write_def Write_rest_def Let_def split: if_split) simp

lemma Write_fed:
  assumes fed: "sha_fed st m"
  shows "sha_fed (Write st d) (m @ d)"
proof -
  let ?r = "length m mod 64"
  show ?thesis
  proof (cases "?r \<noteq> 0 \<and> ?r + length d \<ge> 64")
    case False
    then show ?thesis
      using Write_rest_fed [OF fed] unfolding Write_cases sha_fed_bytes [OF fed] Let_def by auto
  next
    case True
    let ?h = "take (64 - ?r) d" and ?t = "drop (64 - ?r) d"
    from True have "64 - ?r \<le> length d" by linarith
    then have len: "length ?h = 64 - ?r" by simp
    have full: "?r + length ?h = 64" using True len by (simp add: less_imp_le)
    have "length (m @ ?h) mod 64 = 0" using full unfolding length_append by presburger
    with Write_rest_fed [OF sha_fed_fill [OF fed full], of ?t] True show ?thesis
      unfolding Write_cases sha_fed_bytes [OF fed] Let_def len by simp
  qed
qed

section \<open>The digest\<close>

text \<open>FIPS 180-4 padding (a one bit, the least number of zero bits that leaves room for the 64-bit
  length in the last block) and the hash of the padded blocks.\<close>

definition fips_pad :: "bytes \<Rightarrow> bytes" where
  "fips_pad m = m @ 0x80 # replicate (nat ((55 - int (length m)) mod 64)) 0
     @ WriteBE64 (word_of_nat (8 * length m))"

fun fips_blocks :: "sha_state \<Rightarrow> bytes \<Rightarrow> nat \<Rightarrow> sha_state" where
  "fips_blocks s p 0 = s"
| "fips_blocks s p (Suc n) = fips_blocks (fips_compress s (chunk_words (take 64 p))) (drop 64 p) n"

definition fips_sha256 :: "bytes \<Rightarrow> bytes" where
  "fips_sha256 m = state_bytes (fips_blocks Initialize (fips_pad m) (length (fips_pad m) div 64))"

lemma pad_zeros: "nat ((55 - int n) mod 64) = (119 - n mod 64) mod 64"
proof -
  have "int ((119 - n mod 64) mod 64) = (119 - int (n mod 64)) mod 64"
    by (simp add: of_nat_mod of_nat_diff)
  also have "\<dots> = (119 - int n) mod 64"
    by (simp add: of_nat_mod mod_diff_right_eq)
  also have "\<dots> = (55 - int n + 64) mod 64" by (simp add: algebra_simps)
  also have "\<dots> = (55 - int n) mod 64" by (rule mod_add_self2)
  finally show ?thesis by simp
qed

lemma length_fips_pad: "64 dvd length (fips_pad m)"
proof -
  let ?n = "int (length m)"
  have "int (length (fips_pad m)) = (?n + 9) + (55 - ?n) mod 64"
    by (simp add: fips_pad_def WriteBE64_def)
  also have "\<dots> mod 64 = ((?n + 9) + (55 - ?n)) mod 64"
    by (rule mod_add_right_eq)
  finally have "int (length (fips_pad m)) mod 64 = 0"
    by simp
  then show ?thesis by presburger
qed

lemma Transform_fips_blocks:
  "64 * n \<le> length p \<Longrightarrow> Transform s p n = fips_blocks s p n"
proof (induction n arbitrary: s p)
  case (Suc n)
  then have "Transform1 s (take 64 p @ drop 64 p) = Transform1 s (take 64 p)"
    by (intro Transform1_append) simp
  with Suc show ?case by (simp add: Transform1_fips)
qed simp

lemma CSHA256_init_fed: "sha_fed CSHA256_init []"
  by (simp add: sha_fed_def CSHA256_init_def)

lemma Finalize_fed:
  assumes "sha_fed st m"
  shows "Finalize st = fips_sha256 m"
proof -
  let ?k = "(119 - length m mod 64) mod 64"
  have pad: "take (1 + ?k) (0x80 # replicate 63 0) = 0x80 # replicate ?k (0 :: u8)"
    by (simp add: min_def)
  have size: "push_bit 3 (sha_bytes st) = word_of_nat (8 * length m)"
    using assms by (simp add: sha_fed_def push_bit_eq_mult)
  have "sha_fed (Write (Write st (0x80 # replicate ?k 0)) (WriteBE64 (word_of_nat (8 * length m))))
      ((m @ 0x80 # replicate ?k 0) @ WriteBE64 (word_of_nat (8 * length m)))"
    using assms by (intro Write_fed)
  moreover have "(m @ 0x80 # replicate ?k 0) @ WriteBE64 (word_of_nat (8 * length m)) = fips_pad m"
    by (simp add: fips_pad_def pad_zeros)
  ultimately have "sha_fed (Write (Write st (0x80 # replicate ?k 0)) (WriteBE64 (word_of_nat (8 * length m))))
      (fips_pad m)"
    by (simp only:)
  then have "sha_s (Write (Write st (0x80 # replicate ?k 0)) (WriteBE64 (word_of_nat (8 * length m))))
      = fips_blocks Initialize (fips_pad m) (length (fips_pad m) div 64)"
    by (simp add: sha_fed_def Transform_fips_blocks)
  then show ?thesis
    unfolding Finalize_def Let_def sha_fed_bytes [OF assms] pad size fips_sha256_def by (rule arg_cong)
qed

lemma length_state_bytes [simp]: "length (state_bytes s) = 32"
  by (cases s rule: state_bytes.cases) (simp add: WriteBE32_def)

lemma sha256_fips: "sha256 data = fips_sha256 data"
  unfolding sha256_def using Finalize_fed [OF Write_fed [OF CSHA256_init_fed]] by simp

lemma sha256d_fips: "sha256d data = fips_sha256 (fips_sha256 data)"
  using sha256_fips [of data] sha256_fips [of "sha256 data"] by (simp add: sha256d_def sha256_def)

lemma length_sha256 [simp]: "length (sha256 data) = 32"
  by (simp add: sha256_def Finalize_def Let_def)

lemma length_sha256d [simp]: "length (sha256d data) = 32"
  by (simp add: sha256d_def Finalize_def Let_def)

lemma WriteBE64_literals:
  "WriteBE64 512 = [0, 0, 0, 0, 0, 0, 2, 0]" "WriteBE64 256 = [0, 0, 0, 0, 0, 0, 1, 0]"
  by (simp_all add: WriteBE64_def write_be64_def upt_small)

lemma replicate_split: "replicate (n + 6) x @ ys = replicate n x @ x # x # x # x # x # x # ys"
  by (simp add: replicate_add numeral_eq_Suc replicate_app_Cons_same)

lemma fips_pad_64: "length m = 64 \<Longrightarrow> fips_pad m = m @ padding1"
  using replicate_split [of 55 "0 :: u8" "[2, 0]"]
  by (simp add: fips_pad_def padding1_def WriteBE64_literals)

lemma fips_pad_32: "length m = 32 \<Longrightarrow> fips_pad m = m @ 0x80 # replicate 29 0 @ [1, 0]"
  using replicate_split [of 23 "0 :: u8" "[1, 0]"]
  by (simp add: fips_pad_def WriteBE64_literals)

lemma TransformD64_fips:
  assumes "length inp = 64"
  shows "TransformD64 inp = sha256d inp"
proof -
  let ?s = "Transform (Transform Initialize inp 1) padding1 1"
  have len: "length padding1 = 64" by (simp add: padding1_def)
  have "fips_sha256 inp = state_bytes ?s"
    using assms len by (simp add: fips_sha256_def fips_pad_64 Transform1_fips numeral_2_eq_2)
  moreover have "fips_sha256 (state_bytes ?s)
      = state_bytes (Transform Initialize (state_bytes ?s @ 0x80 # replicate 29 0 @ [1, 0]) 1)"
    by (simp add: fips_sha256_def fips_pad_32 Transform1_fips)
  ultimately show ?thesis
    unfolding TransformD64_wrapper TransformD64Wrapper_def sha256d_fips Let_def by simp
qed

section \<open>Batched kernels\<close>

declare batch_loop.simps [simp del]

text \<open>The double hashes of the first \<open>n\<close> blobs of a contiguous buffer.\<close>

definition d64_all :: "bytes \<Rightarrow> nat \<Rightarrow> bytes" where
  "d64_all inp n = concat (map (\<lambda>i. sha256d (take 64 (drop (64 * i) inp))) [0..<n])"

definition kernel_ok :: "nat \<Rightarrow> (bytes \<Rightarrow> bytes) \<Rightarrow> bool" where
  "kernel_ok n k \<longleftrightarrow> (\<forall>inp. length inp = 64 * n \<longrightarrow> k inp = d64_all inp n)"

lemma d64_all_0 [simp]: "d64_all inp 0 = []"
  by (simp add: d64_all_def)

lemma d64_all_add: "d64_all inp (m + n) = d64_all inp m @ d64_all (drop (64 * m) inp) n"
proof -
  have "map f [0..<m + n] = map f [0..<m] @ map (\<lambda>i. f (m + i)) [0..<n]" for f :: "nat \<Rightarrow> bytes"
    using upt_add_eq_append [of 0 m n] by (simp add: map_upt_shift)
  then show ?thesis
    by (simp add: d64_all_def add.commute algebra_simps)
qed

lemma d64_all_take: "d64_all (take (64 * n) inp) n = d64_all inp n"
  unfolding d64_all_def
  by (intro arg_cong [where f = concat] map_cong refl)
    (auto simp: drop_take min_def intro!: arg_cong [where f = sha256d])

lemma batch_loop_ok:
  assumes "kernel_ok n k" "n \<noteq> 0" "64 * blocks \<le> length inp"
  shows "\<exists>m \<le> blocks. batch_loop n k inp blocks = (d64_all inp m, drop (64 * m) inp, blocks - m)
    \<and> blocks - m < n"
  using assms
proof (induction n k inp blocks rule: batch_loop.induct)
  case (1 n k inp blocks)
  show ?case
  proof (cases "n \<le> blocks")
    case False
    then show ?thesis by (intro exI [of _ 0]) (simp add: batch_loop.simps)
  next
    case True
    then have "64 * (blocks - n) \<le> length (drop (64 * n) inp)"
      using "1.prems" by simp
    then obtain m where m: "m \<le> blocks - n" "blocks - n - m < n"
      "batch_loop n k (drop (64 * n) inp) (blocks - n)
        = (d64_all (drop (64 * n) inp) m, drop (64 * m) (drop (64 * n) inp), blocks - n - m)"
      using "1.IH" True "1.prems" by blast
    have "k (take (64 * n) inp) = d64_all inp n"
      using "1.prems" True by (simp add: kernel_ok_def d64_all_take)
    moreover have "drop (64 * m) (drop (64 * n) inp) = drop (64 * (n + m)) inp"
      by (simp add: distrib_left add.commute)
    ultimately have "batch_loop n k inp blocks
        = (d64_all inp (n + m), drop (64 * (n + m)) inp, blocks - (n + m))"
      using m(3) True "1.prems"(2) by (subst batch_loop.simps) (simp only: d64_all_add, simp)
    then show ?thesis
      using m True by (intro exI [of _ "n + m"]) auto
  qed
qed

lemma opt_batch_loop_ok:
  assumes "\<And>k. ko = Some k \<Longrightarrow> kernel_ok n k" "n \<noteq> 0" "64 * blocks \<le> length inp"
  shows "\<exists>m \<le> blocks. opt_batch_loop n ko inp blocks = (d64_all inp m, drop (64 * m) inp, blocks - m)"
  using assms batch_loop_ok [of n _ blocks inp]
  by (cases ko) (auto simp: opt_batch_loop_def intro: exI [of _ 0])

text \<open>What the kernels installed by \<^verbatim>\<open>SHA256AutoDetect\<close> promise (and \<^verbatim>\<open>SelfTest\<close> samples at start-up).\<close>

locale sha_kernels =
  fixes be :: sha_backend
  assumes D64_ok: "kernel_ok 1 (backend_D64 be)"
    and way2_ok: "backend_2way be = Some k2 \<Longrightarrow> kernel_ok 2 k2"
    and way4_ok: "backend_4way be = Some k4 \<Longrightarrow> kernel_ok 4 k4"
    and way8_ok: "backend_8way be = Some k8 \<Longrightarrow> kernel_ok 8 k8"
begin

lemma SHA256D64_all:
  assumes "64 * blocks \<le> length inp"
  shows "SHA256D64 be inp blocks = d64_all inp blocks"
proof -
  have step: "\<exists>m. m \<le> b \<and> opt_batch_loop n ko i b = (d64_all i m, drop (64 * m) i, b - m)"
    if "\<And>k. ko = Some k \<Longrightarrow> kernel_ok n k" "n \<noteq> 0" "64 * b \<le> length i" for n ko i b
    using opt_batch_loop_ok [of ko n b i] that by blast
  obtain m8 where m8: "m8 \<le> blocks" "opt_batch_loop 8 (backend_8way be) inp blocks
      = (d64_all inp m8, drop (64 * m8) inp, blocks - m8)"
    using step [of "backend_8way be" 8 blocks inp] way8_ok assms by auto
  let ?i4 = "drop (64 * m8) inp" and ?b4 = "blocks - m8"
  have len4: "64 * ?b4 \<le> length ?i4"
    using assms by (simp add: diff_mult_distrib2 diff_le_mono)
  obtain m4 where m4: "m4 \<le> ?b4" "opt_batch_loop 4 (backend_4way be) ?i4 ?b4
      = (d64_all ?i4 m4, drop (64 * m4) ?i4, ?b4 - m4)"
    using step [of "backend_4way be" 4 ?b4 ?i4] way4_ok len4 by auto
  let ?i2 = "drop (64 * m4) ?i4" and ?b2 = "?b4 - m4"
  have len2: "64 * ?b2 \<le> length ?i2"
    using len4 by (simp add: diff_mult_distrib2)
  obtain m2 where m2: "m2 \<le> ?b2" "opt_batch_loop 2 (backend_2way be) ?i2 ?b2
      = (d64_all ?i2 m2, drop (64 * m2) ?i2, ?b2 - m2)"
    using step [of "backend_2way be" 2 ?b2 ?i2] way2_ok len2 by auto
  let ?i1 = "drop (64 * m2) ?i2" and ?b1 = "?b2 - m2"
  have "64 * ?b1 \<le> length ?i1"
    using len2 by (simp add: diff_mult_distrib2)
  then obtain m1 where m1: "m1 \<le> ?b1" "?b1 - m1 < 1" "batch_loop 1 (backend_D64 be) ?i1 ?b1
      = (d64_all ?i1 m1, drop (64 * m1) ?i1, ?b1 - m1)"
    using batch_loop_ok [OF D64_ok one_neq_zero, of ?b1 ?i1] by blast
  have out: "SHA256D64 be inp blocks = d64_all inp m8 @ d64_all ?i4 m4 @ d64_all ?i2 m2 @ d64_all ?i1 m1"
    unfolding SHA256D64_def Let_def m8(2) m4(2) m2(2) m1(3) prod.case ..
  have "blocks = m8 + (m4 + (m2 + m1))"
    using m8(1) m4(1) m2(1) m1(1,2) by linarith
  then show ?thesis
    unfolding out by (simp add: d64_all_add)
qed

end

lemma TransformD64_kernel: "kernel_ok 1 TransformD64"
  by (simp add: kernel_ok_def d64_all_def TransformD64_fips)

interpretation std_kernels: sha_kernels standard_backend
  using TransformD64_kernel by unfold_locales (simp_all add: standard_backend_def)

section \<open>Properties of the hash\<close>


text \<open>C17: the hand-unrolled double hash of a 64-byte blob, with its precomputed round constants for the
  two padding blocks, equals the generic double SHA-256; the same holds of the wrapper around the
  generic compression function.\<close>

theorem TransformD64_correct:
  assumes "length inp = 64"
  shows "TransformD64 inp = sha256d inp \<and> TransformD64Wrapper Transform inp = sha256d inp"
  using assms by (simp add: TransformD64_fips flip: TransformD64_wrapper)

lemma TransformD64_correct_witness:
  "TransformD64 (replicate 64 7) = sha256d (replicate 64 7)
   \<and> TransformD64Wrapper Transform (replicate 64 7) = sha256d (replicate 64 7)"
  by (rule TransformD64_correct) simp

text \<open>\<^verbatim>\<open>SHA256D64\<close> writes the double SHA-256 of each of its blobs in order, whichever batched kernels
  are installed, provided each kernel hashes its batch correctly and the input holds that many blobs.\<close>

theorem SHA256D64_correct:
  assumes "sha_kernels be" and "64 * blocks \<le> length inp"
  shows "SHA256D64 be inp blocks = concat (map (\<lambda>i. sha256d (take 64 (drop (64 * i) inp))) [0..<blocks])"
  using sha_kernels.SHA256D64_all [OF assms] by (simp add: d64_all_def)

lemma SHA256D64_correct_witness:
  "sha_kernels (standard_backend\<lparr>backend_2way := Some (\<lambda>i. TransformD64 (take 64 i) @ TransformD64 (drop 64 i))\<rparr>)
   \<and> SHA256D64 (standard_backend\<lparr>backend_2way := Some (\<lambda>i. TransformD64 (take 64 i) @ TransformD64 (drop 64 i))\<rparr>)
       (replicate 192 7) 3
     = concat (map (\<lambda>i. sha256d (take 64 (drop (64 * i) (replicate 192 7)))) [0..<3])"
proof -
  let ?k = "\<lambda>i. TransformD64 (take 64 i) @ TransformD64 (drop 64 i)"
  have "kernel_ok 2 ?k"
    by (simp add: kernel_ok_def d64_all_def upt_small TransformD64_fips)
  then have "sha_kernels (standard_backend\<lparr>backend_2way := Some ?k\<rparr>)"
    using TransformD64_kernel by unfold_locales (auto simp: standard_backend_def)
  then show ?thesis
    using SHA256D64_correct [of "standard_backend\<lparr>backend_2way := Some ?k\<rparr>" 3 "replicate 192 7"] by simp
qed

end
