(* ===== verification/Merkle.thy ===== *)
theory Merkle
  imports Sha256
begin

text \<open>
  \<^verbatim>\<open>src/src/util/merkle.cpp\<close>: merkle roots over double SHA-256 and the branch a Stratum job sends to
  miners. A \<^verbatim>\<open>Hash256\<close> is a 32-byte string. The main result is that folding the branch over any coinbase
  hash gives the root of the whole transaction list, although the branch is computed before the
  coinbase is known.
\<close>

type_synonym Hash256 = bytes

definition zero_hash :: Hash256 where
  "zero_hash = replicate 32 0"

definition hash_pair :: "Hash256 \<Rightarrow> Hash256 \<Rightarrow> Hash256" where
  "hash_pair left right = SHA256D64 standard_backend (left @ right) 1"

text \<open>A contiguous \<^verbatim>\<open>std::vector<Hash256>\<close> read from and written to as raw bytes.\<close>

definition hashes_of_bytes :: "bytes \<Rightarrow> nat \<Rightarrow> Hash256 list" where
  "hashes_of_bytes bs n = map (\<lambda>i. take 32 (drop (32 * i) bs)) [0..<n]"

definition collapse_level :: "Hash256 list \<Rightarrow> Hash256 list" where
  "collapse_level level =
    (let pairs = length level div 2
     in if pairs > 0 then hashes_of_bytes (SHA256D64 standard_backend (concat level) pairs) pairs
        else [])"

lemma length_collapse_level [simp]: "length (collapse_level level) = length level div 2"
  by (simp add: collapse_level_def hashes_of_bytes_def Let_def)

text \<open>Duplicating an odd tail, the first statement of both loop bodies.\<close>

definition pad_level :: "Hash256 list \<Rightarrow> Hash256 list" where
  "pad_level level = (if length level mod 2 \<noteq> 0 then level @ [last level] else level)"

lemma length_pad_level: "length (pad_level level) = 2 * ((length level + 1) div 2)"
  by (simp add: pad_level_def) presburger

function merkle_root_loop :: "Hash256 list \<Rightarrow> Hash256" where
  "merkle_root_loop leaves =
    (if length leaves > 1 then merkle_root_loop (collapse_level (pad_level leaves)) else hd leaves)"
  by pat_completeness auto
termination
  by (relation "measure length") (auto simp: length_pad_level)

definition merkle_root :: "Hash256 list \<Rightarrow> Hash256" where
  "merkle_root leaves = (if leaves = [] then zero_hash else merkle_root_loop leaves)"

function merkle_branch_loop :: "Hash256 list \<Rightarrow> Hash256 list \<Rightarrow> Hash256 list" where
  "merkle_branch_loop branch level =
    (if length level > 1 then
       merkle_branch_loop (branch @ [pad_level level ! 1]) (collapse_level (pad_level level))
     else branch)"
  by pat_completeness auto
termination
  by (relation "measure (\<lambda>(branch, level). length level)") (auto simp: length_pad_level)

definition merkle_branch :: "Hash256 list \<Rightarrow> Hash256 list" where
  "merkle_branch other_leaves = merkle_branch_loop [] (zero_hash # other_leaves)"

definition merkle_root_from_branch :: "Hash256 \<Rightarrow> Hash256 list \<Rightarrow> Hash256" where
  "merkle_root_from_branch coinbase branch =
    fold (\<lambda>sibling current. hash_pair current sibling) branch coinbase"

declare merkle_root_loop.simps [simp del] merkle_branch_loop.simps [simp del]

section \<open>Levels\<close>

definition hashes :: "Hash256 list \<Rightarrow> bool" where
  "hashes hs \<longleftrightarrow> list_all (\<lambda>h. length h = 32) hs"

lemma hashes_simps [simp]: "hashes []" "hashes (h # hs) \<longleftrightarrow> length h = 32 \<and> hashes hs"
  "hashes (xs @ ys) \<longleftrightarrow> hashes xs \<and> hashes ys"
  by (simp_all add: hashes_def)

lemma hash_pair_sha256d: "length a = 32 \<Longrightarrow> length b = 32 \<Longrightarrow> hash_pair a b = sha256d (a @ b)"
  by (simp add: hash_pair_def std_kernels.SHA256D64_all d64_all_def)

lemma length_concat_hashes: "hashes hs \<Longrightarrow> length (concat hs) = 32 * length hs"
  by (induction hs) auto

fun pair_up :: "Hash256 list \<Rightarrow> Hash256 list" where
  "pair_up (a # b # rest) = hash_pair a b # pair_up rest"
| "pair_up _ = []"

lemma hashes_of_bytes_Suc:
  "length h = 32 \<Longrightarrow> hashes_of_bytes (h @ bs) (Suc n) = h # hashes_of_bytes bs n"
proof -
  assume h: "length h = 32"
  have "[0..<Suc n] = 0 # map Suc [0..<n]" by (simp add: map_Suc_upt upt_conv_Cons del: upt_Suc)
  with h show ?thesis by (simp add: hashes_of_bytes_def del: upt_Suc)
qed

lemma collapse_hashes:
  "hashes level \<Longrightarrow> hashes_of_bytes (d64_all (concat level) (length level div 2)) (length level div 2) = pair_up level"
proof (induction level rule: pair_up.induct)
  case (1 a b rest)
  have "d64_all (concat (a # b # rest)) (1 + length rest div 2)
      = sha256d (a @ b) @ d64_all (concat rest) (length rest div 2)"
    unfolding d64_all_add using "1.prems" by (simp add: d64_all_def)
  moreover have "length (a # b # rest) div 2 = 1 + length rest div 2" by simp
  ultimately show ?case
    using 1 by (simp only:) (simp add: hashes_of_bytes_Suc hash_pair_sha256d)
qed (simp_all add: hashes_of_bytes_def)

lemma collapse_level_pair_up: "hashes level \<Longrightarrow> collapse_level level = pair_up level"
  using collapse_hashes [of level]
  by (auto simp: collapse_level_def Let_def std_kernels.SHA256D64_all length_concat_hashes hashes_of_bytes_def)

lemma hashes_pair_up: "hashes level \<Longrightarrow> hashes (pair_up level)"
  by (induction level rule: pair_up.induct) (auto simp: hash_pair_sha256d)

lemma hashes_pad_level: "hashes level \<Longrightarrow> hashes (pad_level level)"
  by (cases "level = []") (auto simp: pad_level_def hashes_def list_all_iff)

lemma pad_level_Cons: "xs \<noteq> [] \<Longrightarrow> \<exists>s rest. \<forall>c. pad_level (c # xs) = c # s # rest"
proof (cases xs)
  case (Cons s ys)
  have "pad_level (c # xs) = c # s # (if Suc (length xs) mod 2 \<noteq> 0 then ys @ [last xs] else ys)" for c
    by (simp add: pad_level_def Cons)
  then show ?thesis by blast
qed simp

section \<open>The coinbase path\<close>

lemma merkle_branch_loop_acc: "merkle_branch_loop acc level = acc @ merkle_branch_loop [] level"
proof (induction "length level" arbitrary: acc level rule: less_induct)
  case less
  show ?case
  proof (cases "length level > 1")
    case True
    let ?next = "collapse_level (pad_level level)" and ?x = "pad_level level ! 1"
    have "length ?next < length level"
      using True by (simp add: length_pad_level)
    from less [OF this, of "acc @ [?x]"] less [OF this, of "[?x]"] True show ?thesis
      by (subst (1 2) merkle_branch_loop.simps) simp
  qed (simp add: merkle_branch_loop.simps)
qed

lemma merkle_path:
  assumes "length c = 32" "length z = 32" "hashes t"
  shows "merkle_root_loop (c # t) = merkle_root_from_branch c (merkle_branch_loop [] (z # t))"
  using assms
proof (induction "length t" arbitrary: c z t rule: less_induct)
  case less
  show ?case
  proof (cases "t = []")
    case False
    then obtain s rest where pad: "\<And>c. pad_level (c # t) = c # s # rest"
      using pad_level_Cons by metis
    have hs: "length s = 32" "hashes rest"
      using hashes_pad_level [of "c # t"] less.prems pad [of c] by simp_all
    have next_level: "collapse_level (pad_level (c # t)) = hash_pair c s # pair_up rest"
      "collapse_level (pad_level (z # t)) = hash_pair z s # pair_up rest"
      using less.prems hs by (simp_all add: pad collapse_level_pair_up)
    have "length (pair_up rest) < length t"
      using length_pad_level [of "c # t"] length_collapse_level [of "pad_level (c # t)"] False
      unfolding next_level by (cases t) auto
    with less.hyps [of "pair_up rest" "hash_pair c s" "hash_pair z s"]
    have IH: "merkle_root_loop (hash_pair c s # pair_up rest)
        = merkle_root_from_branch (hash_pair c s) (merkle_branch_loop [] (hash_pair z s # pair_up rest))"
      using hs less.prems by (simp add: hashes_pair_up hash_pair_sha256d)
    have "merkle_root_loop (c # t) = merkle_root_loop (hash_pair c s # pair_up rest)"
      using False next_level by (subst merkle_root_loop.simps) simp
    moreover have "merkle_branch_loop [] (z # t) = s # merkle_branch_loop [] (hash_pair z s # pair_up rest)"
      using False next_level pad [of z]
      by (subst merkle_branch_loop.simps) (simp add: merkle_branch_loop_acc [of "[s]"])
    ultimately show ?thesis
      using IH by (simp add: merkle_root_from_branch_def)
  qed (simp add: merkle_root_loop.simps merkle_branch_loop.simps merkle_root_from_branch_def)
qed

lemma merkle_branch_root:
  "length coinbase = 32 \<Longrightarrow> hashes others \<Longrightarrow>
    merkle_root_from_branch coinbase (merkle_branch others) = merkle_root (coinbase # others)"
  using merkle_path [of coinbase zero_hash others] by (simp add: merkle_branch_def merkle_root_def zero_hash_def)

text \<open>C15: the branch computed from the other transactions alone, folded over any coinbase hash, gives the
  merkle root of the coinbase followed by those transactions.\<close>

theorem merkle_branch_correct:
  assumes "length coinbase = 32" "list_all (\<lambda>h. length h = 32) others"
  shows "merkle_root_from_branch coinbase (merkle_branch others) = merkle_root (coinbase # others)"
  using assms by (intro merkle_branch_root) (simp_all add: hashes_def)

lemma merkle_branch_correct_witness:
  "length (replicate 32 (1 :: u8)) = 32 \<and> list_all (\<lambda>h. length h = 32) [replicate 32 (2 :: u8), replicate 32 3]
   \<and> merkle_root_from_branch (replicate 32 1) (merkle_branch [replicate 32 2, replicate 32 3])
     = merkle_root [replicate 32 1, replicate 32 2, replicate 32 3]"
  using merkle_branch_correct [of "replicate 32 1" "[replicate 32 2, replicate 32 3]"] by simp

lemma merkle_branch_hashes:
  "length z = 32 \<Longrightarrow> hashes t \<Longrightarrow> hashes (merkle_branch_loop [] (z # t))"
proof (induction "length t" arbitrary: z t rule: less_induct)
  case less
  show ?case
  proof (cases "t = []")
    case False
    then obtain s rest where pad: "pad_level (z # t) = z # s # rest"
      using pad_level_Cons by metis
    have hs: "length s = 32" "hashes rest"
      using hashes_pad_level [of "z # t"] less.prems pad by simp_all
    have next_level: "collapse_level (pad_level (z # t)) = hash_pair z s # pair_up rest"
      using less.prems hs by (simp add: pad collapse_level_pair_up)
    have "length (pair_up rest) < length t"
      using length_pad_level [of "z # t"] length_collapse_level [of "pad_level (z # t)"] False
      unfolding next_level by (cases t) auto
    with less hs have "hashes (merkle_branch_loop [] (hash_pair z s # pair_up rest))"
      by (simp add: hashes_pair_up hash_pair_sha256d)
    then show ?thesis
      using False next_level pad hs
      by (subst merkle_branch_loop.simps) (simp add: merkle_branch_loop_acc [of "[s]"])
  qed (simp add: merkle_branch_loop.simps)
qed

text \<open>The branch has one entry per doubling: \<open>2 ^ length\<close> leaves are enough, half as many are not.\<close>

lemma length_merkle_branch_loop:
  "length level \<noteq> 0 \<Longrightarrow>
    length level \<le> 2 ^ length (merkle_branch_loop [] level)
    \<and> (length level > 1 \<longrightarrow> 2 ^ length (merkle_branch_loop [] level) \<le> 2 * (length level - 1))"
proof (induction "length level" arbitrary: level rule: less_induct)
  case less
  show ?case
  proof (cases "length level > 1")
    case True
    let ?next = "collapse_level (pad_level level)"
    let ?h = "(length level + 1) div 2" and ?d = "length (merkle_branch_loop [] (collapse_level (pad_level level)))"
    have len: "length ?next = ?h"
      by (simp add: length_pad_level)
    have d: "length (merkle_branch_loop [] level) = Suc ?d"
      using True by (subst merkle_branch_loop.simps) (simp add: merkle_branch_loop_acc [of "[_]"])
    have h: "?h < length level" "?h \<noteq> 0" "length level \<le> 2 * ?h" "2 * ?h \<le> length level + 1"
      using True by linarith+
    with less.hyps [of ?next] len
    have IH: "?h \<le> 2 ^ ?d" "?h > 1 \<longrightarrow> 2 ^ ?d \<le> 2 * (?h - 1)"
      by simp_all
    have one: "?h \<le> 1 \<Longrightarrow> ?d = 0"
      using len by (simp add: merkle_branch_loop.simps)
    have "length level \<le> 2 * 2 ^ ?d"
      using IH(1) h(3) by linarith
    moreover have "2 * 2 ^ ?d \<le> 2 * (length level - 1)"
    proof (cases "?h > 1")
      case True
      with IH(2) h(4) show ?thesis by linarith
    next
      case False
      with one True show ?thesis by simp
    qed
    ultimately show ?thesis
      unfolding d by simp
  qed (simp add: merkle_branch_loop.simps)
qed

text \<open>A job for \<open>n\<close> further transactions carries exactly \<open>\<lceil>log2 (n + 1)\<rceil>\<close> branch hashes, each of 32
  bytes.\<close>

theorem merkle_branch_size:
  assumes "list_all (\<lambda>h. length h = 32) others"
  shows "list_all (\<lambda>h. length h = 32) (merkle_branch others)
   \<and> length others < 2 ^ length (merkle_branch others)
   \<and> (others = [] \<longrightarrow> merkle_branch others = [])
   \<and> (others \<noteq> [] \<longrightarrow> 2 ^ (length (merkle_branch others) - 1) \<le> length others)"
proof -
  have "hashes (merkle_branch others)"
    using merkle_branch_hashes [of zero_hash others] assms
    by (simp add: merkle_branch_def zero_hash_def hashes_def)
  moreover have "length (zero_hash # others) \<le> 2 ^ length (merkle_branch others)"
    "others \<noteq> [] \<longrightarrow> 2 ^ length (merkle_branch others) \<le> 2 * length others"
    using length_merkle_branch_loop [of "zero_hash # others"] by (simp_all add: merkle_branch_def)
  moreover have "others = [] \<longrightarrow> merkle_branch others = []"
    by (simp add: merkle_branch_def merkle_branch_loop.simps)
  ultimately show ?thesis
    by (cases "length (merkle_branch others)") (auto simp: hashes_def Suc_le_eq)
qed

lemma merkle_branch_size_witness:
  "list_all (\<lambda>h. length h = 32) [replicate 32 (2 :: u8), replicate 32 3]
   \<and> list_all (\<lambda>h. length h = 32) (merkle_branch [replicate 32 2, replicate 32 3])
   \<and> 2 < (2 :: nat) ^ length (merkle_branch [replicate 32 2, replicate 32 3])"
  using merkle_branch_size [of "[replicate 32 2, replicate 32 3]"] by simp

end
