(* ===== verification/Base58.thy ===== *)
theory Base58
  imports Merkle
begin

text \<open>
  \<^verbatim>\<open>src/src/util/base58.cpp\<close>: base58 and base58check. Both directions convert between digit strings by
  multiply-and-carry over a growing little-endian digit list; \<open>int carry\<close> never goes negative and is a
  natural number here. Both codecs are shown to be bijections between byte strings and the strings
  over the alphabet.
\<close>

definition kAlphabet :: string where
  "kAlphabet = ''123456789ABCDEFGHJKLMNPQRSTUVWXYZabcdefghijkmnopqrstuvwxyz''"

definition make_reverse_table :: "int list" where
  "make_reverse_table =
    fold (\<lambda>i t. t[of_char (kAlphabet ! i) := int i]) [0..<58] (replicate 256 (- 1))"

definition kReverse :: "char \<Rightarrow> int" where
  "kReverse c = make_reverse_table ! of_char c"

text \<open>The inner loop over the existing digits (multiply by \<open>m\<close>, keep the remainder modulo \<open>b\<close>) and the
  loop that pushes what is left of the carry.\<close>

fun carry_loop :: "nat \<Rightarrow> nat \<Rightarrow> nat \<Rightarrow> bytes \<Rightarrow> bytes \<times> nat" where
  "carry_loop m b carry [] = ([], carry)"
| "carry_loop m b carry (d # ds) =
    (let c = carry + unat d * m; (ds', carry') = carry_loop m b (c div b) ds
     in (word_of_nat (c mod b) # ds', carry'))"

function push_loop :: "nat \<Rightarrow> nat \<Rightarrow> bytes" where
  "push_loop b carry =
    (if carry = 0 \<or> b < 2 then [] else word_of_nat (carry mod b) # push_loop b (carry div b))"
  by pat_completeness auto
termination
  by (relation "measure (\<lambda>(b, carry). carry)") auto

definition digit_step :: "nat \<Rightarrow> nat \<Rightarrow> nat \<Rightarrow> bytes \<Rightarrow> bytes" where
  "digit_step m b v digits =
    (let (digits', carry) = carry_loop m b v digits in digits' @ push_loop b carry)"

fun decode_digits :: "string \<Rightarrow> bytes \<Rightarrow> bytes option" where
  "decode_digits [] digits = Some digits"
| "decode_digits (character # input) digits =
    (let val = kReverse character
     in if val < 0 then None else decode_digits input (digit_step 58 256 (nat val) digits))"

definition try_base58_decode :: "string \<Rightarrow> bytes option" where
  "try_base58_decode input =
    (case decode_digits input [] of
      None \<Rightarrow> None
    | Some digits \<Rightarrow> Some (rev (digits @ map (\<lambda>_. 0) (takeWhile (\<lambda>c. c = CHR ''1'') input))))"

definition base58_decode :: "string \<Rightarrow> bytes result" where
  "base58_decode input =
    (case try_base58_decode input of
      Some decoded \<Rightarrow> Inr decoded
    | None \<Rightarrow> Inl (Invalid_argument ''base58: invalid character''))"

definition base58_encode :: "bytes \<Rightarrow> string" where
  "base58_encode data =
    (let digits = fold (\<lambda>byte. digit_step 256 58 (unat byte)) data []
     in map (\<lambda>_. CHR ''1'') (takeWhile (\<lambda>byte. byte = 0) data)
        @ map (\<lambda>d. kAlphabet ! unat d) (rev digits))"

definition try_base58check_decode :: "string \<Rightarrow> bytes option" where
  "try_base58check_decode input =
    (case try_base58_decode input of
      None \<Rightarrow> None
    | Some full \<Rightarrow>
        if length full < 4 then None
        else let payload = take (length full - 4) full; hash = sha256d payload
          in if drop (length full - 4) full \<noteq> take 4 hash then None else Some payload)"

definition base58check_decode :: "string \<Rightarrow> bytes result" where
  "base58check_decode input =
    (case try_base58check_decode input of
      Some payload \<Rightarrow> Inr payload
    | None \<Rightarrow> Inl (Invalid_argument ''base58check: invalid, too short, or checksum mismatch''))"

definition base58check_encode :: "bytes \<Rightarrow> string" where
  "base58check_encode payload = base58_encode (payload @ take 4 (sha256d payload))"

declare push_loop.simps [simp del]

section \<open>The reverse table\<close>

lemma length_fold_update [simp]: "length (fold (\<lambda>i t. t[p i := v i]) is t) = length t"
  by (induction "is" arbitrary: t) auto

lemma fold_update_other:
  "k \<notin> p ` set is \<Longrightarrow> fold (\<lambda>i t. t[p i := v i]) is t ! k = t ! k"
  by (induction "is" arbitrary: t) auto

lemma fold_update_same:
  "\<lbrakk>distinct is; inj_on p (set is); i \<in> set is; p i < length t\<rbrakk>
    \<Longrightarrow> fold (\<lambda>i t. t[p i := v i]) is t ! p i = v i"
proof (induction "is" arbitrary: t)
  case (Cons j js)
  show ?case
  proof (cases "i = j")
    case True
    then have "p i \<notin> p ` set js" using Cons.prems by (auto simp: inj_on_def)
    then show ?thesis using True Cons.prems by (simp add: fold_update_other)
  next
    case False
    then show ?thesis using Cons by auto
  qed
qed simp

lemma length_kAlphabet [simp]: "length kAlphabet = 58"
  by (simp add: kAlphabet_def)

lemma distinct_kAlphabet: "distinct kAlphabet"
  by (simp add: kAlphabet_def)

lemma inj_kAlphabet: "inj_on (\<lambda>i. of_char (kAlphabet ! i) :: nat) (set [0..<58])"
  using distinct_kAlphabet by (auto simp: inj_on_def nth_eq_iff_index_eq)

lemma kReverse_kAlphabet [simp]: "i < 58 \<Longrightarrow> kReverse (kAlphabet ! i) = int i"
  unfolding kReverse_def make_reverse_table_def
  by (rule fold_update_same) (use inj_kAlphabet nat_of_char_less_256 in auto)

lemma kAlphabet_kReverse:
  assumes "0 \<le> kReverse c"
  shows "kReverse c < 58" "kAlphabet ! nat (kReverse c) = c"
proof -
  have "\<exists>i < 58. kAlphabet ! i = c"
  proof (rule ccontr)
    assume "\<not> ?thesis"
    then have "of_char c \<notin> (\<lambda>i. of_char (kAlphabet ! i) :: nat) ` set [0..<58]" by auto
    then have "kReverse c = - 1"
      unfolding kReverse_def make_reverse_table_def
      by (simp add: fold_update_other nat_of_char_less_256)
    with assms show False by simp
  qed
  then obtain i where "i < 58" "kAlphabet ! i = c" by blast
  then show "kReverse c < 58" "kAlphabet ! nat (kReverse c) = c" by auto
qed

lemma kAlphabet_0: "kAlphabet ! n = CHR ''1'' \<longleftrightarrow> n = 0" if "n < 58"
proof -
  have "kAlphabet ! 0 = CHR ''1''" by (simp add: kAlphabet_def)
  then show ?thesis
    using that distinct_kAlphabet by (metis length_kAlphabet nth_eq_iff_index_eq zero_less_numeral)
qed

lemma kAlphabet_hd [simp]: "kAlphabet ! 0 = CHR ''1''"
  by (simp add: kAlphabet_def)

lemma kReverse_0: "kReverse c = 0 \<longleftrightarrow> c = CHR ''1''"
  using kAlphabet_kReverse [of c] kAlphabet_0 [of 0] kReverse_kAlphabet [of 0] by force

section \<open>Positional digits\<close>

fun dval :: "nat \<Rightarrow> bytes \<Rightarrow> nat" where
  "dval b [] = 0"
| "dval b (d # ds) = unat d + b * dval b ds"

definition canon :: "nat \<Rightarrow> bytes \<Rightarrow> bool" where
  "canon b ds \<longleftrightarrow> list_all (\<lambda>d. unat d < b) ds \<and> (ds \<noteq> [] \<longrightarrow> last ds \<noteq> 0)"

lemma dval_append: "dval b (xs @ ys) = dval b xs + b ^ length xs * dval b ys"
  by (induction xs) (auto simp: algebra_simps)

lemma dval_less: "list_all (\<lambda>d. unat d < b) ds \<Longrightarrow> dval b ds < b ^ length ds"
proof (induction ds)
  case (Cons d ds)
  then have "unat d + b * dval b ds < b + b * dval b ds" by simp
  also have "\<dots> \<le> b * b ^ length ds"
    using Cons by (simp flip: mult_Suc_right add: Suc_leI)
  finally show ?case by simp
qed simp

lemma canon_Cons: "canon b (d # ds) \<longleftrightarrow> unat d < b \<and> canon b ds \<and> (ds = [] \<longrightarrow> d \<noteq> 0)"
  by (auto simp: canon_def)

lemma dval_canon_pos: "canon b ds \<Longrightarrow> ds \<noteq> [] \<Longrightarrow> 0 < b \<Longrightarrow> b ^ (length ds - 1) \<le> dval b ds"
proof (induction ds)
  case (Cons d ds)
  show ?case
  proof (cases "ds = []")
    case True
    with Cons.prems show ?thesis by (simp add: canon_Cons unat_gt_0 Suc_le_eq)
  next
    case False
    with Cons have "b ^ (length ds - 1) \<le> dval b ds" by (simp add: canon_Cons)
    then have "b * b ^ (length ds - 1) \<le> b * dval b ds" by simp
    also have "b * b ^ (length ds - 1) = b ^ length ds"
      using False by (cases ds) simp_all
    finally show ?thesis by simp
  qed
qed simp

lemma canon_unique: "canon b xs \<Longrightarrow> canon b ys \<Longrightarrow> dval b xs = dval b ys \<Longrightarrow> xs = ys"
proof (induction xs arbitrary: ys)
  case Nil
  show ?case
  proof (rule ccontr)
    assume ne: "[] \<noteq> ys"
    then have "0 < b" using Nil.prems by (cases ys) (auto simp: canon_Cons)
    with ne dval_canon_pos [of b ys] Nil.prems show False by simp
  qed
next
  case (Cons x xs)
  have b: "0 < b" using Cons.prems by (auto simp: canon_Cons)
  obtain y ys' where ys: "ys = y # ys'"
    using Cons.prems dval_canon_pos [of b "x # xs"] b by (cases ys) auto
  have d: "unat x < b" "unat y < b" using Cons.prems ys by (simp_all add: canon_Cons)
  have eq: "unat x + b * dval b xs = unat y + b * dval b ys'" using Cons.prems ys by simp
  have "(unat x + b * dval b xs) mod b = (unat y + b * dval b ys') mod b" by (simp only: eq)
  with d have "x = y" by (simp add: word_unat_eq_iff)
  moreover have "xs = ys'"
    using Cons.IH [of ys'] Cons.prems ys eq b \<open>x = y\<close> by (simp add: canon_Cons)
  ultimately show ?case using ys by simp
qed

lemma unat_digit: "b \<le> 256 \<Longrightarrow> 0 < b \<Longrightarrow> unat (word_of_nat (c mod b) :: u8) = c mod b"
proof -
  assume "b \<le> 256" "0 < b"
  then have "c mod b < 256" using mod_less_divisor [of b c] by linarith
  then show ?thesis by (simp add: unat_of_nat take_bit_nat_eq_self)
qed

lemma carry_loop_value:
  assumes "0 < b" "b \<le> 256" "carry_loop m b carry ds = (ds', carry')"
  shows "length ds' = length ds \<and> list_all (\<lambda>d. unat d < b) ds'
    \<and> dval b ds' + b ^ length ds * carry' = m * dval b ds + carry"
  using assms(3)
proof (induction ds arbitrary: carry ds' carry')
  case (Cons d ds)
  let ?c = "carry + unat d * m"
  obtain es e where rec: "carry_loop m b (?c div b) ds = (es, e)" by fastforce
  with Cons.prems have ds': "ds' = word_of_nat (?c mod b) # es" "carry' = e"
    by (simp_all add: Let_def)
  from Cons.IH [OF rec] have IH: "length es = length ds" "list_all (\<lambda>d. unat d < b) es"
    "dval b es + b ^ length ds * e = m * dval b ds + ?c div b" by simp_all
  have "?c mod b + b * dval b es + b * b ^ length ds * e
      = ?c mod b + b * (dval b es + b ^ length ds * e)" by (simp add: algebra_simps)
  also have "\<dots> = m * (b * dval b ds) + (b * (?c div b) + ?c mod b)"
    unfolding IH(3) by (simp add: algebra_simps)
  also have "\<dots> = m * (unat d + b * dval b ds) + carry"
    by (simp add: algebra_simps)
  finally show ?case
    using IH assms(1,2) unfolding ds' by (simp add: unat_digit)
qed simp

lemma push_loop_Nil: "2 \<le> b \<Longrightarrow> push_loop b c = [] \<longleftrightarrow> c = 0"
  by (subst push_loop.simps) simp

lemma push_loop_canon:
  assumes "2 \<le> b" "b \<le> 256"
  shows "canon b (push_loop b c) \<and> dval b (push_loop b c) = c"
proof (induction c rule: less_induct)
  case (less c)
  show ?case
  proof (cases "c = 0")
    case True
    then show ?thesis by (simp add: push_loop.simps canon_def)
  next
    case False
    then have IH: "canon b (push_loop b (c div b))" "dval b (push_loop b (c div b)) = c div b"
      using less [of "c div b"] assms by simp_all
    have push: "push_loop b c = word_of_nat (c mod b) # push_loop b (c div b)"
      using False assms by (subst push_loop.simps) simp
    have digit: "unat (word_of_nat (c mod b) :: u8) = c mod b"
      using assms by (simp add: unat_digit)
    have "word_of_nat (c mod b) \<noteq> (0 :: u8)" if "c div b = 0"
    proof -
      have "c mod b \<noteq> 0" using that False assms by (metis mod_div_decomp mult_0 add_0)
      with digit show ?thesis by (metis unat_0)
    qed
    then show ?thesis
      unfolding push canon_Cons using IH digit assms by (auto simp: push_loop_Nil)
  qed
qed

lemma digit_step_canon:
  assumes "2 \<le> b" "b \<le> 256" "1 \<le> m" "canon b ds"
  shows "canon b (digit_step m b v ds) \<and> dval b (digit_step m b v ds) = m * dval b ds + v"
proof -
  obtain ds' c where loop: "carry_loop m b v ds = (ds', c)" by fastforce
  have out: "digit_step m b v ds = ds' @ push_loop b c" by (simp add: digit_step_def loop)
  have ds': "length ds' = length ds" "list_all (\<lambda>d. unat d < b) ds'"
    "dval b ds' + b ^ length ds * c = m * dval b ds + v"
    using carry_loop_value [OF _ assms(2) loop] assms(1) by simp_all
  have push: "canon b (push_loop b c)" "dval b (push_loop b c) = c"
    using push_loop_canon assms by simp_all
  have "last ds' \<noteq> 0" if "c = 0" "ds' \<noteq> []"
  proof
    assume "last ds' = 0"
    with that have split: "ds' = butlast ds' @ [0]" by (metis append_butlast_last_id)
    have "list_all (\<lambda>d. unat d < b) (butlast ds')"
      using ds'(2) by (simp add: list_all_iff in_set_butlastD)
    then have "dval b (butlast ds' @ [0]) < b ^ (length ds - 1)"
      using dval_less [of b "butlast ds'"] ds'(1) by (simp add: dval_append)
    then have "dval b ds' < b ^ (length ds - 1)" by (simp only: flip: split)
    moreover have "b ^ (length ds - 1) \<le> dval b ds"
      using that ds'(1) assms by (intro dval_canon_pos) auto
    moreover have "dval b ds \<le> m * dval b ds" using assms(3) by simp
    moreover have "m * dval b ds \<le> dval b ds'" using ds'(3) that by simp
    ultimately show False by linarith
  qed
  then have "canon b (ds' @ push_loop b c)"
    using ds'(2) push(1) push_loop_Nil [OF assms(1), of c] unfolding canon_def
    by (cases "c = 0") (auto simp: last_append)
  then show ?thesis
    unfolding out by (simp add: dval_append push(2) ds')
qed

section \<open>Base conversion\<close>

lemma fold_digit_step:
  assumes "2 \<le> b" "b \<le> 256" "1 \<le> m" "canon b ds"
  shows "canon b (fold (digit_step m b) vs ds)
    \<and> dval b (fold (digit_step m b) vs ds) = fold (\<lambda>v a. m * a + v) vs (dval b ds)"
  using assms(4)
proof (induction vs arbitrary: ds)
  case (Cons v vs)
  then show ?case using digit_step_canon [OF assms(1-3), of ds v] by simp
qed simp

lemma fold_horner:
  "fold (\<lambda>v a. m * a + v) (map unat ds) a = m ^ length ds * a + dval m (rev ds)"
  by (induction ds arbitrary: a) (auto simp: dval_append algebra_simps)

lemma dval_zeros [simp]: "dval b (replicate n 0) = 0"
  by (induction n) auto

abbreviation zeros_of :: "bytes \<Rightarrow> bytes" where
  "zeros_of xs \<equiv> takeWhile (\<lambda>d. d = 0) xs"

lemma zeros_of_replicate: "zeros_of xs = replicate (length (zeros_of xs)) 0"
  by (induction xs) auto

lemma zeros_of_member: "d \<in> set (zeros_of xs) \<Longrightarrow> d = 0"
  by (auto dest: set_takeWhileD)

lemma dval_strip: "dval b (rev (dropWhile (\<lambda>d. d = 0) xs)) = dval b (rev xs)"
proof -
  have "rev xs = rev (dropWhile (\<lambda>d. d = 0) xs) @ rev (zeros_of xs)"
    by (metis rev_append takeWhile_dropWhile_id)
  also have "dval b \<dots> = dval b (rev (dropWhile (\<lambda>d. d = 0) xs))"
    by (subst zeros_of_replicate) (simp add: dval_append)
  finally show ?thesis by simp
qed

lemma canon_strip:
  assumes "list_all (\<lambda>d. unat d < b) xs"
  shows "canon b (rev (dropWhile (\<lambda>d. d = 0) xs))"
  using assms hd_dropWhile [of "\<lambda>d. d = 0" xs]
  by (auto simp: canon_def list_all_iff last_rev dest: set_dropWhileD)

text \<open>\<open>ys\<close> is the conversion of the digits \<open>xs\<close> from base \<open>b\<close> to base \<open>b'\<close>, most significant first and
  with the leading zeros kept.\<close>

definition converts :: "nat \<Rightarrow> nat \<Rightarrow> bytes \<Rightarrow> bytes \<Rightarrow> bool" where
  "converts b b' xs ys \<longleftrightarrow>
    (\<exists>D. ys = zeros_of xs @ rev D \<and> canon b' D \<and> dval b' D = dval b (rev xs))"

lemma converts_back:
  assumes "converts b b' xs ys" "converts b' b ys zs" "list_all (\<lambda>d. unat d < b) xs"
  shows "zs = xs"
proof -
  obtain D where D: "ys = zeros_of xs @ rev D" "canon b' D" "dval b' D = dval b (rev xs)"
    using assms(1) by (auto simp: converts_def)
  obtain E where E: "zs = zeros_of ys @ rev E" "canon b E" "dval b E = dval b' (rev ys)"
    using assms(2) by (auto simp: converts_def)
  have "zeros_of (rev D) = []"
    using D(2) by (cases D rule: rev_cases) (auto simp: canon_def)
  then have zeros: "zeros_of ys = zeros_of xs"
    unfolding D(1) by (subst takeWhile_append2) (auto dest: set_takeWhileD)
  have "dval b' (rev ys) = dval b' D"
    unfolding D(1) by (subst zeros_of_replicate) (simp add: dval_append)
  then have "E = rev (dropWhile (\<lambda>d. d = 0) xs)"
    using canon_unique [OF E(2) canon_strip [OF assms(3)]] D(3) E(3) by (simp add: dval_strip)
  then show ?thesis
    unfolding E(1) zeros by simp
qed

lemma converts_digits: "converts b b' xs ys \<Longrightarrow> 0 < b' \<Longrightarrow> list_all (\<lambda>d. unat d < b') ys"
  by (auto simp: converts_def canon_def list_all_iff dest!: zeros_of_member)

lemma base58_encode_converts:
  "\<exists>ys. base58_encode data = map (\<lambda>d. kAlphabet ! unat d) ys \<and> converts 256 58 data ys"
proof -
  let ?D = "fold (digit_step 256 58) (map unat data) []"
  have D: "canon 58 ?D" "dval 58 ?D = dval 256 (rev data)"
    using fold_digit_step [of 58 256 "[]" "map unat data"] fold_horner [of 256 data 0]
    by (simp_all add: canon_def)
  have "base58_encode data = map (\<lambda>d. kAlphabet ! unat d) (zeros_of data @ rev ?D)"
    by (auto simp: base58_encode_def Let_def fold_map comp_def kAlphabet_0 dest!: zeros_of_member)
  with D show ?thesis unfolding converts_def by blast
qed

lemma decode_digits_alphabet:
  "list_all (\<lambda>d. unat d < 58) xs \<Longrightarrow>
    decode_digits (map (\<lambda>d. kAlphabet ! unat d) xs) ds = Some (fold (digit_step 58 256) (map unat xs) ds)"
  by (induction xs arbitrary: ds) auto

lemma base58_decode_converts:
  assumes "list_all (\<lambda>d. unat d < 58) xs"
  shows "\<exists>ys. try_base58_decode (map (\<lambda>d. kAlphabet ! unat d) xs) = Some ys \<and> converts 58 256 xs ys"
proof -
  let ?D = "fold (digit_step 58 256) (map unat xs) []"
  have D: "canon 256 ?D" "dval 256 ?D = dval 58 (rev xs)"
    using fold_digit_step [of 256 58 "[]" "map unat xs"] fold_horner [of 58 xs 0]
    by (simp_all add: canon_def)
  have "takeWhile (\<lambda>c. c = CHR ''1'') (map (\<lambda>d. kAlphabet ! unat d) xs)
      = map (\<lambda>d. kAlphabet ! unat d) (zeros_of xs)"
    using assms by (induction xs) (auto simp: kAlphabet_0 unat_eq_0)
  moreover have "map (\<lambda>_. 0) (zeros_of xs) = zeros_of xs" "rev (zeros_of xs) = zeros_of xs"
    by (subst (1 2) zeros_of_replicate, simp)+
  ultimately have "try_base58_decode (map (\<lambda>d. kAlphabet ! unat d) xs) = Some (zeros_of xs @ rev ?D)"
    by (simp add: try_base58_decode_def decode_digits_alphabet [OF assms] comp_def)
  with D show ?thesis unfolding converts_def by blast
qed

lemma decode_digits_valid:
  "decode_digits s ds \<noteq> None \<longleftrightarrow> list_all (\<lambda>c. 0 \<le> kReverse c) s"
  by (induction s ds rule: decode_digits.induct) (auto simp: Let_def not_less)

lemma valid_base58_digits:
  assumes "list_all (\<lambda>c. 0 \<le> kReverse c) s"
  shows "\<exists>xs :: bytes. s = map (\<lambda>d. kAlphabet ! unat d) xs \<and> list_all (\<lambda>d. unat d < 58) xs"
  using assms
proof (induction s)
  case (Cons c s)
  then have "\<exists>xs :: bytes. s = map (\<lambda>d. kAlphabet ! unat d) xs \<and> list_all (\<lambda>d. unat d < 58) xs"
    by simp
  then obtain xs :: bytes where "s = map (\<lambda>d. kAlphabet ! unat d) xs" "list_all (\<lambda>d. unat d < 58) xs"
    by blast
  moreover have "unat (word_of_nat (nat (kReverse c)) :: u8) = nat (kReverse c)"
    using kAlphabet_kReverse(1) [of c] Cons.prems
    by (simp only: unat_of_nat take_bit_nat_eq_self) (simp add: nat_less_iff)
  ultimately show ?case
    using kAlphabet_kReverse [of c] Cons.prems
    by (intro exI [of _ "word_of_nat (nat (kReverse c)) # xs"]) simp
qed simp

lemma try_base58_decode_encode: "try_base58_decode (base58_encode data) = Some data"
proof -
  obtain ys where ys: "base58_encode data = map (\<lambda>d. kAlphabet ! unat d) ys" "converts 256 58 data ys"
    using base58_encode_converts by blast
  then have "list_all (\<lambda>d. unat d < 58) ys" by (auto intro: converts_digits)
  then obtain zs where "try_base58_decode (base58_encode data) = Some zs" "converts 58 256 ys zs"
    using base58_decode_converts [of ys] ys(1) by auto
  moreover from this have "zs = data"
    using converts_back [OF ys(2)] by (simp add: list_all_iff)
  ultimately show ?thesis by simp
qed

lemma base58_encode_decode: "try_base58_decode s = Some data \<Longrightarrow> base58_encode data = s"
proof -
  assume dec: "try_base58_decode s = Some data"
  then have "list_all (\<lambda>c. 0 \<le> kReverse c) s"
    using decode_digits_valid [of s "[]"] by (auto simp: try_base58_decode_def split: option.splits)
  then obtain xs :: bytes where xs: "s = map (\<lambda>d. kAlphabet ! unat d) xs" "list_all (\<lambda>d. unat d < 58) xs"
    using valid_base58_digits by blast
  then have "converts 58 256 xs data"
    using base58_decode_converts [OF xs(2)] dec by simp
  moreover obtain ys where "base58_encode data = map (\<lambda>d. kAlphabet ! unat d) ys" "converts 256 58 data ys"
    using base58_encode_converts by blast
  ultimately show ?thesis
    using converts_back xs by metis
qed

text \<open>C28: base58 is a bijection: decoding inverts encoding on every byte string, every string that
  decodes is the encoding of the result, and decoding fails exactly on a foreign character.\<close>

theorem base58_bijection:
  "try_base58_decode (base58_encode data) = Some data
   \<and> (try_base58_decode s = Some d \<longleftrightarrow> base58_encode d = s)
   \<and> (try_base58_decode s = None \<longleftrightarrow> (\<exists>c \<in> set s. kReverse c < 0))"
proof (intro conjI)
  show "try_base58_decode s = None \<longleftrightarrow> (\<exists>c \<in> set s. kReverse c < 0)"
    using decode_digits_valid [of s "[]"]
    by (auto simp: try_base58_decode_def list_all_iff not_less split: option.splits)
qed (auto simp: try_base58_decode_encode base58_encode_decode)

lemma try_base58check_decode_iff:
  "try_base58check_decode s = Some payload \<longleftrightarrow> s = base58check_encode payload"
proof
  assume "try_base58check_decode s = Some payload"
  then obtain full where full: "try_base58_decode s = Some full" "4 \<le> length full"
    "payload = take (length full - 4) full" "drop (length full - 4) full = take 4 (sha256d payload)"
    by (auto simp: try_base58check_decode_def Let_def split: option.splits if_splits)
  then have "full = payload @ take 4 (sha256d payload)" by (metis append_take_drop_id)
  with base58_encode_decode [OF full(1)] show "s = base58check_encode payload"
    by (simp add: base58check_encode_def)
next
  assume "s = base58check_encode payload"
  then show "try_base58check_decode s = Some payload"
    by (simp add: base58check_encode_def try_base58check_decode_def try_base58_decode_encode Let_def)
qed

text \<open>Base58check decoding accepts exactly the base58check encodings, so a string with a wrong
  checksum is rejected and the payload is recovered unchanged.\<close>

theorem base58check_exact:
  "try_base58check_decode s = Some payload \<longleftrightarrow> s = base58check_encode payload"
  by (rule try_base58check_decode_iff)

end
