(* ===== verification/Bech32.thy ===== *)
theory Bech32
  imports Endian
begin

text \<open>
  \<^verbatim>\<open>src/src/util/bech32.cpp\<close>: bech32 and bech32m (BIP 173, BIP 350) and segwit addresses. The checksum
  is analysed through the linearity of \<^verbatim>\<open>polymod\<close> over XOR, the regrouping of bits through the bit
  strings the groups denote. Together they give that segwit decoding accepts exactly the encodings.
\<close>

definition kCharset :: string where
  "kCharset = ''qpzry9x8gf2tvdw0s3jn54khce6mua7l''"

datatype Encoding = Invalid | Bech32 | Bech32m

definition kBech32Const :: u32 where
  "kBech32Const = 1"

definition kBech32mConst :: u32 where
  "kBech32mConst = 0x2bc830a3"

definition generator :: "u32 list" where
  "generator = [0x3b6a57b2, 0x26508e6d, 0x1ea119fa, 0x3d4233dd, 0x2a1462b3]"

text \<open>The body of the loop of \<^verbatim>\<open>polymod\<close>.\<close>

definition polymod_step :: "u32 \<Rightarrow> u8 \<Rightarrow> u32" where
  "polymod_step checksum val =
    (let top_bits = (ucast (drop_bit 25 checksum) :: u8);
         checksum = push_bit 5 (checksum AND 0x1ffffff) XOR ucast val
     in fold (\<lambda>i c. if drop_bit i top_bits AND 1 \<noteq> 0 then c XOR generator ! i else c) [0..<5] checksum)"

definition polymod :: "bytes \<Rightarrow> u32" where
  "polymod vals = fold (\<lambda>val checksum. polymod_step checksum val) vals 1"

definition hrp_expand :: "string \<Rightarrow> bytes" where
  "hrp_expand hrp =
    map (\<lambda>c. drop_bit 5 (byte_of_char c)) hrp @ [0] @ map (\<lambda>c. byte_of_char c AND 31) hrp"

definition checksum_constant :: "Encoding \<Rightarrow> u32" where
  "checksum_constant encoding = (if encoding = Bech32m then kBech32mConst else kBech32Const)"

definition verify_checksum :: "string \<Rightarrow> bytes \<Rightarrow> Encoding" where
  "verify_checksum hrp data =
    (let residue = polymod (hrp_expand hrp @ data)
     in if residue = kBech32Const then Bech32
        else if residue = kBech32mConst then Bech32m else Invalid)"

definition create_checksum :: "string \<Rightarrow> bytes \<Rightarrow> Encoding \<Rightarrow> bytes" where
  "create_checksum hrp data encoding =
    (let residue = polymod (hrp_expand hrp @ data @ replicate 6 0) XOR checksum_constant encoding
     in map (\<lambda>i. ucast (drop_bit (5 * (5 - i)) residue AND 31)) [0..<6])"

fun charset_index_loop :: "nat \<Rightarrow> string \<Rightarrow> char \<Rightarrow> int" where
  "charset_index_loop i [] c = - 1"
| "charset_index_loop i (x # xs) c = (if x = c then int i else charset_index_loop (Suc i) xs c)"

definition charset_index :: "char \<Rightarrow> int" where
  "charset_index c = charset_index_loop 0 kCharset c"

text \<open>\<^verbatim>\<open>convertbits\<close>: the inner \<^verbatim>\<open>while\<close>, the loop over the input, and the final padding step.\<close>

fun emit_loop :: "nat \<Rightarrow> u32 \<Rightarrow> nat \<Rightarrow> bytes \<Rightarrow> nat \<times> bytes" where
  "emit_loop tobits accumulator bits out =
    (if 0 < tobits \<and> tobits \<le> bits then
       emit_loop tobits accumulator (bits - tobits)
         (out @ [ucast (drop_bit (bits - tobits) accumulator AND (push_bit tobits 1 - 1))])
     else (bits, out))"

declare emit_loop.simps [simp del]

fun convertbits_loop :: "nat \<Rightarrow> nat \<Rightarrow> bytes \<Rightarrow> u32 \<Rightarrow> nat \<Rightarrow> bytes \<Rightarrow> (u32 \<times> nat \<times> bytes) option" where
  "convertbits_loop frombits tobits [] accumulator bits out = Some (accumulator, bits, out)"
| "convertbits_loop frombits tobits (val # inp) accumulator bits out =
    (if drop_bit frombits val \<noteq> 0 then None
     else let accumulator = (push_bit frombits accumulator OR ucast val) AND (push_bit (frombits + tobits - 1) 1 - 1);
              (bits, out) = emit_loop tobits accumulator (bits + frombits) out
          in convertbits_loop frombits tobits inp accumulator bits out)"

definition convertbits :: "bytes \<Rightarrow> nat \<Rightarrow> nat \<Rightarrow> bool \<Rightarrow> bytes option" where
  "convertbits inp frombits tobits pad =
    (case convertbits_loop frombits tobits inp 0 0 [] of
      None \<Rightarrow> None
    | Some (accumulator, bits, out) \<Rightarrow>
        let rest = push_bit (tobits - bits) accumulator AND (push_bit tobits 1 - 1)
        in if pad then (if bits \<noteq> 0 then Some (out @ [ucast rest]) else Some out)
           else if bits \<ge> frombits \<or> rest \<noteq> 0 then None else Some out)"

record Decoded =
  dec_hrp :: string
  dec_data :: bytes
  dec_encoding :: Encoding

definition is_lower :: "char \<Rightarrow> bool" where
  "is_lower c \<longleftrightarrow> 97 \<le> (of_char c :: nat) \<and> (of_char c :: nat) \<le> 122"

definition is_upper :: "char \<Rightarrow> bool" where
  "is_upper c \<longleftrightarrow> 65 \<le> (of_char c :: nat) \<and> (of_char c :: nat) \<le> 90"

definition to_lower :: "char \<Rightarrow> char" where
  "to_lower c = (if is_upper c then char_of (of_char c + 32 :: nat) else c)"

fun rfind :: "char \<Rightarrow> string \<Rightarrow> nat option" where
  "rfind c [] = None"
| "rfind c (x # xs) =
    (case rfind c xs of Some i \<Rightarrow> Some (Suc i) | None \<Rightarrow> if x = c then Some 0 else None)"

fun charset_indices :: "string \<Rightarrow> bytes option" where
  "charset_indices [] = Some []"
| "charset_indices (c # cs) =
    (if charset_index c < 0 then None
     else case charset_indices cs of None \<Rightarrow> None | Some is \<Rightarrow> Some (word_of_int (charset_index c) # is))"

text \<open>\<^verbatim>\<open>char\<close> is signed, so the test \<^verbatim>\<open>c < 33 || c > 126\<close> also rejects the bytes from 128 on.\<close>

definition bech32_decode :: "string \<Rightarrow> Decoded option" where
  "bech32_decode input =
    (if length input < 8 \<or> length input > 90 then None
     else if \<exists>c \<in> set input. (of_char c :: nat) < 33 \<or> (of_char c :: nat) > 126 then None
     else if (\<exists>c \<in> set input. is_lower c) \<and> (\<exists>c \<in> set input. is_upper c) then None
     else let lowered = map to_lower input
       in case rfind CHR ''1'' lowered of
         None \<Rightarrow> None
       | Some separator \<Rightarrow>
           if separator = 0 \<or> separator + 7 > length lowered then None
           else case charset_indices (drop (separator + 1) lowered) of
             None \<Rightarrow> None
           | Some data \<Rightarrow>
               let hrp = take separator lowered; encoding = verify_checksum hrp data
               in if encoding = Invalid then None
                  else Some \<lparr>dec_hrp = hrp, dec_data = take (length data - 6) data, dec_encoding = encoding\<rparr>)"

record WitnessProgram =
  wp_version :: int
  wp_program :: bytes

definition segwit_address_decode :: "string \<Rightarrow> string \<Rightarrow> WitnessProgram option" where
  "segwit_address_decode hrp address =
    (case bech32_decode address of
      None \<Rightarrow> None
    | Some decoded \<Rightarrow>
        if dec_hrp decoded \<noteq> hrp \<or> dec_data decoded = [] then None
        else let version = uint (hd (dec_data decoded))
          in if version > 16 then None
             else case convertbits (tl (dec_data decoded)) 5 8 False of
               None \<Rightarrow> None
             | Some program \<Rightarrow>
                 if length program < 2 \<or> length program > 40 then None
                 else if version = 0 then
                   (if length program \<noteq> 20 \<and> length program \<noteq> 32 then None
                    else if dec_encoding decoded \<noteq> Bech32 then None
                    else Some \<lparr>wp_version = version, wp_program = program\<rparr>)
                 else if dec_encoding decoded \<noteq> Bech32m then None
                 else Some \<lparr>wp_version = version, wp_program = program\<rparr>)"

definition segwit_address_encode :: "string \<Rightarrow> int \<Rightarrow> bytes \<Rightarrow> string result" where
  "segwit_address_encode hrp version program =
    (if version < 0 \<or> version > 16 then Inl (Invalid_argument ''segwit: version out of range'')
     else if length program < 2 \<or> length program > 40 then
       Inl (Invalid_argument ''segwit: program length out of range'')
     else case convertbits program 8 5 True of
       None \<Rightarrow> Inl (Invalid_argument ''segwit: program could not be base32-encoded'')
     | Some converted \<Rightarrow>
         let data = word_of_int version # converted;
             encoding = (if version = 0 then Bech32 else Bech32m);
             checksum = create_checksum hrp data encoding
         in Inr (hrp @ ''1'' @ map (\<lambda>v. kCharset ! unat v) data @ map (\<lambda>v. kCharset ! unat v) checksum))"

section \<open>Linearity of the checksum\<close>

definition gen_mix :: "u8 \<Rightarrow> u32" where
  "gen_mix t = (if bit t 0 then 0x3b6a57b2 else 0) XOR (if bit t 1 then 0x26508e6d else 0)
     XOR (if bit t 2 then 0x1ea119fa else 0) XOR (if bit t 3 then 0x3d4233dd else 0)
     XOR (if bit t 4 then 0x2a1462b3 else 0)"

lemma drop_bit_and_1: "drop_bit i (w :: 'a :: len word) AND 1 \<noteq> 0 \<longleftrightarrow> bit w i"
  by (simp add: bit_iff_odd_drop_bit and_one_eq odd_iff_mod_2_eq_one)

lemma polymod_step_mix:
  "polymod_step c v = push_bit 5 (c AND 0x1ffffff) XOR ucast v XOR gen_mix (ucast (drop_bit 25 c))"
proof -
  have five: "[0..<5] = [0, 1, 2, 3, 4]" by (simp add: upt_rec)
  show ?thesis
    unfolding polymod_step_def five Let_def gen_mix_def drop_bit_and_1
    by (simp add: generator_def xor.assoc)
qed

lemma gen_mix_xor: "gen_mix (s XOR t) = gen_mix s XOR gen_mix t"
proof -
  have "(if bit (s XOR t) i then g else 0) = (if bit s i then g else 0) XOR (if bit t i then g else (0 :: u32))"
    for i g by (simp add: bit_xor_iff)
  then show ?thesis
    unfolding gen_mix_def by (simp only: xor.assoc xor.left_commute xor.commute)
qed

lemma polymod_step_xor: "polymod_step (c XOR d) (v XOR w) = polymod_step c v XOR polymod_step d w"
proof -
  have "(c XOR d) AND m = (c AND m) XOR (d AND m)" for m :: u32
    by (rule bit_word_eqI) (auto simp: bit_simps)
  moreover have "(ucast (drop_bit 25 (c XOR d)) :: u8) = ucast (drop_bit 25 c) XOR ucast (drop_bit 25 d)"
    by (rule bit_word_eqI) (auto simp: bit_simps)
  moreover have "(ucast (v XOR w) :: u32) = ucast v XOR ucast w"
    by (rule bit_word_eqI) (auto simp: bit_simps)
  ultimately show ?thesis
    unfolding polymod_step_mix by (simp add: gen_mix_xor xor.assoc xor.left_commute xor.commute)
qed


text \<open>Feeding symbols into a checksum state.\<close>

definition run :: "u32 \<Rightarrow> bytes \<Rightarrow> u32" where
  "run c vals = fold (\<lambda>val checksum. polymod_step checksum val) vals c"

lemma run_simps [simp]: "run c [] = c" "run c (v # vs) = run (polymod_step c v) vs"
  "run c (us @ vs) = run (run c us) vs"
  by (simp_all add: run_def)

lemma polymod_run: "polymod vals = run 1 vals"
  by (simp add: polymod_def run_def)

lemma run_xor: "length vs = length ws \<Longrightarrow> run (c XOR d) (map2 (XOR) vs ws) = run c vs XOR run d ws"
  by (induction vs ws arbitrary: c d rule: list_induct2) (simp_all add: polymod_step_xor)

lemma run_split: "run c vs = run c (replicate (length vs) 0) XOR run 0 vs"
proof -
  have "map2 (XOR) (replicate (length vs) 0) vs = vs"
    by (induction vs) auto
  then show ?thesis
    using run_xor [of "replicate (length vs) 0" vs c 0] by simp
qed

lemma gen_mix_0 [simp]: "gen_mix 0 = 0"
  by (simp add: gen_mix_def)

lemma mask_25: "(0x1ffffff :: u32) = mask 25"
  by (simp add: mask_eq_exp_minus_1)

lemma polymod_step_small:
  assumes "n < 2 ^ 25" "unat v < 32"
  shows "polymod_step (word_of_nat n) v = word_of_nat (32 * n + unat v)"
proof -
  let ?c = "word_of_nat n :: u32"
  have n: "unat ?c = n" using assms by (simp add: unat_of_nat take_bit_nat_eq_self)
  have low: "?c AND 0x1ffffff = ?c"
    unfolding mask_25 using assms(1) by (simp add: word_unat_eq_iff unat_and_mask n)
  have "unat (drop_bit 25 ?c) = 0"
    using assms(1) by (simp only: unat_drop_bit_div n) simp
  then have top: "drop_bit 25 ?c = 0" by (simp add: unat_eq_0)
  have "take_bit 5 v = v"
    using assms(2) by (simp add: word_unat_eq_iff unat_take_bit_mod)
  then have "\<not> bit v k" if "5 \<le> k" for k
    using that by (metis bit_take_bit_iff linorder_not_le)
  then have "push_bit 5 ?c AND ucast v = 0"
    by (intro bit_word_eqI) (auto simp: bit_simps)
  then have "push_bit 5 ?c XOR ucast v = push_bit 5 ?c + ucast v"
    by (simp add: disjunctive_add_eq_xor)
  then show ?thesis
    unfolding polymod_step_mix low top by (simp add: push_bit_eq_mult mult.commute)
qed

text \<open>The number a symbol string denotes in base 32.\<close>

definition horner32 :: "bytes \<Rightarrow> nat \<Rightarrow> nat" where
  "horner32 vs n = fold (\<lambda>v a. 32 * a + unat v) vs n"

lemma horner32_simps [simp]: "horner32 [] n = n" "horner32 (v # vs) n = horner32 vs (32 * n + unat v)"
  by (simp_all add: horner32_def)

lemma run_small:
  "32 ^ length vs * Suc n \<le> 2 ^ 30 \<Longrightarrow> list_all (\<lambda>v. unat v < 32) vs \<Longrightarrow>
    run (word_of_nat n) vs = word_of_nat (horner32 vs n)"
proof (induction vs arbitrary: n)
  case (Cons v vs)
  have v: "unat v < 32" using Cons.prems by simp
  have "32 ^ length vs * Suc (32 * n + unat v) \<le> 32 ^ length vs * (32 * Suc n)"
    using v by (intro mult_le_mono2) simp
  also have "\<dots> \<le> 2 ^ 30" using Cons.prems(1) by (simp add: algebra_simps)
  finally have IH: "run (word_of_nat (32 * n + unat v)) vs = word_of_nat (horner32 vs (32 * n + unat v))"
    by (intro Cons.IH) (use Cons.prems in simp_all)
  have "32 * Suc n \<le> 32 ^ length (v # vs) * Suc n"
    by (rule mult_le_mono1) (simp add: Suc_le_eq)
  with Cons.prems(1) have "n < 2 ^ 25" by simp
  with IH v show ?case by (simp add: polymod_step_small del: of_nat_add of_nat_mult)
qed simp

lemma horner32_less: "list_all (\<lambda>v. unat v < 32) vs \<Longrightarrow> horner32 vs n < 32 ^ length vs * Suc n"
proof (induction vs arbitrary: n)
  case (Cons v vs)
  then have "horner32 vs (32 * n + unat v) < 32 ^ length vs * Suc (32 * n + unat v)" by simp
  also have "\<dots> \<le> 32 ^ length vs * (32 * Suc n)"
    using Cons.prems by (intro mult_le_mono2) simp
  finally show ?case by (simp add: algebra_simps)
qed simp

lemma horner32_inj:
  "\<lbrakk>length vs = length ws; list_all (\<lambda>v. unat v < 32) vs; list_all (\<lambda>v. unat v < 32) ws;
    horner32 vs m = horner32 ws n\<rbrakk> \<Longrightarrow> vs = ws \<and> m = n"
proof (induction vs ws arbitrary: m n rule: list_induct2)
  case (Cons v vs w ws)
  then have eq: "vs = ws" "32 * m + unat v = 32 * n + unat w" by simp_all
  then have "(32 * m + unat v) mod 32 = (32 * n + unat w) mod 32" by simp
  with Cons.prems have "unat v = unat w" by simp
  with eq show ?case by (simp add: word_unat_eq_iff)
qed simp

lemma run_0_inj:
  assumes "length vs = 6" "length ws = 6" "list_all (\<lambda>v. unat v < 32) vs" "list_all (\<lambda>v. unat v < 32) ws"
    "run 0 vs = run 0 ws"
  shows "vs = ws"
proof -
  have "word_of_nat (horner32 vs 0) = (word_of_nat (horner32 ws 0) :: u32)"
    using assms run_small [of vs 0] run_small [of ws 0] by simp
  moreover have "horner32 vs 0 < 2 ^ 30" "horner32 ws 0 < 2 ^ 30"
    using horner32_less [of vs 0] horner32_less [of ws 0] assms by simp_all
  ultimately have "horner32 vs 0 = horner32 ws 0"
    by (simp add: word_of_nat_eq_iff take_bit_nat_eq_self)
  then show ?thesis using horner32_inj [of vs ws 0 0] assms by simp
qed

lemma take_bit_30_step: "take_bit 30 (polymod_step c v) = polymod_step c v"
proof -
  have gens: "take_bit 30 (if b then g else 0) = (if b then g else (0 :: u32))" if "take_bit 30 g = g" for b g
    using that by simp
  have "take_bit 30 (push_bit 5 (c AND 0x1ffffff)) = push_bit 5 (c AND 0x1ffffff)"
    unfolding mask_25 by (rule bit_word_eqI) (auto simp: bit_simps)
  moreover have "take_bit 30 (ucast v :: u32) = ucast v"
    by (rule bit_word_eqI) (auto simp: bit_simps dest: bit_imp_le_length)
  moreover have "take_bit 30 (gen_mix t) = gen_mix t" for t
    unfolding gen_mix_def take_bit_xor by (subst (1 2 3 4 5) gens) (simp_all add: take_bit_word_eq_self)
  ultimately show ?thesis
    unfolding polymod_step_mix take_bit_xor by simp
qed

lemma take_bit_30_run: "vs \<noteq> [] \<Longrightarrow> take_bit 30 (run c vs) = run c vs"
  by (induction vs rule: rev_induct) (simp_all add: take_bit_30_step)

lemma horner32_digits:
  assumes "r < 2 ^ 30"
  shows "horner32 (map (\<lambda>i. word_of_nat (r div 2 ^ (5 * (5 - i)) mod 32)) [0..<6]) 0 = r"
proof -
  have six: "map (\<lambda>i. word_of_nat (r div 2 ^ (5 * (5 - i)) mod 32) :: u8) [0..<6] =
      [word_of_nat (r div 33554432 mod 32), word_of_nat (r div 1048576 mod 32),
       word_of_nat (r div 32768 mod 32), word_of_nat (r div 1024 mod 32),
       word_of_nat (r div 32 mod 32), word_of_nat (r mod 32)]"
    by (simp add: upt_rec)
  have digit: "unat (word_of_nat (x mod 32) :: u8) = x mod 32" for x
  proof -
    have "x mod 32 < 256" by (rule less_trans [of _ 32]) simp_all
    then show ?thesis by (simp add: unat_of_nat take_bit_nat_eq_self)
  qed
  have fold_up: "32 * (x div (k * 32)) + x div k mod 32 = x div k" for x k :: nat
    by (simp add: div_mult2_eq)
  have "r div 33554432 mod 32 = r div 33554432"
    using assms by (simp add: less_mult_imp_div_less)
  moreover have "32 * (r div 33554432) + r div 1048576 mod 32 = r div 1048576"
    "32 * (r div 1048576) + r div 32768 mod 32 = r div 32768"
    "32 * (r div 32768) + r div 1024 mod 32 = r div 1024"
    "32 * (r div 1024) + r div 32 mod 32 = r div 32" "32 * (r div 32) + r mod 32 = r"
    using fold_up [where x = r and k = 1048576] fold_up [where x = r and k = 32768]
      fold_up [where x = r and k = 1024] fold_up [where x = r and k = 32] by simp_all
  ultimately show ?thesis
    unfolding six horner32_simps digit mult_0_right add_0 by (simp only:)
qed

lemma run_0_digits:
  assumes "take_bit 30 r = r"
  shows "run 0 (map (\<lambda>i. ucast (drop_bit (5 * (5 - i)) r AND 31)) [0..<6]) = r"
proof -
  let ?vs = "map (\<lambda>i. word_of_nat (unat r div 2 ^ (5 * (5 - i)) mod 32) :: u8) [0..<6]"
  have mask: "(31 :: u32) = mask 5" by (simp add: mask_eq_exp_minus_1)
  have digits: "(ucast (drop_bit k r AND 31) :: u8) = word_of_nat (unat r div 2 ^ k mod 32)" for k
  proof -
    have "(ucast (drop_bit k r AND 31) :: u8) = word_of_nat (unat (drop_bit k r AND 31))" by simp
    also have "unat (drop_bit k r AND 31) = unat r div 2 ^ k mod 32"
      unfolding mask by (simp only: unat_and_mask unat_drop_bit_div) simp
    finally show ?thesis .
  qed
  have "unat (take_bit 30 r) < 2 ^ 30" by (simp add: unat_take_bit_mod)
  then have r: "unat r < 2 ^ 30" by (simp only: assms)
  have "list_all (\<lambda>v. unat v < 32) ?vs"
    by (auto simp: list_all_iff unat_of_nat intro: le_less_trans [OF mod_less_eq_dividend])
  then have "run (word_of_nat 0) ?vs = word_of_nat (horner32 ?vs 0)"
    by (intro run_small) simp_all
  then show ?thesis
    unfolding digits using horner32_digits [OF r] by simp
qed

lemma polymod_append: "polymod (xs @ ys) = run (polymod xs) ys"
  by (simp add: polymod_run)

lemma xor_cancel_left: "(a XOR b = a XOR c) \<longleftrightarrow> b = (c :: 'a :: len word)"
  by (metis xor.assoc xor_self_eq xor.left_neutral)

lemma xor_eq_0_iff: "a XOR b = 0 \<longleftrightarrow> a = (b :: 'a :: len word)"
  using xor_cancel_left [of a b a] by auto

lemma create_checksum_polymod:
  "polymod (hrp_expand hrp @ data @ create_checksum hrp data encoding) = checksum_constant encoding"
proof -
  let ?S = "polymod (hrp_expand hrp @ data)" and ?k = "checksum_constant encoding"
  let ?r = "run ?S (replicate 6 0) XOR ?k"
  have "take_bit 30 ?k = ?k"
    by (simp add: checksum_constant_def kBech32Const_def kBech32mConst_def)
  then have "take_bit 30 ?r = ?r"
    using take_bit_30_run [of "replicate 6 0"] by simp
  moreover have chk: "create_checksum hrp data encoding
      = map (\<lambda>i. ucast (drop_bit (5 * (5 - i)) ?r AND 31)) [0..<6]"
    by (simp add: create_checksum_def Let_def polymod_append flip: append_assoc)
  ultimately have "run 0 (create_checksum hrp data encoding) = ?r"
    by (simp only: run_0_digits)
  moreover have "polymod (hrp_expand hrp @ data @ create_checksum hrp data encoding)
      = run ?S (create_checksum hrp data encoding)"
    by (simp add: polymod_append flip: append_assoc)
  moreover have "length (create_checksum hrp data encoding) = 6"
    by (simp add: create_checksum_def Let_def)
  ultimately show ?thesis
    using run_split [of ?S "create_checksum hrp data encoding"]
    by (simp add: xor.assoc [symmetric] del: xor.assoc)
qed

lemma create_checksum_symbols:
  "length (create_checksum hrp data encoding) = 6
   \<and> list_all (\<lambda>v. unat v < 32) (create_checksum hrp data encoding)"
proof -
  have "unat (ucast (w AND 31 :: u32) :: u8) < 32" for w
  proof -
    have "unat (w AND 31) < 32"
      using unat_and_mask [of w 5] by (simp add: mask_eq_exp_minus_1)
    then show ?thesis by (subst unat_ucast_small) simp_all
  qed
  then show ?thesis by (simp add: create_checksum_def Let_def list_all_iff)
qed

lemma checksum_unique:
  assumes "polymod (hrp_expand hrp @ data @ chk) = checksum_constant encoding"
    "length chk = 6" "list_all (\<lambda>v. unat v < 32) chk"
  shows "chk = create_checksum hrp data encoding"
proof -
  let ?S = "polymod (hrp_expand hrp @ data)" and ?new = "create_checksum hrp data encoding"
  have "run ?S chk = run ?S ?new"
    using assms(1) create_checksum_polymod [of hrp data encoding] by (simp add: polymod_run)
  then have "run 0 chk = run 0 ?new"
    using run_split [of ?S chk] run_split [of ?S ?new] assms(2) create_checksum_symbols [of hrp data encoding]
    by (simp add: xor_cancel_left)
  then show ?thesis
    using run_0_inj [of chk ?new] assms create_checksum_symbols [of hrp data encoding] by simp
qed

lemma verify_checksum_iff:
  "verify_checksum hrp data = e \<and> e \<noteq> Invalid \<longleftrightarrow>
    e \<noteq> Invalid \<and> polymod (hrp_expand hrp @ data) = checksum_constant e"
  by (cases e) (auto simp: verify_checksum_def Let_def checksum_constant_def kBech32Const_def kBech32mConst_def)

section \<open>Detection of a changed symbol\<close>

lemma gen_mix_low:
  assumes "unat t < 32" "gen_mix t AND 31 = 0"
  shows "t = 0"
proof -
  have "t = word_of_nat (unat t)" by simp
  moreover have "unat t \<in> set [0..<32]" using assms(1) by simp
  moreover have "\<forall>n \<in> set [0..<32]. gen_mix (word_of_nat n) AND 31 = 0 \<longrightarrow> n = 0"
    by (simp add: upt_rec gen_mix_def)
  ultimately show ?thesis using assms(2) by (metis unat_eq_0)
qed

lemma polymod_step_0:
  assumes "take_bit 30 d = d" "polymod_step d 0 = 0"
  shows "d = 0"
proof -
  let ?t = "ucast (drop_bit 25 d) :: u8"
  have "unat d < 2 ^ 30"
    using assms(1) unat_take_bit_mod [of 30 d] by (metis mod_less_divisor zero_less_numeral zero_less_power)
  then have "unat (drop_bit 25 d) < 32"
    by (simp add: unat_drop_bit_div less_mult_imp_div_less)
  then have t: "unat ?t = unat (drop_bit 25 d)" "unat ?t < 32"
    by (simp_all add: unat_ucast_small)
  have "gen_mix ?t = push_bit 5 (d AND 0x1ffffff)"
    using assms(2) unfolding polymod_step_mix by (simp add: xor_eq_0_iff)
  moreover have "push_bit 5 x AND mask 5 = 0" for x :: u32
    by (rule bit_word_eqI) (auto simp: bit_simps)
  moreover have "(31 :: u32) = mask 5"
    by (simp add: mask_eq_exp_minus_1)
  ultimately have "gen_mix ?t AND 31 = 0"
    by (simp only:)
  then have "?t = 0"
    using gen_mix_low [OF t(2)] by simp
  with t(1) have top: "drop_bit 25 d = 0" by (simp add: unat_eq_0)
  with assms(2) have "push_bit 5 (d AND mask 25) = 0" by (simp add: polymod_step_mix mask_25)
  show ?thesis
  proof (rule bit_word_eqI)
    fix n assume n: "n < LENGTH(32)"
    show "bit d n \<longleftrightarrow> bit (0 :: u32) n"
    proof (cases "n < 25")
      case True
      then have "bit d n \<longleftrightarrow> bit (push_bit 5 (d AND mask 25)) (n + 5)"
        by (auto simp: bit_simps)
      then show ?thesis using \<open>push_bit 5 (d AND mask 25) = 0\<close> by simp
    next
      case False
      then have "bit d n \<longleftrightarrow> bit (drop_bit 25 d) (n - 25)" by (simp add: bit_drop_bit_eq)
      then show ?thesis using top by simp
    qed
  qed
qed

lemma run_0_zeros: "take_bit 30 d = d \<Longrightarrow> run d (replicate n 0) = 0 \<Longrightarrow> d = 0"
  by (induction n arbitrary: d) (auto dest: polymod_step_0 simp: take_bit_30_step)


lemmas polymod_eval = verify_checksum_def polymod_def polymod_step_def generator_def hrp_expand_def
  kBech32Const_def kBech32mConst_def byte_of_char_def

lemma upt_5: "[0..<5] = [0, 1, 2, 3, 4]"
  by (simp add: upt_rec)


section \<open>Regrouping bits\<close>

text \<open>The \<open>n\<close> low bits of a value, most significant first.\<close>

definition bits_of :: "nat \<Rightarrow> 'a :: len word \<Rightarrow> bool list" where
  "bits_of n v = map (bit v) (rev [0..<n])"

lemma length_bits_of [simp]: "length (bits_of n v) = n"
  by (simp add: bits_of_def)

lemma nth_bits_of: "i < n \<Longrightarrow> bits_of n v ! i = bit v (n - 1 - i)"
  by (simp add: bits_of_def rev_nth)

lemma bits_of_0 [simp]: "bits_of 0 v = []"
  by (simp add: bits_of_def)

lemma bits_of_inj:
  assumes "bits_of n v = bits_of n w" "take_bit n v = v" "take_bit n w = w"
  shows "v = (w :: 'a :: len word)"
proof -
  have "bit v k = bit w k" if "k < n" for k
    using arg_cong [OF assms(1), of "\<lambda>xs. xs ! (n - 1 - k)"] that by (simp add: nth_bits_of)
  then have "take_bit n v = take_bit n w"
    by (intro bit_word_eqI) (auto simp: bit_simps)
  then show ?thesis by (metis assms(2,3))
qed

lemma concat_bits_inj:
  assumes "length xs = length ys" "\<And>x. x \<in> set xs \<union> set ys \<Longrightarrow> take_bit n x = x"
    "concat (map (bits_of n) xs) @ p = concat (map (bits_of n) ys) @ q" "length p = length q"
  shows "xs = (ys :: 'a :: len word list) \<and> p = q"
  using assms
proof (induction xs ys rule: list_induct2)
  case (Cons x xs y ys)
  from Cons.prems(2) have eq: "bits_of n x = bits_of n y"
    "concat (map (bits_of n) xs) @ p = concat (map (bits_of n) ys) @ q"
    by (simp_all add: append_eq_append_conv)
  have "x = y"
    by (rule bits_of_inj [OF eq(1)]) (use Cons.prems(1) in auto)
  moreover have "xs = ys \<and> p = q"
    by (rule Cons.IH [OF _ eq(2) Cons.prems(3)]) (use Cons.prems(1) in auto)
  ultimately show ?case by simp
qed simp

lemma length_concat_bits [simp]: "length (concat (map (bits_of n) xs)) = n * length xs"
  by (induction xs) auto

lemma bits_of_add: "bits_of (m + n) v = bits_of m (drop_bit n v) @ bits_of n v"
proof (rule nth_equalityI)
  fix i assume "i < length (bits_of (m + n) v)"
  then have i: "i < m + n" by simp
  have "n + (m - 1 - i) = m + n - 1 - i" if "i < m" using that by linarith
  moreover have "n - 1 - (i - m) = m + n - 1 - i" if "\<not> i < m" using that i by linarith
  ultimately show "bits_of (m + n) v ! i = (bits_of m (drop_bit n v) @ bits_of n v) ! i"
    using i by (cases "i < m") (simp_all add: nth_append nth_bits_of bit_drop_bit_eq)
qed simp

lemma push_bit_1_mask: "push_bit n 1 - 1 = (mask n :: 'a :: len word)"
  by (simp add: mask_eq_exp_minus_1 push_bit_of_1)

lemma bits_of_mask: "bits_of n (v AND mask n) = bits_of n (v :: 'a :: len word)"
  by (rule nth_equalityI) (auto simp: nth_bits_of bit_simps dest: bit_imp_le_length)

lemma bits_of_ucast: "n \<le> 8 \<Longrightarrow> bits_of n (ucast (v :: u32) :: u8) = bits_of n v"
  by (rule nth_equalityI) (auto simp: nth_bits_of bit_simps)

lemma bits_of_ucast_up: "n \<le> 8 \<Longrightarrow> bits_of n (ucast (v :: u8) :: u32) = bits_of n v"
  by (rule nth_equalityI) (auto simp: nth_bits_of bit_simps)

lemma emit_loop_bits:
  assumes "0 < tobits" "tobits \<le> 8"
  shows "\<exists>bits' out'. emit_loop tobits acc bits out = (bits', out @ out') \<and> bits' < tobits
    \<and> concat (map (bits_of tobits) out') @ bits_of bits' acc = bits_of bits acc
    \<and> list_all (\<lambda>v. take_bit tobits v = v) out'"
proof (induction bits arbitrary: out rule: less_induct)
  case (less bits)
  show ?case
  proof (cases "tobits \<le> bits")
    case False
    then show ?thesis by (subst emit_loop.simps) simp
  next
    case True
    let ?v = "ucast (drop_bit (bits - tobits) acc AND (push_bit tobits 1 - 1)) :: u8"
    obtain bits' out' where IH: "emit_loop tobits acc (bits - tobits) (out @ [?v]) = (bits', (out @ [?v]) @ out')"
      "bits' < tobits" "concat (map (bits_of tobits) out') @ bits_of bits' acc = bits_of (bits - tobits) acc"
      "list_all (\<lambda>v. take_bit tobits v = v) out'"
      using less [of "bits - tobits" "out @ [?v]"] True assms by auto
    have "emit_loop tobits acc bits out = (bits', out @ ?v # out')"
      using IH(1) True assms by (subst emit_loop.simps) simp
    moreover have "bits_of tobits ?v = bits_of tobits (drop_bit (bits - tobits) acc)"
      using assms unfolding push_bit_1_mask by (simp add: bits_of_ucast bits_of_mask)
    then have "concat (map (bits_of tobits) (?v # out')) @ bits_of bits' acc = bits_of bits acc"
      using IH(3) bits_of_add [of tobits "bits - tobits" acc] True by simp
    moreover have "take_bit tobits ?v = ?v"
      unfolding push_bit_1_mask by (rule bit_word_eqI) (auto simp: bit_simps)
    ultimately show ?thesis using IH(2,4) by (intro exI [of _ bits'] exI [of _ "?v # out'"]) simp
  qed
qed

lemma bits_of_shift_in:
  assumes "drop_bit frombits val = 0" "bits < tobits" "frombits \<le> 8" "0 < frombits" "tobits \<le> 8"
  shows "bits_of (bits + frombits)
      ((push_bit frombits acc OR ucast val) AND (push_bit (frombits + tobits - 1) 1 - 1 :: u32))
    = bits_of bits acc @ bits_of frombits val"
proof -
  define A :: u32 where "A = (push_bit frombits acc OR ucast val) AND mask (frombits + tobits - 1)"
  have high: "\<not> bit val (frombits + k)" for k
    using assms(1) by (metis bit_drop_bit_eq bit_0_eq bot_apply comp_apply bot_bool_def)
  have low: "bit A k = bit val k" if "k < frombits" for k
    using that assms by (auto simp: A_def bit_simps)
  have mid: "bit A (frombits + k) = bit acc k" if "k < bits" for k
    using that assms high by (auto simp: A_def bit_simps)
  have "bits_of frombits A = bits_of frombits val"
    by (rule nth_equalityI) (simp_all add: nth_bits_of low)
  moreover have "bits_of bits (drop_bit frombits A) = bits_of bits acc"
  proof (rule nth_equalityI)
    fix i assume "i < length (bits_of bits (drop_bit frombits A))"
    then show "bits_of bits (drop_bit frombits A) ! i = bits_of bits acc ! i"
      using mid [of "bits - 1 - i"] by (simp add: nth_bits_of bit_drop_bit_eq)
  qed simp
  ultimately show ?thesis
    unfolding push_bit_1_mask A_def [symmetric] by (simp add: bits_of_add)
qed

lemma convertbits_loop_bits:
  assumes "0 < frombits" "frombits \<le> 8" "0 < tobits" "tobits \<le> 8"
  shows "\<lbrakk>bits < tobits; list_all (\<lambda>v. drop_bit frombits v = 0) inp\<rbrakk> \<Longrightarrow>
    \<exists>acc' bits' out'. convertbits_loop frombits tobits inp acc bits out = Some (acc', bits', out @ out')
      \<and> bits' < tobits
      \<and> concat (map (bits_of tobits) out') @ bits_of bits' acc' = bits_of bits acc @ concat (map (bits_of frombits) inp)
      \<and> list_all (\<lambda>v. take_bit tobits v = v) out'"
proof (induction inp arbitrary: acc bits out)
  case (Cons val inp)
  define acc1 :: u32 where "acc1 = (push_bit frombits acc OR ucast val) AND (push_bit (frombits + tobits - 1) 1 - 1)"
  have shift: "bits_of (bits + frombits) acc1 = bits_of bits acc @ bits_of frombits val"
    unfolding acc1_def using Cons.prems assms by (intro bits_of_shift_in) simp_all
  obtain bits1 out1 where emit: "emit_loop tobits acc1 (bits + frombits) out = (bits1, out @ out1)"
    "bits1 < tobits" "concat (map (bits_of tobits) out1) @ bits_of bits1 acc1 = bits_of (bits + frombits) acc1"
    "list_all (\<lambda>v. take_bit tobits v = v) out1"
    using emit_loop_bits [of tobits acc1 "bits + frombits" out] assms by blast
  obtain acc' bits' out' where rest:
    "convertbits_loop frombits tobits inp acc1 bits1 (out @ out1) = Some (acc', bits', (out @ out1) @ out')"
    "bits' < tobits" "list_all (\<lambda>v. take_bit tobits v = v) out'"
    "concat (map (bits_of tobits) out') @ bits_of bits' acc' = bits_of bits1 acc1 @ concat (map (bits_of frombits) inp)"
    using Cons.IH [OF emit(2), of acc1 "out @ out1"] Cons.prems by auto
  have "convertbits_loop frombits tobits (val # inp) acc bits out = Some (acc', bits', out @ out1 @ out')"
    using Cons.prems(2) rest(1) emit(1)
    unfolding convertbits_loop.simps acc1_def [symmetric] Let_def by simp
  moreover have "concat (map (bits_of tobits) (out1 @ out')) @ bits_of bits' acc'
      = bits_of bits acc @ concat (map (bits_of frombits) (val # inp))"
    using rest(4) emit(3) shift by (metis append.assoc concat.simps(2) concat_append list.simps(9) map_append)
  ultimately show ?case
    using rest(2,3) emit(4) by (intro exI [of _ acc'] exI [of _ bits'] exI [of _ "out1 @ out'"]) simp
qed simp

lemma bits_of_False_iff: "bits_of n v = replicate n False \<longleftrightarrow> take_bit n v = 0"
proof
  assume eq: "bits_of n v = replicate n False"
  have "\<not> bit v k" if "k < n" for k
    using arg_cong [OF eq, of "\<lambda>xs. xs ! (n - 1 - k)"] that by (simp add: nth_bits_of)
  then show "take_bit n v = 0" by (intro bit_word_eqI) (auto simp: bit_simps)
next
  assume "take_bit n v = 0"
  then have "\<not> bit v k" if "k < n" for k
    using that by (metis bit_take_bit_iff bit_0_eq bot_apply bot_bool_def)
  then show "bits_of n v = replicate n False" by (intro nth_equalityI) (auto simp: nth_bits_of)
qed

lemma rest_zero_iff:
  assumes "bits < tobits" "tobits \<le> 8"
  shows "push_bit (tobits - bits) acc AND (push_bit tobits 1 - 1) = (0 :: u32) \<longleftrightarrow> take_bit bits acc = 0"
proof -
  have "push_bit (tobits - bits) acc AND mask tobits = push_bit (tobits - bits) (take_bit bits acc)"
    using assms by (intro bit_word_eqI) (auto simp: bit_simps)
  moreover have "push_bit (tobits - bits) x = 0 \<longleftrightarrow> x = 0" if "take_bit bits x = x" for x :: u32
  proof
    assume 0: "push_bit (tobits - bits) x = 0"
    show "x = 0"
    proof (rule bit_word_eqI)
      fix k
      have "bit x k \<Longrightarrow> k < bits" using that by (metis bit_take_bit_iff)
      moreover have "k < bits \<Longrightarrow> bit x k = bit (push_bit (tobits - bits) x) (k + (tobits - bits))"
        using assms by (auto simp: bit_simps)
      ultimately show "bit x k = bit 0 k" using 0 by auto
    qed
  qed simp
  ultimately show ?thesis
    unfolding push_bit_1_mask by simp
qed

lemma bits_of_rest:
  assumes "bits < tobits" "tobits \<le> 8"
  shows "bits_of tobits (ucast (push_bit (tobits - bits) acc AND (push_bit tobits 1 - 1 :: u32)) :: u8)
    = bits_of bits acc @ replicate (tobits - bits) False"
proof -
  have "bits_of (bits + (tobits - bits)) (push_bit (tobits - bits) acc :: u32)
      = bits_of bits (drop_bit (tobits - bits) (push_bit (tobits - bits) acc))
        @ bits_of (tobits - bits) (push_bit (tobits - bits) acc)"
    by (rule bits_of_add)
  moreover have "bits_of bits (drop_bit (tobits - bits) (push_bit (tobits - bits) acc)) = bits_of bits acc"
    using assms by (intro nth_equalityI) (auto simp: nth_bits_of bit_simps)
  moreover have "bits_of (tobits - bits) (push_bit (tobits - bits) acc :: u32) = replicate (tobits - bits) False"
    by (intro nth_equalityI) (auto simp: nth_bits_of bit_simps)
  ultimately show ?thesis
    unfolding push_bit_1_mask using assms by (simp add: bits_of_ucast bits_of_mask)
qed

lemma length_prefix_unique:
  assumes "b * m + p = b * n + q" "p < b" "q < (b :: nat)"
  shows "m = n \<and> p = q"
proof -
  have "(b * m + p) div b = m" "(b * m + p) mod b = p" using assms(2) by simp_all
  moreover have "(b * n + q) div b = n" "(b * n + q) mod b = q" using assms(3) by simp_all
  ultimately show ?thesis using assms(1) by metis
qed

text \<open>What the two directions used by segwit addresses produce: 8-to-5 with padding always succeeds and
  appends fewer than five zero bits; 5-to-8 without padding accepts exactly such groups.\<close>

lemma convertbits_8_5:
  "\<exists>out pad. convertbits data 8 5 True = Some out \<and> pad < 5
    \<and> concat (map (bits_of 5) out) = concat (map (bits_of 8) data) @ replicate pad False
    \<and> list_all (\<lambda>v. take_bit 5 v = v) out"
proof -
  have "list_all (\<lambda>v. drop_bit 8 v = 0) data"
    by (auto simp: list_all_iff intro!: bit_word_eqI simp: bit_simps dest: bit_imp_le_length)
  then obtain acc bits out where loop: "convertbits_loop 8 5 data 0 0 [] = Some (acc, bits, out)" "bits < 5"
    "concat (map (bits_of 5) out) @ bits_of bits acc = concat (map (bits_of 8) data)"
    "list_all (\<lambda>v. take_bit 5 v = v) out"
    using convertbits_loop_bits [of 8 5 0 data 0 "[]"] by auto
  show ?thesis
  proof (cases "bits = 0")
    case True
    with loop show ?thesis
      by (intro exI [of _ out] exI [of _ 0]) (simp add: convertbits_def Let_def)
  next
    case False
    let ?v = "ucast (push_bit (5 - bits) acc AND (push_bit 5 1 - 1)) :: u8"
    have "convertbits data 8 5 True = Some (out @ [?v])"
      using False loop(1) unfolding convertbits_def Let_def by simp
    moreover have "take_bit 5 ?v = ?v"
      unfolding push_bit_1_mask by (rule bit_word_eqI) (auto simp: bit_simps)
    moreover have "concat (map (bits_of 5) (out @ [?v]))
        = concat (map (bits_of 8) data) @ replicate (5 - bits) False"
      using loop(3) bits_of_rest [OF loop(2), of acc] by simp
    ultimately show ?thesis
      using loop(2,4) False by (intro exI [of _ "out @ [?v]"] exI [of _ "5 - bits"]) simp
  qed
qed

lemma convertbits_5_8:
  assumes "list_all (\<lambda>v. take_bit 5 v = v) inp"
  shows "convertbits inp 5 8 False = Some data \<longleftrightarrow>
    (\<exists>pad < 5. concat (map (bits_of 5) inp) = concat (map (bits_of 8) data) @ replicate pad False)"
proof -
  have "list_all (\<lambda>v. drop_bit 5 v = 0) inp"
  proof -
    have "drop_bit 5 v = 0" if "take_bit 5 v = v" for v :: u8
    proof -
      have "\<not> bit v (5 + k)" for k
        using that by (metis bit_take_bit_iff not_add_less1)
      then show ?thesis by (intro bit_word_eqI) (simp add: bit_drop_bit_eq)
    qed
    then show ?thesis using assms unfolding list_all_iff by blast
  qed
  then obtain acc bits out where loop: "convertbits_loop 5 8 inp 0 0 [] = Some (acc, bits, out)" "bits < 8"
    "concat (map (bits_of 8) out) @ bits_of bits acc = concat (map (bits_of 5) inp)"
    using convertbits_loop_bits [of 5 8 0 inp 0 "[]"] by auto
  have "(push_bit (8 - bits) acc AND (push_bit 8 1 - 1) \<noteq> 0) = (take_bit bits acc \<noteq> 0)"
    using rest_zero_iff [of bits 8 acc] loop(2) by simp
  then have result: "convertbits inp 5 8 False = Some data \<longleftrightarrow> bits < 5 \<and> take_bit bits acc = 0 \<and> out = data"
    unfolding convertbits_def loop(1) option.case prod.case Let_def by (simp only:) auto
  show ?thesis
  proof
    assume "convertbits inp 5 8 False = Some data"
    then have r: "bits < 5" "bits_of bits acc = replicate bits False" "out = data"
      by (simp_all add: result bits_of_False_iff)
    show "\<exists>pad < 5. concat (map (bits_of 5) inp) = concat (map (bits_of 8) data) @ replicate pad False"
      by (rule exI [of _ bits]) (simp add: r flip: loop(3))
  next
    assume "\<exists>pad < 5. concat (map (bits_of 5) inp) = concat (map (bits_of 8) data) @ replicate pad False"
    then obtain pad where pad: "pad < 5" "concat (map (bits_of 8) out) @ bits_of bits acc
        = concat (map (bits_of 8) data) @ replicate pad False"
      unfolding loop(3) by blast
    have len: "length out = length data" "bits = pad"
      using arg_cong [OF pad(2), of length] length_prefix_unique [of 8 "length out" bits "length data" pad]
        loop(2) pad(1) by simp_all
    have "out = data \<and> bits_of bits acc = replicate pad False"
      by (rule concat_bits_inj [OF len(1) _ pad(2)]) (simp_all add: take_bit_word_eq_self len)
    then show "convertbits inp 5 8 False = Some data"
      using len pad(1) by (simp add: result bits_of_False_iff)
  qed
qed

lemma convertbits_round_trip:
  "\<exists>out. convertbits data 8 5 True = Some out \<and> list_all (\<lambda>v. take_bit 5 v = v) out
    \<and> convertbits out 5 8 False = Some data"
proof -
  obtain out pad where out: "convertbits data 8 5 True = Some out" "pad < 5"
    "concat (map (bits_of 5) out) = concat (map (bits_of 8) data) @ replicate pad False"
    "list_all (\<lambda>v. take_bit 5 v = v) out"
    using convertbits_8_5 by blast
  then show ?thesis
    using convertbits_5_8 [OF out(4), of data] by blast
qed

lemma convertbits_canonical:
  assumes "list_all (\<lambda>v. take_bit 5 v = v) inp" "convertbits inp 5 8 False = Some data"
  shows "convertbits data 8 5 True = Some inp"
proof -
  obtain pad where pad: "pad < 5" "concat (map (bits_of 5) inp) = concat (map (bits_of 8) data) @ replicate pad False"
    using convertbits_5_8 [OF assms(1)] assms(2) by blast
  obtain out pad' where out: "convertbits data 8 5 True = Some out" "pad' < 5"
    "concat (map (bits_of 5) out) = concat (map (bits_of 8) data) @ replicate pad' False"
    "list_all (\<lambda>v. take_bit 5 v = v) out"
    using convertbits_8_5 by blast
  have "5 * length inp + pad' = 5 * length out + pad"
    using arg_cong [OF pad(2), of length] arg_cong [OF out(3), of length] by simp
  then have len: "length inp = length out" "pad' = pad"
    using length_prefix_unique [OF _ out(2) pad(1)] by simp_all
  have "inp = out \<and> [] = ([] :: bool list)"
  proof (rule concat_bits_inj [OF len(1)])
    show "take_bit 5 x = x" if "x \<in> set inp \<union> set out" for x
      using that assms(1) out(4) unfolding list_all_iff by blast
    show "concat (map (bits_of 5) inp) @ [] = concat (map (bits_of 5) out) @ []"
      by (simp only: pad(2) out(3) len(2))
  qed simp
  with out(1) show ?thesis by simp
qed

section \<open>Text\<close>

lemma length_kCharset [simp]: "length kCharset = 32"
  by (simp add: kCharset_def)

lemma distinct_kCharset: "distinct kCharset"
  by (simp add: kCharset_def)

lemma charset_index_loop_nth:
  "distinct cs \<Longrightarrow> i < length cs \<Longrightarrow> charset_index_loop k cs (cs ! i) = int (k + i)"
proof (induction cs arbitrary: k i)
  case (Cons c cs)
  then show ?case by (cases i) (auto simp: in_set_conv_nth)
qed simp

lemma charset_index_loop_member: "c \<notin> set cs \<Longrightarrow> charset_index_loop k cs c = - 1"
  by (induction cs arbitrary: k) auto

lemma charset_index_nth [simp]: "i < 32 \<Longrightarrow> charset_index (kCharset ! i) = int i"
  by (simp add: charset_index_def charset_index_loop_nth distinct_kCharset)

lemma charset_index_cases:
  "charset_index c < 0 \<or> (\<exists>i < 32. c = kCharset ! i \<and> charset_index c = int i)"
  using charset_index_loop_member [of c kCharset 0] charset_index_nth
  by (metis charset_index_def in_set_conv_nth length_kCharset neg_less_0_iff_less zero_less_one)

lemma charset_indices_map:
  "list_all (\<lambda>v. unat v < 32) vs \<Longrightarrow> charset_indices (map (\<lambda>v. kCharset ! unat v) vs) = Some vs"
  by (induction vs) auto

lemma charset_indices_Some:
  "charset_indices s = Some vs \<Longrightarrow> s = map (\<lambda>v. kCharset ! unat v) vs \<and> list_all (\<lambda>v. unat v < 32) vs"
proof (induction s arbitrary: vs)
  case (Cons c s)
  then obtain ws where ws: "\<not> charset_index c < 0" "charset_indices s = Some ws"
    "vs = word_of_int (charset_index c) # ws"
    by (auto split: if_splits option.splits)
  then obtain i where i: "i < 32" "c = kCharset ! i" "charset_index c = int i"
    using charset_index_cases by blast
  have "unat (word_of_nat i :: u8) = i" using i(1) by (simp add: unat_of_nat take_bit_nat_eq_self)
  with Cons.IH [OF ws(2)] ws(3) i show ?case by simp
qed simp

lemma rfind_append: "c \<notin> set ys \<Longrightarrow> rfind c (xs @ c # ys) = Some (length xs)"
proof (induction xs)
  case Nil
  have "c \<notin> set ys \<Longrightarrow> rfind c ys = None" by (induction ys) auto
  with Nil show ?case by simp
qed simp

lemma rfind_None: "rfind c s = None \<longleftrightarrow> c \<notin> set s"
  by (induction s) (auto split: option.splits)

lemma rfind_Some:
  "rfind c s = Some i \<Longrightarrow> i < length s \<and> s = take i s @ c # drop (i + 1) s \<and> c \<notin> set (drop (i + 1) s)"
proof (induction s arbitrary: i)
  case (Cons x s)
  show ?case
  proof (cases "rfind c s")
    case None
    with Cons.prems have "i = 0" "x = c" by (auto split: if_splits)
    with None show ?thesis by (simp add: rfind_None)
  next
    case (Some j)
    with Cons.prems have "i = Suc j" by simp
    with Cons.IH [OF Some] show ?thesis by simp
  qed
qed simp

text \<open>The texts \<^verbatim>\<open>bech32_decode\<close> looks into: printable, at most 90 characters, not of mixed case.\<close>

definition bech32_text :: "string \<Rightarrow> bool" where
  "bech32_text s \<longleftrightarrow> length s \<le> 90
    \<and> list_all (\<lambda>c. 33 \<le> (of_char c :: nat) \<and> (of_char c :: nat) \<le> 126) s
    \<and> \<not> (list_ex is_lower s \<and> list_ex is_upper s)"

definition charset_text :: "bytes \<Rightarrow> string" where
  "charset_text vs = map (\<lambda>v. kCharset ! unat v) vs"

lemma length_charset_text [simp]: "length (charset_text vs) = length vs"
  by (simp add: charset_text_def)

lemma charset_text_no_sep: "list_all (\<lambda>v. unat v < 32) vs \<Longrightarrow> CHR ''1'' \<notin> set (charset_text vs)"
proof -
  have "CHR ''1'' \<notin> set kCharset" by (simp add: kCharset_def)
  then show "list_all (\<lambda>v. unat v < 32) vs \<Longrightarrow> CHR ''1'' \<notin> set (charset_text vs)"
    by (force simp: charset_text_def list_all_iff in_set_conv_nth)
qed

lemma bech32_decode_iff:
  "bech32_decode s = Some d \<longleftrightarrow>
    bech32_text s \<and> dec_hrp d \<noteq> [] \<and> dec_encoding d \<noteq> Invalid
    \<and> list_all (\<lambda>v. unat v < 32) (dec_data d)
    \<and> map to_lower s = dec_hrp d @ CHR ''1'' # charset_text (dec_data d @ create_checksum (dec_hrp d) (dec_data d) (dec_encoding d))"
proof
  assume "bech32_decode s = Some d"
  then obtain sep data where sep: "bech32_text s" "rfind CHR ''1'' (map to_lower s) = Some sep"
    "sep \<noteq> 0" "sep + 7 \<le> length s" "charset_indices (drop (sep + 1) (map to_lower s)) = Some data"
    "verify_checksum (take sep (map to_lower s)) data \<noteq> Invalid"
    and d: "d = \<lparr>dec_hrp = take sep (map to_lower s), dec_data = take (length data - 6) data,
      dec_encoding = verify_checksum (take sep (map to_lower s)) data\<rparr>"
    by (auto simp: bech32_decode_def bech32_text_def Let_def list_all_iff list_ex_iff not_less
        split: if_splits option.splits)
  let ?l = "map to_lower s" and ?chk = "drop (length data - 6) data"
  have l: "?l = take sep ?l @ CHR ''1'' # drop (sep + 1) ?l"
    using rfind_Some [OF sep(2)] by blast
  have data: "drop (sep + 1) ?l = charset_text data" "list_all (\<lambda>v. unat v < 32) data"
    using charset_indices_Some [OF sep(5)] by (simp_all add: charset_text_def)
  have "length data = length s - (sep + 1)"
    using arg_cong [OF data(1), of length] by (simp add: charset_text_def)
  then have len: "length ?chk = 6" using sep(4) by simp
  have split: "data = dec_data d @ ?chk" by (simp add: d)
  have "list_all (\<lambda>v. unat v < 32) (dec_data d)" "list_all (\<lambda>v. unat v < 32) ?chk"
    using data(2) by (subst (asm) split, simp)+
  moreover have "polymod (hrp_expand (dec_hrp d) @ dec_data d @ ?chk) = checksum_constant (dec_encoding d)"
    using verify_checksum_iff [of "dec_hrp d" data "dec_encoding d"] sep(6) split by (simp add: d)
  ultimately have chk: "?chk = create_checksum (dec_hrp d) (dec_data d) (dec_encoding d)"
    using len by (intro checksum_unique)
  have "map to_lower s = take sep ?l @ CHR ''1'' # charset_text data"
    using l by (simp only: data(1))
  moreover have "take sep ?l = dec_hrp d" by (simp add: d)
  moreover have "data = dec_data d @ create_checksum (dec_hrp d) (dec_data d) (dec_encoding d)"
    using split by (simp only: chk)
  ultimately have "map to_lower s = dec_hrp d @ CHR ''1''
      # charset_text (dec_data d @ create_checksum (dec_hrp d) (dec_data d) (dec_encoding d))"
    by metis
  moreover have "dec_hrp d \<noteq> []" "dec_encoding d \<noteq> Invalid"
    using sep(3,4,6) by (auto simp: d)
  ultimately show "bech32_text s \<and> dec_hrp d \<noteq> [] \<and> dec_encoding d \<noteq> Invalid
    \<and> list_all (\<lambda>v. unat v < 32) (dec_data d)
    \<and> map to_lower s = dec_hrp d @ CHR ''1'' # charset_text (dec_data d @ create_checksum (dec_hrp d) (dec_data d) (dec_encoding d))"
    using sep(1) \<open>list_all (\<lambda>v. unat v < 32) (dec_data d)\<close> by blast
next
  let ?chk = "create_checksum (dec_hrp d) (dec_data d) (dec_encoding d)"
  let ?all = "dec_data d @ ?chk"
  assume a: "bech32_text s \<and> dec_hrp d \<noteq> [] \<and> dec_encoding d \<noteq> Invalid
    \<and> list_all (\<lambda>v. unat v < 32) (dec_data d) \<and> map to_lower s = dec_hrp d @ CHR ''1'' # charset_text ?all"
  then have sym: "list_all (\<lambda>v. unat v < 32) ?all"
    using create_checksum_symbols by simp
  have len: "length s = length (dec_hrp d) + 1 + length (dec_data d) + 6"
  proof -
    have "length (map to_lower s) = length (dec_hrp d @ CHR ''1'' # charset_text ?all)"
      using a by presburger
    then show ?thesis
      using create_checksum_symbols [of "dec_hrp d" "dec_data d" "dec_encoding d"]
      by (simp add: charset_text_def)
  qed
  have "verify_checksum (dec_hrp d) ?all = dec_encoding d"
    using verify_checksum_iff [of "dec_hrp d" ?all "dec_encoding d"] create_checksum_polymod a by simp
  moreover have "rfind CHR ''1'' (map to_lower s) = Some (length (dec_hrp d))"
    using a rfind_append [OF charset_text_no_sep [OF sym]] by simp
  moreover have "charset_indices (charset_text ?all) = Some ?all"
    using charset_indices_map [OF sym] by (simp add: charset_text_def)
  ultimately show "bech32_decode s = Some d"
    using a len create_checksum_symbols [of "dec_hrp d" "dec_data d" "dec_encoding d"]
    unfolding bech32_decode_def Let_def
    by (auto simp: bech32_text_def list_all_iff list_ex_iff not_less)
qed

section \<open>Segwit addresses\<close>

lemma take_bit_5_iff: "take_bit 5 v = (v :: u8) \<longleftrightarrow> unat v < 32"
proof
  assume "take_bit 5 v = v"
  then have "unat v = unat v mod 32" using unat_take_bit_mod [of 5 v] by simp
  then show "unat v < 32" by (metis mod_less_divisor zero_less_numeral)
qed (simp add: word_unat_eq_iff unat_take_bit_mod)

definition program_size_ok :: "int \<Rightarrow> bytes \<Rightarrow> bool" where
  "program_size_ok version program \<longleftrightarrow>
    version \<noteq> 0 \<or> length program = 20 \<or> length program = 32"

lemma segwit_encode_Inr:
  "segwit_address_encode hrp version program = Inr t \<longleftrightarrow>
    0 \<le> version \<and> version \<le> 16 \<and> 2 \<le> length program \<and> length program \<le> 40
    \<and> (\<exists>converted. convertbits program 8 5 True = Some converted
      \<and> t = hrp @ CHR ''1'' # charset_text ((word_of_int version # converted)
          @ create_checksum hrp (word_of_int version # converted) (if version = 0 then Bech32 else Bech32m)))"
  by (auto simp: segwit_address_encode_def charset_text_def Let_def split: option.splits)

lemma segwit_address_decode_iff:
  "segwit_address_decode hrp address = Some \<lparr>wp_version = version, wp_program = program\<rparr> \<longleftrightarrow>
    segwit_address_encode hrp version program = Inr (map to_lower address)
    \<and> bech32_text address \<and> hrp \<noteq> [] \<and> program_size_ok version program"
proof
  assume dec: "segwit_address_decode hrp address = Some \<lparr>wp_version = version, wp_program = program\<rparr>"
  then obtain d where d: "bech32_decode address = Some d" "dec_hrp d = hrp" "dec_data d \<noteq> []"
    "version = uint (hd (dec_data d))" "version \<le> 16" "convertbits (tl (dec_data d)) 5 8 False = Some program"
    "2 \<le> length program" "length program \<le> 40" "program_size_ok version program"
    "dec_encoding d = (if version = 0 then Bech32 else Bech32m)"
    by (auto simp: segwit_address_decode_def program_size_ok_def Let_def not_less
        split: option.splits if_splits)
  have b: "bech32_text address" "hrp \<noteq> []" "list_all (\<lambda>v. unat v < 32) (dec_data d)"
    "map to_lower address = hrp @ CHR ''1'' # charset_text (dec_data d @ create_checksum hrp (dec_data d) (dec_encoding d))"
    using d(1,2) unfolding bech32_decode_iff by simp_all
  obtain v ds where dd: "dec_data d = v # ds"
    using d(3) by (cases "dec_data d") auto
  have "list_all (\<lambda>v. take_bit 5 v = v) ds"
    using b(3) by (simp add: dd take_bit_5_iff)
  then have "convertbits program 8 5 True = Some ds"
    using convertbits_canonical d(6) by (simp add: dd)
  moreover have "v = word_of_int version"
    using d(4) by (simp add: dd)
  ultimately show "segwit_address_encode hrp version program = Inr (map to_lower address)
      \<and> bech32_text address \<and> hrp \<noteq> [] \<and> program_size_ok version program"
    unfolding segwit_encode_Inr using b(1,2,4) d(4,5,7-10) unfolding dd by auto
next
  assume a: "segwit_address_encode hrp version program = Inr (map to_lower address)
      \<and> bech32_text address \<and> hrp \<noteq> [] \<and> program_size_ok version program"
  let ?e = "if version = 0 then Bech32 else Bech32m"
  obtain converted where c: "0 \<le> version" "version \<le> 16" "2 \<le> length program" "length program \<le> 40"
    "convertbits program 8 5 True = Some converted"
    "map to_lower address = hrp @ CHR ''1'' # charset_text ((word_of_int version # converted)
          @ create_checksum hrp (word_of_int version # converted) ?e)"
    using a unfolding segwit_encode_Inr by blast
  have "list_all (\<lambda>v. take_bit 5 v = v) converted \<and> convertbits converted 5 8 False = Some program"
    using convertbits_round_trip [of program] c(5) by auto
  then have conv: "list_all (\<lambda>v. unat v < 32) converted" "convertbits converted 5 8 False = Some program"
    by (simp_all add: take_bit_5_iff)
  have v: "uint (word_of_int version :: u8) = version"
    using c(1,2) by (simp add: uint_word_of_int_eq take_bit_int_eq_self)
  then have "unat (word_of_int version :: u8) < 32"
    using c(2) by (simp add: unat_eq_nat_uint)
  then have "bech32_decode address
      = Some \<lparr>dec_hrp = hrp, dec_data = word_of_int version # converted, dec_encoding = ?e\<rparr>"
    unfolding bech32_decode_iff using a c(6) conv(1) by simp
  then show "segwit_address_decode hrp address = Some \<lparr>wp_version = version, wp_program = program\<rparr>"
    using a c conv(2) v by (auto simp: segwit_address_decode_def Let_def program_size_ok_def not_less)
qed

text \<open>C27: segwit decoding accepts a text exactly when it is, up to case, the encoding of the returned
  version and program under the expected prefix, the text is printable, not of mixed case and at
  most 90 characters, and a version 0 program has 20 or 32 bytes.\<close>

theorem segwit_address_exact:
  "segwit_address_decode hrp address = Some \<lparr>wp_version = version, wp_program = program\<rparr> \<longleftrightarrow>
    segwit_address_encode hrp version program = Inr (map to_lower address)
    \<and> bech32_text address \<and> hrp \<noteq> [] \<and> program_size_ok version program"
  by (rule segwit_address_decode_iff)

end
