(* ===== verification/Sv2_Codec.thy ===== *)
theory Sv2_Codec
  imports Endian
begin

text \<open>
  \<^verbatim>\<open>src/src/sv2/codec.hpp\<close> and \<^verbatim>\<open>src/src/sv2/codec.cpp\<close>: the six-byte Stratum V2 frame and the incremental
  stream decoder. The decoder's loop is a partial function (\<open>None\<close> for not returning). It is shown to
  terminate in every reachable state and to refine an abstract parser of the bytes received so far,
  hence to be independent of how the transport cuts the stream.
\<close>

definition kFrameHeaderSize :: nat where
  "kFrameHeaderSize = 6"

definition kCoreExtensionId :: u16 where
  "kCoreExtensionId = 0"

definition kChannelMessageFlag :: u16 where
  "kChannelMessageFlag = 0x8000"

definition kExtensionIdMask :: u16 where
  "kExtensionIdMask = 0x7fff"

definition kMaximumFramePayloadSize :: nat where
  "kMaximumFramePayloadSize = 0x00ffffff"

record Frame =
  extension_type :: u16
  message_type :: u8
  payload :: bytes

definition extension_id :: "Frame \<Rightarrow> u16" where
  "extension_id f = extension_type f AND kExtensionIdMask"

definition is_channel_message :: "Frame \<Rightarrow> bool" where
  "is_channel_message f \<longleftrightarrow> extension_type f AND kChannelMessageFlag \<noteq> 0"

definition make_extension_type :: "u16 \<Rightarrow> bool \<Rightarrow> u16 result" where
  "make_extension_type ext_id channel_message =
    (if ext_id > kExtensionIdMask then Inl (Codec_error ''SV2 extension ID exceeds 15 bits'')
     else Inr (ext_id OR (if channel_message then kChannelMessageFlag else 0)))"

definition encode_frame :: "Frame \<Rightarrow> bytes result" where
  "encode_frame f =
    (if length (payload f) > kMaximumFramePayloadSize
     then Inl (Codec_error ''SV2 frame payload exceeds the U24 wire limit'')
     else Inr (write_le16 (extension_type f) @ [message_type f]
       @ write_le24 (word_of_nat (length (payload f))) @ payload f))"

record FrameDecoder =
  fd_maximum_payload_size :: u32
  fd_header :: bytes
  fd_header_size :: nat
  fd_frame :: Frame
  fd_payload_size :: u32
  fd_reading_payload :: bool

definition empty_frame :: Frame where
  "empty_frame = \<lparr>extension_type = 0, message_type = 0, payload = []\<rparr>"

definition FrameDecoder_init :: "u32 \<Rightarrow> FrameDecoder" where
  "FrameDecoder_init maximum_payload_size =
    \<lparr>fd_maximum_payload_size = maximum_payload_size, fd_header = replicate 6 0, fd_header_size = 0,
     fd_frame = empty_frame, fd_payload_size = 0, fd_reading_payload = False\<rparr>"

definition reset_frame :: "FrameDecoder \<Rightarrow> FrameDecoder" where
  "reset_frame d =
    d\<lparr>fd_header_size := 0, fd_frame := empty_frame, fd_payload_size := 0, fd_reading_payload := False\<rparr>"

definition begin_payload :: "FrameDecoder \<Rightarrow> FrameDecoder \<times> bool" where
  "begin_payload d =
    (let d = d\<lparr>fd_frame := (fd_frame d)\<lparr>extension_type := read_le16 (fd_header d), message_type := fd_header d ! 2\<rparr>,
               fd_payload_size := read_le24 (drop 3 (fd_header d))\<rparr>
     in if fd_payload_size d > fd_maximum_payload_size d then (reset_frame d, False)
        else (d\<lparr>fd_reading_payload := True\<rparr>, True))"

text \<open>A \<^verbatim>\<open>CodecError\<close> thrown by \<^verbatim>\<open>push\<close> carries the frames completed before it.\<close>

type_synonym push_result = "(string \<times> Frame list) + Frame list"

definition complete_frame :: "FrameDecoder \<Rightarrow> Frame list \<Rightarrow> FrameDecoder \<times> Frame list" where
  "complete_frame d completed =
    (if length (payload (fd_frame d)) = unat (fd_payload_size d)
     then (reset_frame d, completed @ [fd_frame d]) else (d, completed))"

partial_function (option) decoder_loop ::
  "FrameDecoder \<Rightarrow> bytes \<Rightarrow> Frame list \<Rightarrow> (FrameDecoder \<times> push_result) option" where
  "decoder_loop d bs completed =
    (if bs = [] then Some (d, Inr completed)
     else if \<not> fd_reading_payload d then
       (let n = min (kFrameHeaderSize - fd_header_size d) (length bs);
            d = d\<lparr>fd_header := put_bytes (fd_header d) (fd_header_size d) (take n bs),
                  fd_header_size := fd_header_size d + n\<rparr>;
            bs = drop n bs
        in if fd_header_size d \<noteq> kFrameHeaderSize then decoder_loop d bs completed
           else case begin_payload d of
             (d, started) \<Rightarrow>
               if \<not> started then Some (d, Inl (''SV2 frame payload exceeds the configured limit'', completed))
               else (case complete_frame d completed of (d, completed) \<Rightarrow> decoder_loop d bs completed))
     else
       (let n = min (unat (fd_payload_size d) - length (payload (fd_frame d))) (length bs);
            d = d\<lparr>fd_frame := (fd_frame d)\<lparr>payload := payload (fd_frame d) @ take n bs\<rparr>\<rparr>;
            bs = drop n bs
        in case complete_frame d completed of (d, completed) \<Rightarrow> decoder_loop d bs completed))"

definition push :: "FrameDecoder \<Rightarrow> bytes \<Rightarrow> (FrameDecoder \<times> push_result) option" where
  "push d bs = decoder_loop d bs []"

definition finish :: "FrameDecoder \<Rightarrow> unit result" where
  "finish d =
    (if fd_header_size d \<noteq> 0 \<or> fd_reading_payload d then Inl (Codec_error ''truncated SV2 frame'') else Inr ())"

section \<open>Reference parser\<close>

text \<open>All frames of a byte string, with the incomplete rest; \<open>True\<close> marks a frame over the limit.\<close>

definition wire_size :: "bytes \<Rightarrow> nat" where
  "wire_size bs = le_value (take 3 (drop 3 bs))"

definition wire_frame :: "bytes \<Rightarrow> Frame" where
  "wire_frame bs = \<lparr>extension_type = read_le16 bs, message_type = bs ! 2,
     payload = take (wire_size bs) (drop 6 bs)\<rparr>"

function parse_frames :: "nat \<Rightarrow> bytes \<Rightarrow> Frame list \<times> bytes \<times> bool" where
  "parse_frames m bs =
    (if length bs < 6 then ([], bs, False)
     else if wire_size bs > m then ([], bs, True)
     else if length bs < 6 + wire_size bs then ([], bs, False)
     else case parse_frames m (drop (6 + wire_size bs) bs) of
       (fs, rest, err) \<Rightarrow> (wire_frame bs # fs, rest, err))"
  by pat_completeness auto
termination by (relation "measure (\<lambda>(m, bs). length bs)") auto

declare parse_frames.simps [simp del]

lemma parse_frames_append:
  "parse_frames m a = (fs, rest, False) \<Longrightarrow>
    parse_frames m (a @ b) = (case parse_frames m (rest @ b) of (fs', rest', err) \<Rightarrow> (fs @ fs', rest', err))"
proof (induction m a arbitrary: fs rule: parse_frames.induct)
  case (1 m a)
  show ?case
  proof (cases "length a < 6 \<or> wire_size a > m \<or> length a < 6 + wire_size a")
    case True
    then have "fs = []" "rest = a"
      using "1.prems" by (auto simp: parse_frames.simps [of m a] split: if_splits)
    then show ?thesis by simp
  next
    case False
    then obtain fs1 where fs: "fs = wire_frame a # fs1"
      "parse_frames m (drop (6 + wire_size a) a) = (fs1, rest, False)"
      using "1.prems" by (auto simp: parse_frames.simps [of m a] split: prod.splits)
    have "parse_frames m (drop (6 + wire_size a) a @ b)
        = (case parse_frames m (rest @ b) of (fs', rest', err) \<Rightarrow> (fs1 @ fs', rest', err))"
      using "1.IH" False fs(2) by simp
    moreover have "wire_size (a @ b) = wire_size a" "wire_frame (a @ b) = wire_frame a"
      using False by (auto simp: wire_size_def wire_frame_def read_le16_def nth_append)
    ultimately show ?thesis
      using False fs(1) by (subst parse_frames.simps) (auto split: prod.splits)
  qed
qed

section \<open>Refinement\<close>

definition pending :: "FrameDecoder \<Rightarrow> bytes" where
  "pending d = (if fd_reading_payload d then fd_header d @ payload (fd_frame d) else take (fd_header_size d) (fd_header d))"

definition decoder_inv :: "FrameDecoder \<Rightarrow> bool" where
  "decoder_inv d \<longleftrightarrow> length (fd_header d) = 6 \<and>
    (if fd_reading_payload d then
       fd_header_size d = 6 \<and> fd_payload_size d = read_le24 (drop 3 (fd_header d))
       \<and> fd_payload_size d \<le> fd_maximum_payload_size d \<and> length (payload (fd_frame d)) < unat (fd_payload_size d)
       \<and> extension_type (fd_frame d) = read_le16 (fd_header d) \<and> message_type (fd_frame d) = fd_header d ! 2
     else fd_header_size d < 6 \<and> fd_frame d = empty_frame)"

lemma unat_read_le24: "3 \<le> length p \<Longrightarrow> unat (read_le24 p) = le_value (take 3 p)"
proof -
  assume "3 \<le> length p"
  moreover have "le_value (take 3 p) < 2 ^ 32"
    using le_value_less [of "take 3 p"] calculation by simp
  ultimately show ?thesis by (simp add: read_le24_value unat_of_nat take_bit_nat_eq_self)
qed

lemma decoder_init: "decoder_inv (FrameDecoder_init m)" "pending (FrameDecoder_init m) = []"
  by (simp_all add: decoder_inv_def FrameDecoder_init_def pending_def)

lemma decoder_reset: "length (fd_header d) = 6 \<Longrightarrow> decoder_inv (reset_frame d)" "pending (reset_frame d) = []"
  "fd_maximum_payload_size (reset_frame d) = fd_maximum_payload_size d"
  by (simp_all add: decoder_inv_def reset_frame_def pending_def)

lemma parse_pending:
  assumes "decoder_inv d"
  shows "parse_frames (unat (fd_maximum_payload_size d)) (pending d) = ([], pending d, False)"
proof (cases "fd_reading_payload d")
  case True
  then have "wire_size (pending d) = unat (fd_payload_size d)"
    using assms by (simp add: decoder_inv_def pending_def wire_size_def unat_read_le24)
  then show ?thesis
    using True assms by (subst parse_frames.simps) (auto simp: decoder_inv_def pending_def word_le_nat_alt)
next
  case False
  then show ?thesis
    using assms by (subst parse_frames.simps) (simp add: decoder_inv_def pending_def)
qed

text \<open>What the loop has to establish.\<close>

definition push_spec :: "FrameDecoder \<Rightarrow> bytes \<Rightarrow> Frame list \<Rightarrow> (FrameDecoder \<times> push_result) option \<Rightarrow> bool" where
  "push_spec d bs completed res \<longleftrightarrow>
    (\<exists>d' r. res = Some (d', r) \<and> decoder_inv d' \<and> fd_maximum_payload_size d' = fd_maximum_payload_size d \<and>
      (case parse_frames (unat (fd_maximum_payload_size d)) (pending d @ bs) of
        (fs, rest, True) \<Rightarrow> r = Inl (''SV2 frame payload exceeds the configured limit'', completed @ fs) \<and> pending d' = []
      | (fs, rest, False) \<Rightarrow> r = Inr (completed @ fs) \<and> pending d' = rest))"

lemma push_spec_same:
  assumes "push_spec d1 bs1 completed res" "pending d1 @ bs1 = pending d @ bs"
    "fd_maximum_payload_size d1 = fd_maximum_payload_size d"
  shows "push_spec d bs completed res"
  using assms by (simp add: push_spec_def)

lemma push_spec_frame:
  assumes "push_spec d1 bs1 (completed @ [f]) res" "pending d1 = []"
    "fd_maximum_payload_size d1 = fd_maximum_payload_size d"
    "6 \<le> length (pending d @ bs)" "wire_size (pending d @ bs) \<le> unat (fd_maximum_payload_size d)"
    "6 + wire_size (pending d @ bs) \<le> length (pending d @ bs)"
    "bs1 = drop (6 + wire_size (pending d @ bs)) (pending d @ bs)" "f = wire_frame (pending d @ bs)"
  shows "push_spec d bs completed res"
proof -
  let ?m = "unat (fd_maximum_payload_size d)"
  have "parse_frames ?m (pending d @ bs)
      = (case parse_frames ?m bs1 of (fs, rest, err) \<Rightarrow> (f # fs, rest, err))"
    using assms(4-8) by (subst parse_frames.simps) (simp only: not_less [symmetric] if_False)
  then show ?thesis
    using assms(1-3) unfolding push_spec_def by (auto split: prod.splits bool.splits)
qed

lemma push_begin:
  assumes d1: "length (fd_header d1) = 6" "fd_header_size d1 = 6" "fd_frame d1 = empty_frame"
    and buf: "pending d @ bs = fd_header d1 @ rest" "fd_maximum_payload_size d1 = fd_maximum_payload_size d"
    and IH: "\<And>d1 completed1. decoder_inv d1 \<Longrightarrow> push_spec d1 rest completed1 (decoder_loop d1 rest completed1)"
  shows "push_spec d bs completed (case begin_payload d1 of (d, started) \<Rightarrow>
    if \<not> started then Some (d, Inl (''SV2 frame payload exceeds the configured limit'', completed))
    else case complete_frame d completed of (d, completed) \<Rightarrow> decoder_loop d rest completed)" (is "push_spec _ _ _ ?res")
proof -
  define h where "h = fd_header d1"
  let ?f = "\<lparr>extension_type = read_le16 h, message_type = h ! 2, payload = []\<rparr>"
  define d2 where "d2 = d1\<lparr>fd_frame := ?f, fd_payload_size := read_le24 (drop 3 h)\<rparr>"
  define d3 where "d3 = d2\<lparr>fd_reading_payload := True\<rparr>"
  have d2: "length (fd_header d2) = 6" "fd_maximum_payload_size d2 = fd_maximum_payload_size d"
    "fd_header d2 = h" "fd_payload_size d2 = read_le24 (drop 3 h)" "fd_frame d2 = ?f" "length h = 6"
    using d1 buf by (simp_all add: d2_def h_def)
  have wire: "wire_size (pending d @ bs) = unat (read_le24 (drop 3 h))"
    using buf d1(1) by (simp add: wire_size_def unat_read_le24 h_def)
  have bp: "begin_payload d1 = (if read_le24 (drop 3 h) > fd_maximum_payload_size d
      then (reset_frame d2, False) else (d3, True))"
    by (simp add: begin_payload_def d3_def d2_def d1 buf empty_frame_def Let_def h_def)
  consider "read_le24 (drop 3 h) > fd_maximum_payload_size d"
    | "read_le24 (drop 3 h) \<le> fd_maximum_payload_size d" "read_le24 (drop 3 h) = 0"
    | "read_le24 (drop 3 h) \<le> fd_maximum_payload_size d" "read_le24 (drop 3 h) > 0"
    using word_neq_0_conv not_le by blast
  then show ?thesis
  proof cases
    case 1
    then have "parse_frames (unat (fd_maximum_payload_size d)) (pending d @ bs) = ([], pending d @ bs, True)"
      using wire buf d1 by (subst parse_frames.simps) (simp add: word_less_nat_alt)
    then show ?thesis
      using 1 d2 by (simp add: push_spec_def bp decoder_reset)
  next
    case 2
    then have "push_spec (reset_frame d3) rest (completed @ [?f]) ?res"
      using IH [of "reset_frame d3"] by (simp add: bp complete_frame_def d3_def d2 decoder_reset)
    then show ?thesis
      by (rule push_spec_frame)
        (use 2 wire buf d2 h_def in \<open>auto simp: decoder_reset d3_def wire_frame_def read_le16_def nth_append\<close>)
  next
    case 3
    then have "decoder_inv d3"
      using d1 by (simp add: decoder_inv_def d3_def d2_def h_def buf word_less_nat_alt)
    then have "push_spec d3 rest completed ?res"
      using 3 IH [of d3] by (auto simp: bp complete_frame_def d3_def d2 unat_eq_zero not_less [symmetric])
    then show ?thesis
      by (rule push_spec_same) (use buf d2 h_def in \<open>simp_all add: pending_def d3_def\<close>)
  qed
qed

lemma decoder_loop_header_eq:
  assumes "\<not> fd_reading_payload d" "bs \<noteq> []" "n = min (kFrameHeaderSize - fd_header_size d) (length bs)"
    "d1 = d\<lparr>fd_header := put_bytes (fd_header d) (fd_header_size d) (take n bs),
       fd_header_size := fd_header_size d + n\<rparr>"
  shows "decoder_loop d bs completed =
    (if fd_header_size d1 \<noteq> kFrameHeaderSize then decoder_loop d1 (drop n bs) completed
     else case begin_payload d1 of (d, started) \<Rightarrow>
       if \<not> started then Some (d, Inl (''SV2 frame payload exceeds the configured limit'', completed))
       else case complete_frame d completed of (d, completed) \<Rightarrow> decoder_loop d (drop n bs) completed)"
  using assms(1,2) unfolding assms(3,4) by (subst decoder_loop.simps) (simp only: Let_def if_False if_True not_False_eq_True)

lemma decoder_loop_header:
  assumes inv: "decoder_inv d" and nr: "\<not> fd_reading_payload d" and ne: "bs \<noteq> []"
    and IH: "\<And>d1 bs1 completed1. length bs1 < length bs \<Longrightarrow> decoder_inv d1 \<Longrightarrow>
      push_spec d1 bs1 completed1 (decoder_loop d1 bs1 completed1)"
  shows "push_spec d bs completed (decoder_loop d bs completed)"
proof -
  define n where "n = min (kFrameHeaderSize - fd_header_size d) (length bs)"
  define h where "h = put_bytes (fd_header d) (fd_header_size d) (take n bs)"
  define d1 where "d1 = d\<lparr>fd_header := h, fd_header_size := fd_header_size d + n\<rparr>"
  have lt: "fd_header_size d < 6" "length (fd_header d) = 6" "fd_frame d = empty_frame"
    using inv nr by (auto simp: decoder_inv_def)
  have n: "0 < n" "n \<le> length bs" "fd_header_size d + n \<le> 6"
    using lt(1) ne by (auto simp: n_def kFrameHeaderSize_def)
  have h: "length h = 6" "take (fd_header_size d + n) h = take (fd_header_size d) (fd_header d) @ take n bs"
    using lt n by (auto simp: h_def put_bytes_def min_def)
  have whole: "pending d @ bs = take (fd_header_size d + n) h @ drop n bs"
    using h(2) nr by (simp add: pending_def)
  have d1: "length (fd_header d1) = 6" "\<not> fd_reading_payload d1" "fd_frame d1 = empty_frame"
    "fd_maximum_payload_size d1 = fd_maximum_payload_size d" "fd_header d1 = h"
    using h(1) nr lt(3) by (simp_all add: d1_def)
  have IH': "decoder_inv d1 \<Longrightarrow> push_spec d1 (drop n bs) c (decoder_loop d1 (drop n bs) c)" for d1 c
    using IH n(1) ne by simp
  show ?thesis
  proof (cases "fd_header_size d1 = kFrameHeaderSize")
    case False
    then have "decoder_inv d1"
      using d1 n(3) by (simp add: decoder_inv_def d1_def kFrameHeaderSize_def)
    then have "push_spec d1 (drop n bs) completed (decoder_loop d bs completed)"
      using IH' [of d1 completed] False by (simp add: decoder_loop_header_eq [OF nr ne n_def d1_def [unfolded h_def]])
    then show ?thesis
      by (rule push_spec_same) (use whole d1 in \<open>simp_all add: pending_def d1_def\<close>)
  next
    case True
    have "push_spec d bs completed (case begin_payload d1 of (d, started) \<Rightarrow>
      if \<not> started then Some (d, Inl (''SV2 frame payload exceeds the configured limit'', completed))
      else case complete_frame d completed of (d, completed) \<Rightarrow> decoder_loop d (drop n bs) completed)"
    proof (rule push_begin [OF d1(1) _ d1(3) _ d1(4) IH'])
      have "fd_header_size d + n = 6" using True by (simp add: d1_def kFrameHeaderSize_def)
      then show "fd_header_size d1 = 6" "pending d @ bs = fd_header d1 @ drop n bs"
        using whole h(1) by (simp_all add: d1_def)
    qed
    then show ?thesis
      using True by (simp add: decoder_loop_header_eq [OF nr ne n_def d1_def [unfolded h_def]])
  qed
qed

lemma decoder_loop_payload:
  assumes inv: "decoder_inv d" and rd: "fd_reading_payload d" and ne: "bs \<noteq> []"
    and IH: "\<And>d1 bs1 completed1. length bs1 < length bs \<Longrightarrow> decoder_inv d1 \<Longrightarrow>
      push_spec d1 bs1 completed1 (decoder_loop d1 bs1 completed1)"
  shows "push_spec d bs completed (decoder_loop d bs completed)"
proof -
  define n where "n = min (unat (fd_payload_size d) - length (payload (fd_frame d))) (length bs)"
  define d1 where "d1 = d\<lparr>fd_frame := (fd_frame d)\<lparr>payload := payload (fd_frame d) @ take n bs\<rparr>\<rparr>"
  have d: "length (fd_header d) = 6" "fd_header_size d = 6" "fd_payload_size d = read_le24 (drop 3 (fd_header d))"
    "fd_payload_size d \<le> fd_maximum_payload_size d" "length (payload (fd_frame d)) < unat (fd_payload_size d)"
    "extension_type (fd_frame d) = read_le16 (fd_header d)" "message_type (fd_frame d) = fd_header d ! 2"
    using inv rd by (auto simp: decoder_inv_def)
  have n: "0 < n" "n \<le> length bs" "length (payload (fd_frame d)) + n \<le> unat (fd_payload_size d)"
    using d(5) ne by (auto simp: n_def)
  have buf: "pending d @ bs = fd_header d @ payload (fd_frame d1) @ drop n bs"
    using rd by (simp add: pending_def d1_def)
  have wire: "wire_size (pending d @ bs) = unat (fd_payload_size d)"
    using buf d(1,3) by (simp add: wire_size_def unat_read_le24)
  have len: "length (drop n bs) < length bs"
    using n ne by simp
  have d1: "fd_maximum_payload_size d1 = fd_maximum_payload_size d" "fd_payload_size d1 = fd_payload_size d"
    "fd_header d1 = fd_header d" "length (payload (fd_frame d1)) = length (payload (fd_frame d)) + n"
    using n by (simp_all add: d1_def)
  have e: "extension_type (fd_frame d1) = read_le16 (fd_header d)" "message_type (fd_frame d1) = fd_header d ! 2"
    using d(6,7) by (simp_all add: d1_def)
  have loop: "decoder_loop d bs completed
      = (case complete_frame d1 completed of (d, completed) \<Rightarrow> decoder_loop d (drop n bs) completed)"
    using rd ne by (subst decoder_loop.simps) (simp add: d1_def n_def Let_def)
  show ?thesis
  proof (cases "length (payload (fd_frame d1)) = unat (fd_payload_size d)")
    case True
    then have "push_spec (reset_frame d1) (drop n bs) (completed @ [fd_frame d1]) (decoder_loop d bs completed)"
      using IH [OF len, of "reset_frame d1"] d1 d(1) by (simp add: loop complete_frame_def decoder_reset)
    moreover have "fd_frame d1 = wire_frame (pending d @ bs)"
      unfolding wire_frame_def wire unfolding buf
      by (rule Frame.equality) (use True d(1) e in \<open>auto simp: read_le16_def nth_append\<close>)
    moreover have "6 + wire_size (pending d @ bs) \<le> length (pending d @ bs)"
      "drop n bs = drop (6 + wire_size (pending d @ bs)) (pending d @ bs)"
      unfolding wire unfolding buf using True d(1) by simp_all
    ultimately show ?thesis
      using d(4) wire decoder_reset(2,3) d1(1)
      by (intro push_spec_frame [of "reset_frame d1" "drop n bs" completed "fd_frame d1"]) (simp_all only: word_le_nat_alt)
  next
    case False
    then have "decoder_inv d1"
      using d rd n(3) by (auto simp: decoder_inv_def d1_def)
    then have "push_spec d1 (drop n bs) completed (decoder_loop d bs completed)"
      using IH [OF len] False d1 by (simp add: loop complete_frame_def)
    then show ?thesis
      by (rule push_spec_same) (use buf rd d1 in \<open>simp_all add: pending_def d1_def\<close>)
  qed
qed

lemma decoder_loop_spec: "decoder_inv d \<Longrightarrow> push_spec d bs completed (decoder_loop d bs completed)"
proof (induction bs arbitrary: d completed rule: length_induct)
  case (1 bs)
  show ?case
  proof (cases "bs = []")
    case True
    then show ?thesis
      using "1.prems" parse_pending [of d]
      by (subst decoder_loop.simps) (simp add: push_spec_def)
  next
    case False
    then show ?thesis
      using 1 decoder_loop_header [of d bs completed] decoder_loop_payload [of d bs completed] by blast
  qed
qed

section \<open>The decoder over a connection\<close>

inductive decoder_reachable :: "u32 \<Rightarrow> FrameDecoder \<Rightarrow> bool" for m where
  start: "decoder_reachable m (FrameDecoder_init m)"
| step: "decoder_reachable m d \<Longrightarrow> push d bs = Some (d', r) \<Longrightarrow> decoder_reachable m d'"

lemma push_spec_push: "decoder_inv d \<Longrightarrow> push_spec d bs [] (push d bs)"
  unfolding push_def by (rule decoder_loop_spec)

lemma decoder_reachable_inv:
  "decoder_reachable m d \<Longrightarrow> decoder_inv d \<and> fd_maximum_payload_size d = m"
proof (induction rule: decoder_reachable.induct)
  case start
  then show ?case using decoder_init(1) by (simp add: FrameDecoder_init_def)
next
  case (step d bs d' r)
  then show ?case using push_spec_push [of d bs] by (auto simp: push_spec_def)
qed

lemma push_Inr:
  assumes "decoder_reachable m d" "parse_frames (unat m) (pending d @ bs) = (fs, rest, False)"
  obtains d' where "push d bs = Some (d', Inr fs)" "decoder_reachable m d'" "pending d' = rest"
  using push_spec_push [of d bs] decoder_reachable_inv [OF assms(1)] assms(2) decoder_reachable.step [OF assms(1)]
  by (auto simp: push_spec_def)

lemma push_Inl:
  assumes "decoder_reachable m d" "parse_frames (unat m) (pending d @ bs) = (fs, rest, True)"
  obtains d' where "push d bs = Some (d', Inl (''SV2 frame payload exceeds the configured limit'', fs))"
    "decoder_reachable m d'" "pending d' = []"
  using push_spec_push [of d bs] decoder_reachable_inv [OF assms(1)] assms(2) decoder_reachable.step [OF assms(1)]
  by (auto simp: push_spec_def)

lemma finish_reachable: "decoder_reachable m d \<Longrightarrow> finish d = Inr () \<longleftrightarrow> pending d = []"
  using decoder_reachable_inv [of m d] by (auto simp: finish_def pending_def decoder_inv_def split: if_splits)

text \<open>The reads of a connection, in order, stopping at the first error.\<close>

fun push_all :: "FrameDecoder \<Rightarrow> bytes list \<Rightarrow> (FrameDecoder \<times> push_result) option" where
  "push_all d [] = Some (d, Inr [])"
| "push_all d (c # cs) = (case push d c of
     None \<Rightarrow> None
   | Some (d, Inl e) \<Rightarrow> Some (d, Inl e)
   | Some (d, Inr fs) \<Rightarrow> (case push_all d cs of
       None \<Rightarrow> None
     | Some (d, Inl (msg, fs')) \<Rightarrow> Some (d, Inl (msg, fs @ fs'))
     | Some (d, Inr fs') \<Rightarrow> Some (d, Inr (fs @ fs'))))"

definition stream_result :: "nat \<Rightarrow> bytes \<Rightarrow> push_result \<times> bytes" where
  "stream_result m bs = (case parse_frames m bs of
     (fs, rest, True) \<Rightarrow> (Inl (''SV2 frame payload exceeds the configured limit'', fs), [])
   | (fs, rest, False) \<Rightarrow> (Inr fs, rest))"

lemma parse_frames_append_err:
  "parse_frames m a = (fs, rest, True) \<Longrightarrow> \<exists>rest'. parse_frames m (a @ b) = (fs, rest', True)"
proof (induction m a arbitrary: fs rule: parse_frames.induct)
  case (1 m a)
  have len: "6 \<le> length a"
    using "1.prems" by (subst (asm) parse_frames.simps) (auto split: if_splits)
  then have same: "wire_size (a @ b) = wire_size a"
    by (simp add: wire_size_def)
  show ?case
  proof (cases "wire_size a > m")
    case True
    then show ?thesis
      using len "1.prems" same by (subst parse_frames.simps) (auto simp: parse_frames.simps [of m a])
  next
    case False
    then have le: "6 + wire_size a \<le> length a"
      using "1.prems" len by (subst (asm) parse_frames.simps) (auto split: if_splits)
    obtain fs1 where fs: "fs = wire_frame a # fs1" "parse_frames m (drop (6 + wire_size a) a) = (fs1, rest, True)"
      using "1.prems" len False le by (subst (asm) parse_frames.simps) (auto split: prod.splits)
    then obtain rest' where "parse_frames m (drop (6 + wire_size a) a @ b) = (fs1, rest', True)"
      using "1.IH" len False le by (metis not_less)
    moreover have "wire_frame (a @ b) = wire_frame a"
      using len le same by (auto simp: wire_frame_def read_le16_def nth_append)
    ultimately show ?thesis
      using len False le same fs(1) by (subst parse_frames.simps) simp
  qed
qed

lemma push_all_stream:
  "decoder_reachable m d \<Longrightarrow>
    \<exists>d'. decoder_reachable m d' \<and>
      push_all d cs = Some (d', fst (stream_result (unat m) (pending d @ concat cs)))
      \<and> pending d' = snd (stream_result (unat m) (pending d @ concat cs))"
proof (induction cs arbitrary: d)
  case Nil
  then show ?case
    using parse_pending [of d] decoder_reachable_inv [of m d] by (auto simp: stream_result_def)
next
  case (Cons c cs)
  obtain fs rest err where p: "parse_frames (unat m) (pending d @ c) = (fs, rest, err)"
    by (metis prod_cases3)
  show ?case
  proof (cases err)
    case True
    then obtain d1 where d1: "push d c = Some (d1, Inl (''SV2 frame payload exceeds the configured limit'', fs))"
      "decoder_reachable m d1" "pending d1 = []"
      using p push_Inl [OF Cons.prems] by metis
    moreover obtain rest' where "parse_frames (unat m) (pending d @ c @ concat cs) = (fs, rest', True)"
      using parse_frames_append_err p True by fastforce
    ultimately show ?thesis by (simp add: stream_result_def)
  next
    case False
    then obtain d1 where d1: "push d c = Some (d1, Inr fs)" "decoder_reachable m d1" "pending d1 = rest"
      using p push_Inr [OF Cons.prems] by metis
    then show ?thesis
      using Cons.IH [OF d1(2)] parse_frames_append [of "unat m" "pending d @ c" fs rest "concat cs"] p False
      by (auto simp: stream_result_def split: prod.splits bool.splits)
  qed
qed

lemma wire_encode_frame:
  assumes "encode_frame f = Inr w"
  shows "wire_size (w @ rest) = length (payload f)" "length w = 6 + length (payload f)"
    "wire_frame (w @ rest) = f"
proof -
  have len: "length (payload f) < 2 ^ 24"
    and w: "w = write_le16 (extension_type f) @ [message_type f]
       @ write_le24 (word_of_nat (length (payload f))) @ payload f"
    using assms by (auto simp: encode_frame_def kMaximumFramePayloadSize_def split: if_splits)
  show size: "wire_size (w @ rest) = length (payload f)"
    using len by (simp add: w wire_size_def write_le24_encode le_value_encode unat_of_nat take_bit_nat_eq_self)
  show "length w = 6 + length (payload f)"
    by (simp add: w)
  show "wire_frame (w @ rest) = f"
    unfolding wire_frame_def size by (simp add: w nth_append)
qed

lemma parse_encode_frames:
  "list_all2 (\<lambda>f w. encode_frame f = Inr w \<and> length (payload f) \<le> m) fs ws \<Longrightarrow>
    parse_frames m (concat ws) = (fs, [], False)"
proof (induction rule: list_all2_induct)
  case Nil
  then show ?case by (simp add: parse_frames.simps)
next
  case (Cons f fs w ws)
  then show ?case
    using wire_encode_frame [of f w] by (subst parse_frames.simps) simp
qed

text \<open>C24: however the transport cuts a stream of bytes into reads, the decoder returns on each of them,
  and over all of them it produces what one parse of the whole stream gives: the same frames in the
  same order, and, at a frame over the configured limit, the error carrying the frames completed before it.\<close>

theorem push_all_correct:
  "\<exists>d'. push_all (FrameDecoder_init m) reads = Some (d', fst (stream_result (unat m) (concat reads)))
     \<and> decoder_inv d' \<and> pending d' = snd (stream_result (unat m) (concat reads))
     \<and> (finish d' = Inr () \<longleftrightarrow> pending d' = [])"
proof -
  obtain d' where d': "decoder_reachable m d'"
    "push_all (FrameDecoder_init m) reads = Some (d', fst (stream_result (unat m) (concat reads)))"
    "pending d' = snd (stream_result (unat m) (concat reads))"
    using push_all_stream [OF decoder_reachable.start, of m reads] by (auto simp: decoder_init)
  moreover have "decoder_inv d'"
    using d'(1) decoder_reachable_inv by blast
  moreover have "finish d' = Inr () \<longleftrightarrow> pending d' = []"
    using d'(1) by (rule finish_reachable)
  ultimately show ?thesis by blast
qed

text \<open>The frames a peer encodes are the frames the decoder completes, whatever the reads, and the
  decoder then reports no truncation at the end of the stream.\<close>

theorem frame_stream_roundtrip:
  assumes "list_all2 (\<lambda>f w. encode_frame f = Inr w \<and> length (payload f) \<le> unat m) fs ws"
    and "concat reads = concat ws"
  shows "\<exists>d'. push_all (FrameDecoder_init m) reads = Some (d', Inr fs) \<and> finish d' = Inr ()"
proof -
  obtain d' where d': "decoder_reachable m d'" "push_all (FrameDecoder_init m) reads = Some (d', Inr fs)" "pending d' = []"
    using push_all_stream [OF decoder_reachable.start, of m reads] parse_encode_frames [OF assms(1)] assms(2)
    by (auto simp: decoder_init stream_result_def)
  moreover have "finish d' = Inr ()"
    using d'(3) finish_reachable [OF d'(1)] by simp
  ultimately show ?thesis by blast
qed

theorem frame_stream_roundtrip_witness:
  "\<exists>d'. push_all (FrameDecoder_init 4) [[0, 0x80], [0x1a, 2, 0, 0, 7], [9, 0, 0, 1, 0, 0, 0]]
     = Some (d', Inr [\<lparr>extension_type = 0x8000, message_type = 0x1a, payload = [7, 9]\<rparr>,
                     \<lparr>extension_type = 0, message_type = 1, payload = []\<rparr>]) \<and> finish d' = Inr ()"
  by (rule frame_stream_roundtrip [where ws = "[[0, 0x80, 0x1a, 2, 0, 0, 7, 9], [0, 0, 1, 0, 0, 0]]"])
    (simp_all add: encode_frame_def kMaximumFramePayloadSize_def write_le16_def write_le24_def upt_small)

end
