(* ===== verification/Sv2_Messages.thy ===== *)
theory Sv2_Messages
  imports Sv2_Codec
begin

text \<open>
  \<^verbatim>\<open>src/src/sv2/messages.hpp\<close> and \<^verbatim>\<open>src/src/sv2/messages.cpp\<close>: the twenty Stratum V2 messages, one record per
  struct, with the payload codecs. A \<^verbatim>\<open>Writer\<close> is the bytes written so far, a \<^verbatim>\<open>Reader\<close> the bytes not yet
  taken. A \<^verbatim>\<open>float\<close> field is kept as the bit pattern that \<^verbatim>\<open>std::bit_cast\<close> gives. Every field type is an
  instance of one locale (what is written is read back; a read looks at nothing past the field), and the
  round trips, the canonical form and the error behaviour of all messages follow from its laws.
\<close>

type_synonym U256 = bytes
type_synonym float_bits = u32

definition kProtocolVersion :: u16 where
  "kProtocolVersion = 2"

definition kMiningProtocol :: u8 where
  "kMiningProtocol = 0"

definition kSetupFlagRequiresStandardJobs :: u32 where
  "kSetupFlagRequiresStandardJobs = push_bit 0 1"

definition kSetupFlagRequiresVersionRolling :: u32 where
  "kSetupFlagRequiresVersionRolling = push_bit 2 1"

definition kSetupSuccessFlagRequiresFixedVersion :: u32 where
  "kSetupSuccessFlagRequiresFixedVersion = push_bit 0 1"

section \<open>Writer\<close>

definition wr_u8 :: "u8 \<Rightarrow> bytes \<Rightarrow> bytes result" where
  "wr_u8 v w = Inr (w @ [v])"

definition wr_u16 :: "u16 \<Rightarrow> bytes \<Rightarrow> bytes result" where
  "wr_u16 v w = Inr (w @ write_le16 v)"

definition wr_u32 :: "u32 \<Rightarrow> bytes \<Rightarrow> bytes result" where
  "wr_u32 v w = Inr (append_le32 w v)"

definition wr_u64 :: "u64 \<Rightarrow> bytes \<Rightarrow> bytes result" where
  "wr_u64 v w = Inr (append_le64 w v)"

definition wr_f32 :: "float_bits \<Rightarrow> bytes \<Rightarrow> bytes result" where
  "wr_f32 v w = wr_u32 v w"

definition wr_u256 :: "U256 \<Rightarrow> bytes \<Rightarrow> bytes result" where
  "wr_u256 v w = Inr (w @ v)"

definition wr_boolean :: "bool \<Rightarrow> bytes \<Rightarrow> bytes result" where
  "wr_boolean v w = wr_u8 (if v then 1 else 0) w"

definition wr_string :: "string \<Rightarrow> bytes \<Rightarrow> bytes result" where
  "wr_string v w =
    (if length v > 255 then Inl (Codec_error ''SV2 STR0_255 exceeds 255 bytes'')
     else bindE (wr_u8 (word_of_nat (length v)) w) (\<lambda>w. Inr (w @ map byte_of_char v)))"

definition wr_b0_32 :: "bytes \<Rightarrow> bytes \<Rightarrow> bytes result" where
  "wr_b0_32 v w =
    (if length v > 32 then Inl (Codec_error ''SV2 B0_32 exceeds 32 bytes'')
     else bindE (wr_u8 (word_of_nat (length v)) w) (\<lambda>w. Inr (w @ v)))"

definition wr_b0_64k :: "bytes \<Rightarrow> bytes \<Rightarrow> bytes result" where
  "wr_b0_64k v w =
    (if length v > 65535 then Inl (Codec_error ''SV2 B0_64K exceeds 65535 bytes'')
     else bindE (wr_u16 (word_of_nat (length v)) w) (\<lambda>w. Inr (w @ v)))"

fun wr_u256s :: "U256 list \<Rightarrow> bytes \<Rightarrow> bytes result" where
  "wr_u256s [] w = Inr w"
| "wr_u256s (v # vs) w = bindE (wr_u256 v w) (wr_u256s vs)"

definition wr_sequence_u256 :: "U256 list \<Rightarrow> bytes \<Rightarrow> bytes result" where
  "wr_sequence_u256 vs w =
    (if length vs > 255 then Inl (Codec_error ''SV2 SEQ0_255[U256] exceeds 255 elements'')
     else bindE (wr_u8 (word_of_nat (length vs)) w) (wr_u256s vs))"

definition wr_option_u32 :: "u32 option \<Rightarrow> bytes \<Rightarrow> bytes result" where
  "wr_option_u32 v w =
    bindE (wr_u8 (if v \<noteq> None then 1 else 0) w) (\<lambda>w.
    case v of Some x \<Rightarrow> wr_u32 x w | None \<Rightarrow> Inr w)"

section \<open>Reader\<close>

definition rd_take :: "nat \<Rightarrow> bytes \<Rightarrow> (bytes \<times> bytes) result" where
  "rd_take count r =
    (if count > length r then Inl (Codec_error ''truncated SV2 message'')
     else Inr (take count r, drop count r))"

definition rd_u8 :: "bytes \<Rightarrow> (u8 \<times> bytes) result" where
  "rd_u8 r = bindE (rd_take 1 r) (\<lambda>(v, r). Inr (v ! 0, r))"

definition rd_u16 :: "bytes \<Rightarrow> (u16 \<times> bytes) result" where
  "rd_u16 r = bindE (rd_take 2 r) (\<lambda>(v, r). Inr (read_le16 v, r))"

definition rd_u32 :: "bytes \<Rightarrow> (u32 \<times> bytes) result" where
  "rd_u32 r = bindE (rd_take 4 r) (\<lambda>(v, r). Inr (read_le32 v, r))"

definition rd_u64 :: "bytes \<Rightarrow> (u64 \<times> bytes) result" where
  "rd_u64 r = bindE (rd_take 8 r) (\<lambda>(v, r). Inr (read_le64 v, r))"

definition rd_f32 :: "bytes \<Rightarrow> (float_bits \<times> bytes) result" where
  "rd_f32 r = rd_u32 r"

definition rd_boolean :: "bytes \<Rightarrow> (bool \<times> bytes) result" where
  "rd_boolean r = bindE (rd_u8 r) (\<lambda>(v, r). Inr (v AND 1 \<noteq> 0, r))"

definition rd_u256 :: "bytes \<Rightarrow> (U256 \<times> bytes) result" where
  "rd_u256 r = rd_take 32 r"

definition rd_string :: "bytes \<Rightarrow> (string \<times> bytes) result" where
  "rd_string r = bindE (rd_u8 r) (\<lambda>(n, r). bindE (rd_take (unat n) r) (\<lambda>(v, r). Inr (map char_of_byte v, r)))"

definition rd_b0_32 :: "bytes \<Rightarrow> (bytes \<times> bytes) result" where
  "rd_b0_32 r = bindE (rd_u8 r) (\<lambda>(n, r).
    if n > 32 then Inl (Codec_error ''SV2 B0_32 exceeds 32 bytes'') else rd_take (unat n) r)"

definition rd_b0_64k :: "bytes \<Rightarrow> (bytes \<times> bytes) result" where
  "rd_b0_64k r = bindE (rd_u16 r) (\<lambda>(n, r). rd_take (unat n) r)"

fun rd_u256s :: "nat \<Rightarrow> bytes \<Rightarrow> (U256 list \<times> bytes) result" where
  "rd_u256s 0 r = Inr ([], r)"
| "rd_u256s (Suc n) r = bindE (rd_u256 r) (\<lambda>(v, r). bindE (rd_u256s n r) (\<lambda>(vs, r). Inr (v # vs, r)))"

definition rd_sequence_u256 :: "bytes \<Rightarrow> (U256 list \<times> bytes) result" where
  "rd_sequence_u256 r = bindE (rd_u8 r) (\<lambda>(n, r). rd_u256s (unat n) r)"

definition rd_option_u32 :: "bytes \<Rightarrow> (u32 option \<times> bytes) result" where
  "rd_option_u32 r = bindE (rd_u8 r) (\<lambda>(count, r).
    if count = 0 then Inr (None, r)
    else if count = 1 then bindE (rd_u32 r) (\<lambda>(v, r). Inr (Some v, r))
    else Inl (Codec_error ''SV2 OPTION count exceeds one''))"

definition rd_finish :: "bytes \<Rightarrow> unit result" where
  "rd_finish r = (if r \<noteq> [] then Inl (Codec_error ''unexpected trailing bytes in SV2 message'') else Inr ())"

definition decode :: "(bytes \<Rightarrow> ('m \<times> bytes) result) \<Rightarrow> bytes \<Rightarrow> 'm result" where
  "decode parse p = bindE (parse p) (\<lambda>(m, r). bindE (rd_finish r) (\<lambda>_. Inr m))"

section \<open>Messages\<close>

record SetupConnection =
  sc_protocol :: u8
  sc_minimum_version :: u16
  sc_maximum_version :: u16
  sc_flags :: u32
  sc_endpoint_host :: string
  sc_endpoint_port :: u16
  sc_vendor :: string
  sc_hardware_version :: string
  sc_firmware :: string
  sc_device_id :: string

record SetupConnectionSuccess =
  scs_used_version :: u16
  scs_flags :: u32

record SetupConnectionError =
  sce_flags :: u32
  sce_error_code :: string

record OpenStandardMiningChannel =
  osmc_request_id :: u32
  osmc_user_identity :: string
  osmc_nominal_hash_rate :: float_bits
  osmc_maximum_target :: U256

record OpenStandardMiningChannelSuccess =
  osmcs_request_id :: u32
  osmcs_channel_id :: u32
  osmcs_target :: U256
  osmcs_extranonce_prefix :: bytes
  osmcs_group_channel_id :: u32

record OpenMiningChannelError =
  omce_request_id :: u32
  omce_error_code :: string

record OpenExtendedMiningChannel =
  oemc_request_id :: u32
  oemc_user_identity :: string
  oemc_nominal_hash_rate :: float_bits
  oemc_maximum_target :: U256
  oemc_minimum_extranonce_size :: u16

record OpenExtendedMiningChannelSuccess =
  oemcs_request_id :: u32
  oemcs_channel_id :: u32
  oemcs_target :: U256
  oemcs_extranonce_size :: u16
  oemcs_extranonce_prefix :: bytes
  oemcs_group_channel_id :: u32

record NewMiningJob =
  nmj_channel_id :: u32
  nmj_job_id :: u32
  nmj_minimum_ntime :: "u32 option"
  nmj_version :: u32
  nmj_merkle_root :: U256

record UpdateChannel =
  uc_channel_id :: u32
  uc_nominal_hash_rate :: float_bits
  uc_maximum_target :: U256

record UpdateChannelError =
  uce_channel_id :: u32
  uce_error_code :: string

record CloseChannel =
  cc_channel_id :: u32
  cc_reason_code :: string

record SetExtranoncePrefix =
  sep_channel_id :: u32
  sep_extranonce_prefix :: bytes

record SubmitSharesStandard =
  sst_channel_id :: u32
  sst_sequence_number :: u32
  sst_job_id :: u32
  sst_nonce :: u32
  sst_ntime :: u32
  sst_version :: u32

record SubmitSharesExtended =
  sse_channel_id :: u32
  sse_sequence_number :: u32
  sse_job_id :: u32
  sse_nonce :: u32
  sse_ntime :: u32
  sse_version :: u32
  sse_extranonce :: bytes

record SubmitSharesSuccess =
  sss_channel_id :: u32
  sss_last_sequence_number :: u32
  sss_new_submits_accepted_count :: u32
  sss_new_shares_sum :: u64

record SubmitSharesError =
  sserr_channel_id :: u32
  sserr_sequence_number :: u32
  sserr_error_code :: string

record NewExtendedMiningJob =
  nemj_channel_id :: u32
  nemj_job_id :: u32
  nemj_minimum_ntime :: "u32 option"
  nemj_version :: u32
  nemj_version_rolling_allowed :: bool
  nemj_merkle_path :: "U256 list"
  nemj_coinbase_tx_prefix :: bytes
  nemj_coinbase_tx_suffix :: bytes

record SetNewPrevHash =
  snph_channel_id :: u32
  snph_job_id :: u32
  snph_previous_hash :: U256
  snph_minimum_ntime :: u32
  snph_nbits :: u32

record SetTarget =
  st_channel_id :: u32
  st_maximum_target :: U256

section \<open>Encoding\<close>

definition encode_payload_SetupConnection :: "SetupConnection \<Rightarrow> bytes result" where
  "encode_payload_SetupConnection message =
    bindE (wr_u8 (sc_protocol message) []) (\<lambda>w.
    bindE (wr_u16 (sc_minimum_version message) w) (\<lambda>w.
    bindE (wr_u16 (sc_maximum_version message) w) (\<lambda>w.
    bindE (wr_u32 (sc_flags message) w) (\<lambda>w.
    bindE (wr_string (sc_endpoint_host message) w) (\<lambda>w.
    bindE (wr_u16 (sc_endpoint_port message) w) (\<lambda>w.
    bindE (wr_string (sc_vendor message) w) (\<lambda>w.
    bindE (wr_string (sc_hardware_version message) w) (\<lambda>w.
    bindE (wr_string (sc_firmware message) w) (\<lambda>w.
    wr_string (sc_device_id message) w)))))))))"

definition encode_payload_SetupConnectionSuccess :: "SetupConnectionSuccess \<Rightarrow> bytes result" where
  "encode_payload_SetupConnectionSuccess message =
    bindE (wr_u16 (scs_used_version message) []) (\<lambda>w.
    wr_u32 (scs_flags message) w)"

definition encode_payload_SetupConnectionError :: "SetupConnectionError \<Rightarrow> bytes result" where
  "encode_payload_SetupConnectionError message =
    bindE (wr_u32 (sce_flags message) []) (\<lambda>w.
    wr_string (sce_error_code message) w)"

definition encode_payload_OpenStandardMiningChannel :: "OpenStandardMiningChannel \<Rightarrow> bytes result" where
  "encode_payload_OpenStandardMiningChannel message =
    bindE (wr_u32 (osmc_request_id message) []) (\<lambda>w.
    bindE (wr_string (osmc_user_identity message) w) (\<lambda>w.
    bindE (wr_f32 (osmc_nominal_hash_rate message) w) (\<lambda>w.
    wr_u256 (osmc_maximum_target message) w)))"

definition encode_payload_OpenStandardMiningChannelSuccess :: "OpenStandardMiningChannelSuccess \<Rightarrow> bytes result" where
  "encode_payload_OpenStandardMiningChannelSuccess message =
    bindE (wr_u32 (osmcs_request_id message) []) (\<lambda>w.
    bindE (wr_u32 (osmcs_channel_id message) w) (\<lambda>w.
    bindE (wr_u256 (osmcs_target message) w) (\<lambda>w.
    bindE (wr_b0_32 (osmcs_extranonce_prefix message) w) (\<lambda>w.
    wr_u32 (osmcs_group_channel_id message) w))))"

definition encode_payload_OpenMiningChannelError :: "OpenMiningChannelError \<Rightarrow> bytes result" where
  "encode_payload_OpenMiningChannelError message =
    bindE (wr_u32 (omce_request_id message) []) (\<lambda>w.
    wr_string (omce_error_code message) w)"

definition encode_payload_OpenExtendedMiningChannel :: "OpenExtendedMiningChannel \<Rightarrow> bytes result" where
  "encode_payload_OpenExtendedMiningChannel message =
    bindE (wr_u32 (oemc_request_id message) []) (\<lambda>w.
    bindE (wr_string (oemc_user_identity message) w) (\<lambda>w.
    bindE (wr_f32 (oemc_nominal_hash_rate message) w) (\<lambda>w.
    bindE (wr_u256 (oemc_maximum_target message) w) (\<lambda>w.
    wr_u16 (oemc_minimum_extranonce_size message) w))))"

definition encode_payload_OpenExtendedMiningChannelSuccess :: "OpenExtendedMiningChannelSuccess \<Rightarrow> bytes result" where
  "encode_payload_OpenExtendedMiningChannelSuccess message =
    bindE (wr_u32 (oemcs_request_id message) []) (\<lambda>w.
    bindE (wr_u32 (oemcs_channel_id message) w) (\<lambda>w.
    bindE (wr_u256 (oemcs_target message) w) (\<lambda>w.
    bindE (wr_u16 (oemcs_extranonce_size message) w) (\<lambda>w.
    bindE (wr_b0_32 (oemcs_extranonce_prefix message) w) (\<lambda>w.
    wr_u32 (oemcs_group_channel_id message) w)))))"

definition encode_payload_UpdateChannel :: "UpdateChannel \<Rightarrow> bytes result" where
  "encode_payload_UpdateChannel message =
    bindE (wr_u32 (uc_channel_id message) []) (\<lambda>w.
    bindE (wr_f32 (uc_nominal_hash_rate message) w) (\<lambda>w.
    wr_u256 (uc_maximum_target message) w))"

definition encode_payload_UpdateChannelError :: "UpdateChannelError \<Rightarrow> bytes result" where
  "encode_payload_UpdateChannelError message =
    bindE (wr_u32 (uce_channel_id message) []) (\<lambda>w.
    wr_string (uce_error_code message) w)"

definition encode_payload_CloseChannel :: "CloseChannel \<Rightarrow> bytes result" where
  "encode_payload_CloseChannel message =
    bindE (wr_u32 (cc_channel_id message) []) (\<lambda>w.
    wr_string (cc_reason_code message) w)"

definition encode_payload_SetExtranoncePrefix :: "SetExtranoncePrefix \<Rightarrow> bytes result" where
  "encode_payload_SetExtranoncePrefix message =
    bindE (wr_u32 (sep_channel_id message) []) (\<lambda>w.
    wr_b0_32 (sep_extranonce_prefix message) w)"

definition encode_payload_NewMiningJob :: "NewMiningJob \<Rightarrow> bytes result" where
  "encode_payload_NewMiningJob message =
    bindE (wr_u32 (nmj_channel_id message) []) (\<lambda>w.
    bindE (wr_u32 (nmj_job_id message) w) (\<lambda>w.
    bindE (wr_option_u32 (nmj_minimum_ntime message) w) (\<lambda>w.
    bindE (wr_u32 (nmj_version message) w) (\<lambda>w.
    wr_u256 (nmj_merkle_root message) w))))"

definition encode_payload_SubmitSharesStandard :: "SubmitSharesStandard \<Rightarrow> bytes result" where
  "encode_payload_SubmitSharesStandard message =
    bindE (wr_u32 (sst_channel_id message) []) (\<lambda>w.
    bindE (wr_u32 (sst_sequence_number message) w) (\<lambda>w.
    bindE (wr_u32 (sst_job_id message) w) (\<lambda>w.
    bindE (wr_u32 (sst_nonce message) w) (\<lambda>w.
    bindE (wr_u32 (sst_ntime message) w) (\<lambda>w.
    wr_u32 (sst_version message) w)))))"

definition encode_payload_SubmitSharesExtended :: "SubmitSharesExtended \<Rightarrow> bytes result" where
  "encode_payload_SubmitSharesExtended message =
    bindE (wr_u32 (sse_channel_id message) []) (\<lambda>w.
    bindE (wr_u32 (sse_sequence_number message) w) (\<lambda>w.
    bindE (wr_u32 (sse_job_id message) w) (\<lambda>w.
    bindE (wr_u32 (sse_nonce message) w) (\<lambda>w.
    bindE (wr_u32 (sse_ntime message) w) (\<lambda>w.
    bindE (wr_u32 (sse_version message) w) (\<lambda>w.
    wr_b0_32 (sse_extranonce message) w))))))"

definition encode_payload_SubmitSharesSuccess :: "SubmitSharesSuccess \<Rightarrow> bytes result" where
  "encode_payload_SubmitSharesSuccess message =
    bindE (wr_u32 (sss_channel_id message) []) (\<lambda>w.
    bindE (wr_u32 (sss_last_sequence_number message) w) (\<lambda>w.
    bindE (wr_u32 (sss_new_submits_accepted_count message) w) (\<lambda>w.
    wr_u64 (sss_new_shares_sum message) w)))"

definition encode_payload_SubmitSharesError :: "SubmitSharesError \<Rightarrow> bytes result" where
  "encode_payload_SubmitSharesError message =
    bindE (wr_u32 (sserr_channel_id message) []) (\<lambda>w.
    bindE (wr_u32 (sserr_sequence_number message) w) (\<lambda>w.
    wr_string (sserr_error_code message) w))"

definition encode_payload_NewExtendedMiningJob :: "NewExtendedMiningJob \<Rightarrow> bytes result" where
  "encode_payload_NewExtendedMiningJob message =
    bindE (wr_u32 (nemj_channel_id message) []) (\<lambda>w.
    bindE (wr_u32 (nemj_job_id message) w) (\<lambda>w.
    bindE (wr_option_u32 (nemj_minimum_ntime message) w) (\<lambda>w.
    bindE (wr_u32 (nemj_version message) w) (\<lambda>w.
    bindE (wr_boolean (nemj_version_rolling_allowed message) w) (\<lambda>w.
    bindE (wr_sequence_u256 (nemj_merkle_path message) w) (\<lambda>w.
    bindE (wr_b0_64k (nemj_coinbase_tx_prefix message) w) (\<lambda>w.
    wr_b0_64k (nemj_coinbase_tx_suffix message) w)))))))"

definition encode_payload_SetNewPrevHash :: "SetNewPrevHash \<Rightarrow> bytes result" where
  "encode_payload_SetNewPrevHash message =
    bindE (wr_u32 (snph_channel_id message) []) (\<lambda>w.
    bindE (wr_u32 (snph_job_id message) w) (\<lambda>w.
    bindE (wr_u256 (snph_previous_hash message) w) (\<lambda>w.
    bindE (wr_u32 (snph_minimum_ntime message) w) (\<lambda>w.
    wr_u32 (snph_nbits message) w))))"

definition encode_payload_SetTarget :: "SetTarget \<Rightarrow> bytes result" where
  "encode_payload_SetTarget message =
    bindE (wr_u32 (st_channel_id message) []) (\<lambda>w.
    wr_u256 (st_maximum_target message) w)"

section \<open>Decoding\<close>

definition decode_setup_connection :: "bytes \<Rightarrow> SetupConnection result" where
  "decode_setup_connection = decode (\<lambda>r.
    bindE (rd_u8 r) (\<lambda>(protocol, r).
    bindE (rd_u16 r) (\<lambda>(minimum_version, r).
    bindE (rd_u16 r) (\<lambda>(maximum_version, r).
    bindE (rd_u32 r) (\<lambda>(flags, r).
    bindE (rd_string r) (\<lambda>(endpoint_host, r).
    bindE (rd_u16 r) (\<lambda>(endpoint_port, r).
    bindE (rd_string r) (\<lambda>(vendor, r).
    bindE (rd_string r) (\<lambda>(hardware_version, r).
    bindE (rd_string r) (\<lambda>(firmware, r).
    bindE (rd_string r) (\<lambda>(device_id, r).
    Inr (\<lparr>sc_protocol = protocol, sc_minimum_version = minimum_version, sc_maximum_version = maximum_version, sc_flags = flags, sc_endpoint_host = endpoint_host, sc_endpoint_port = endpoint_port, sc_vendor = vendor, sc_hardware_version = hardware_version, sc_firmware = firmware, sc_device_id = device_id\<rparr>, r))))))))))))"

definition decode_setup_connection_success :: "bytes \<Rightarrow> SetupConnectionSuccess result" where
  "decode_setup_connection_success = decode (\<lambda>r.
    bindE (rd_u16 r) (\<lambda>(used_version, r).
    bindE (rd_u32 r) (\<lambda>(flags, r).
    Inr (\<lparr>scs_used_version = used_version, scs_flags = flags\<rparr>, r))))"

definition decode_setup_connection_error :: "bytes \<Rightarrow> SetupConnectionError result" where
  "decode_setup_connection_error = decode (\<lambda>r.
    bindE (rd_u32 r) (\<lambda>(flags, r).
    bindE (rd_string r) (\<lambda>(error_code, r).
    Inr (\<lparr>sce_flags = flags, sce_error_code = error_code\<rparr>, r))))"

definition decode_open_standard_mining_channel :: "bytes \<Rightarrow> OpenStandardMiningChannel result" where
  "decode_open_standard_mining_channel = decode (\<lambda>r.
    bindE (rd_u32 r) (\<lambda>(request_id, r).
    bindE (rd_string r) (\<lambda>(user_identity, r).
    bindE (rd_f32 r) (\<lambda>(nominal_hash_rate, r).
    bindE (rd_u256 r) (\<lambda>(maximum_target, r).
    Inr (\<lparr>osmc_request_id = request_id, osmc_user_identity = user_identity, osmc_nominal_hash_rate = nominal_hash_rate, osmc_maximum_target = maximum_target\<rparr>, r))))))"

definition decode_open_standard_mining_channel_success :: "bytes \<Rightarrow> OpenStandardMiningChannelSuccess result" where
  "decode_open_standard_mining_channel_success = decode (\<lambda>r.
    bindE (rd_u32 r) (\<lambda>(request_id, r).
    bindE (rd_u32 r) (\<lambda>(channel_id, r).
    bindE (rd_u256 r) (\<lambda>(target, r).
    bindE (rd_b0_32 r) (\<lambda>(extranonce_prefix, r).
    bindE (rd_u32 r) (\<lambda>(group_channel_id, r).
    Inr (\<lparr>osmcs_request_id = request_id, osmcs_channel_id = channel_id, osmcs_target = target, osmcs_extranonce_prefix = extranonce_prefix, osmcs_group_channel_id = group_channel_id\<rparr>, r)))))))"

definition decode_open_mining_channel_error :: "bytes \<Rightarrow> OpenMiningChannelError result" where
  "decode_open_mining_channel_error = decode (\<lambda>r.
    bindE (rd_u32 r) (\<lambda>(request_id, r).
    bindE (rd_string r) (\<lambda>(error_code, r).
    Inr (\<lparr>omce_request_id = request_id, omce_error_code = error_code\<rparr>, r))))"

definition decode_open_extended_mining_channel :: "bytes \<Rightarrow> OpenExtendedMiningChannel result" where
  "decode_open_extended_mining_channel = decode (\<lambda>r.
    bindE (rd_u32 r) (\<lambda>(request_id, r).
    bindE (rd_string r) (\<lambda>(user_identity, r).
    bindE (rd_f32 r) (\<lambda>(nominal_hash_rate, r).
    bindE (rd_u256 r) (\<lambda>(maximum_target, r).
    bindE (rd_u16 r) (\<lambda>(minimum_extranonce_size, r).
    Inr (\<lparr>oemc_request_id = request_id, oemc_user_identity = user_identity, oemc_nominal_hash_rate = nominal_hash_rate, oemc_maximum_target = maximum_target, oemc_minimum_extranonce_size = minimum_extranonce_size\<rparr>, r)))))))"

definition decode_open_extended_mining_channel_success :: "bytes \<Rightarrow> OpenExtendedMiningChannelSuccess result" where
  "decode_open_extended_mining_channel_success = decode (\<lambda>r.
    bindE (rd_u32 r) (\<lambda>(request_id, r).
    bindE (rd_u32 r) (\<lambda>(channel_id, r).
    bindE (rd_u256 r) (\<lambda>(target, r).
    bindE (rd_u16 r) (\<lambda>(extranonce_size, r).
    bindE (rd_b0_32 r) (\<lambda>(extranonce_prefix, r).
    bindE (rd_u32 r) (\<lambda>(group_channel_id, r).
    Inr (\<lparr>oemcs_request_id = request_id, oemcs_channel_id = channel_id, oemcs_target = target, oemcs_extranonce_size = extranonce_size, oemcs_extranonce_prefix = extranonce_prefix, oemcs_group_channel_id = group_channel_id\<rparr>, r))))))))"

definition decode_update_channel :: "bytes \<Rightarrow> UpdateChannel result" where
  "decode_update_channel = decode (\<lambda>r.
    bindE (rd_u32 r) (\<lambda>(channel_id, r).
    bindE (rd_f32 r) (\<lambda>(nominal_hash_rate, r).
    bindE (rd_u256 r) (\<lambda>(maximum_target, r).
    Inr (\<lparr>uc_channel_id = channel_id, uc_nominal_hash_rate = nominal_hash_rate, uc_maximum_target = maximum_target\<rparr>, r)))))"

definition decode_update_channel_error :: "bytes \<Rightarrow> UpdateChannelError result" where
  "decode_update_channel_error = decode (\<lambda>r.
    bindE (rd_u32 r) (\<lambda>(channel_id, r).
    bindE (rd_string r) (\<lambda>(error_code, r).
    Inr (\<lparr>uce_channel_id = channel_id, uce_error_code = error_code\<rparr>, r))))"

definition decode_close_channel :: "bytes \<Rightarrow> CloseChannel result" where
  "decode_close_channel = decode (\<lambda>r.
    bindE (rd_u32 r) (\<lambda>(channel_id, r).
    bindE (rd_string r) (\<lambda>(reason_code, r).
    Inr (\<lparr>cc_channel_id = channel_id, cc_reason_code = reason_code\<rparr>, r))))"

definition decode_set_extranonce_prefix :: "bytes \<Rightarrow> SetExtranoncePrefix result" where
  "decode_set_extranonce_prefix = decode (\<lambda>r.
    bindE (rd_u32 r) (\<lambda>(channel_id, r).
    bindE (rd_b0_32 r) (\<lambda>(extranonce_prefix, r).
    Inr (\<lparr>sep_channel_id = channel_id, sep_extranonce_prefix = extranonce_prefix\<rparr>, r))))"

definition decode_new_mining_job :: "bytes \<Rightarrow> NewMiningJob result" where
  "decode_new_mining_job = decode (\<lambda>r.
    bindE (rd_u32 r) (\<lambda>(channel_id, r).
    bindE (rd_u32 r) (\<lambda>(job_id, r).
    bindE (rd_option_u32 r) (\<lambda>(minimum_ntime, r).
    bindE (rd_u32 r) (\<lambda>(version, r).
    bindE (rd_u256 r) (\<lambda>(merkle_root, r).
    Inr (\<lparr>nmj_channel_id = channel_id, nmj_job_id = job_id, nmj_minimum_ntime = minimum_ntime, nmj_version = version, nmj_merkle_root = merkle_root\<rparr>, r)))))))"

definition decode_submit_shares_standard :: "bytes \<Rightarrow> SubmitSharesStandard result" where
  "decode_submit_shares_standard = decode (\<lambda>r.
    bindE (rd_u32 r) (\<lambda>(channel_id, r).
    bindE (rd_u32 r) (\<lambda>(sequence_number, r).
    bindE (rd_u32 r) (\<lambda>(job_id, r).
    bindE (rd_u32 r) (\<lambda>(nonce, r).
    bindE (rd_u32 r) (\<lambda>(ntime, r).
    bindE (rd_u32 r) (\<lambda>(version, r).
    Inr (\<lparr>sst_channel_id = channel_id, sst_sequence_number = sequence_number, sst_job_id = job_id, sst_nonce = nonce, sst_ntime = ntime, sst_version = version\<rparr>, r))))))))"

definition decode_submit_shares_extended :: "bytes \<Rightarrow> SubmitSharesExtended result" where
  "decode_submit_shares_extended = decode (\<lambda>r.
    bindE (rd_u32 r) (\<lambda>(channel_id, r).
    bindE (rd_u32 r) (\<lambda>(sequence_number, r).
    bindE (rd_u32 r) (\<lambda>(job_id, r).
    bindE (rd_u32 r) (\<lambda>(nonce, r).
    bindE (rd_u32 r) (\<lambda>(ntime, r).
    bindE (rd_u32 r) (\<lambda>(version, r).
    bindE (rd_b0_32 r) (\<lambda>(extranonce, r).
    Inr (\<lparr>sse_channel_id = channel_id, sse_sequence_number = sequence_number, sse_job_id = job_id, sse_nonce = nonce, sse_ntime = ntime, sse_version = version, sse_extranonce = extranonce\<rparr>, r)))))))))"

definition decode_submit_shares_success :: "bytes \<Rightarrow> SubmitSharesSuccess result" where
  "decode_submit_shares_success = decode (\<lambda>r.
    bindE (rd_u32 r) (\<lambda>(channel_id, r).
    bindE (rd_u32 r) (\<lambda>(last_sequence_number, r).
    bindE (rd_u32 r) (\<lambda>(new_submits_accepted_count, r).
    bindE (rd_u64 r) (\<lambda>(new_shares_sum, r).
    Inr (\<lparr>sss_channel_id = channel_id, sss_last_sequence_number = last_sequence_number, sss_new_submits_accepted_count = new_submits_accepted_count, sss_new_shares_sum = new_shares_sum\<rparr>, r))))))"

definition decode_submit_shares_error :: "bytes \<Rightarrow> SubmitSharesError result" where
  "decode_submit_shares_error = decode (\<lambda>r.
    bindE (rd_u32 r) (\<lambda>(channel_id, r).
    bindE (rd_u32 r) (\<lambda>(sequence_number, r).
    bindE (rd_string r) (\<lambda>(error_code, r).
    Inr (\<lparr>sserr_channel_id = channel_id, sserr_sequence_number = sequence_number, sserr_error_code = error_code\<rparr>, r)))))"

definition decode_new_extended_mining_job :: "bytes \<Rightarrow> NewExtendedMiningJob result" where
  "decode_new_extended_mining_job = decode (\<lambda>r.
    bindE (rd_u32 r) (\<lambda>(channel_id, r).
    bindE (rd_u32 r) (\<lambda>(job_id, r).
    bindE (rd_option_u32 r) (\<lambda>(minimum_ntime, r).
    bindE (rd_u32 r) (\<lambda>(version, r).
    bindE (rd_boolean r) (\<lambda>(version_rolling_allowed, r).
    bindE (rd_sequence_u256 r) (\<lambda>(merkle_path, r).
    bindE (rd_b0_64k r) (\<lambda>(coinbase_tx_prefix, r).
    bindE (rd_b0_64k r) (\<lambda>(coinbase_tx_suffix, r).
    Inr (\<lparr>nemj_channel_id = channel_id, nemj_job_id = job_id, nemj_minimum_ntime = minimum_ntime, nemj_version = version, nemj_version_rolling_allowed = version_rolling_allowed, nemj_merkle_path = merkle_path, nemj_coinbase_tx_prefix = coinbase_tx_prefix, nemj_coinbase_tx_suffix = coinbase_tx_suffix\<rparr>, r))))))))))"

definition decode_set_new_prev_hash :: "bytes \<Rightarrow> SetNewPrevHash result" where
  "decode_set_new_prev_hash = decode (\<lambda>r.
    bindE (rd_u32 r) (\<lambda>(channel_id, r).
    bindE (rd_u32 r) (\<lambda>(job_id, r).
    bindE (rd_u256 r) (\<lambda>(previous_hash, r).
    bindE (rd_u32 r) (\<lambda>(minimum_ntime, r).
    bindE (rd_u32 r) (\<lambda>(nbits, r).
    Inr (\<lparr>snph_channel_id = channel_id, snph_job_id = job_id, snph_previous_hash = previous_hash, snph_minimum_ntime = minimum_ntime, snph_nbits = nbits\<rparr>, r)))))))"

definition decode_set_target :: "bytes \<Rightarrow> SetTarget result" where
  "decode_set_target = decode (\<lambda>r.
    bindE (rd_u32 r) (\<lambda>(channel_id, r).
    bindE (rd_u256 r) (\<lambda>(maximum_target, r).
    Inr (\<lparr>st_channel_id = channel_id, st_maximum_target = maximum_target\<rparr>, r))))"

section \<open>All messages\<close>

datatype Message =
    SetupConnection_Message SetupConnection
  | SetupConnectionSuccess_Message SetupConnectionSuccess
  | SetupConnectionError_Message SetupConnectionError
  | OpenStandardMiningChannel_Message OpenStandardMiningChannel
  | OpenStandardMiningChannelSuccess_Message OpenStandardMiningChannelSuccess
  | OpenMiningChannelError_Message OpenMiningChannelError
  | OpenExtendedMiningChannel_Message OpenExtendedMiningChannel
  | OpenExtendedMiningChannelSuccess_Message OpenExtendedMiningChannelSuccess
  | NewMiningJob_Message NewMiningJob
  | UpdateChannel_Message UpdateChannel
  | UpdateChannelError_Message UpdateChannelError
  | CloseChannel_Message CloseChannel
  | SetExtranoncePrefix_Message SetExtranoncePrefix
  | SubmitSharesStandard_Message SubmitSharesStandard
  | SubmitSharesExtended_Message SubmitSharesExtended
  | SubmitSharesSuccess_Message SubmitSharesSuccess
  | SubmitSharesError_Message SubmitSharesError
  | NewExtendedMiningJob_Message NewExtendedMiningJob
  | SetNewPrevHash_Message SetNewPrevHash
  | SetTarget_Message SetTarget

fun kMessageType :: "Message \<Rightarrow> u8" where
  "kMessageType (SetupConnection_Message _) = 0x00"
| "kMessageType (SetupConnectionSuccess_Message _) = 0x01"
| "kMessageType (SetupConnectionError_Message _) = 0x02"
| "kMessageType (OpenStandardMiningChannel_Message _) = 0x10"
| "kMessageType (OpenStandardMiningChannelSuccess_Message _) = 0x11"
| "kMessageType (OpenMiningChannelError_Message _) = 0x12"
| "kMessageType (OpenExtendedMiningChannel_Message _) = 0x13"
| "kMessageType (OpenExtendedMiningChannelSuccess_Message _) = 0x14"
| "kMessageType (NewMiningJob_Message _) = 0x15"
| "kMessageType (UpdateChannel_Message _) = 0x16"
| "kMessageType (UpdateChannelError_Message _) = 0x17"
| "kMessageType (CloseChannel_Message _) = 0x18"
| "kMessageType (SetExtranoncePrefix_Message _) = 0x19"
| "kMessageType (SubmitSharesStandard_Message _) = 0x1a"
| "kMessageType (SubmitSharesExtended_Message _) = 0x1b"
| "kMessageType (SubmitSharesSuccess_Message _) = 0x1c"
| "kMessageType (SubmitSharesError_Message _) = 0x1d"
| "kMessageType (NewExtendedMiningJob_Message _) = 0x1f"
| "kMessageType (SetNewPrevHash_Message _) = 0x20"
| "kMessageType (SetTarget_Message _) = 0x21"

fun kChannelMessage :: "Message \<Rightarrow> bool" where
  "kChannelMessage (SetupConnection_Message _) = False"
| "kChannelMessage (SetupConnectionSuccess_Message _) = False"
| "kChannelMessage (SetupConnectionError_Message _) = False"
| "kChannelMessage (OpenStandardMiningChannel_Message _) = False"
| "kChannelMessage (OpenStandardMiningChannelSuccess_Message _) = False"
| "kChannelMessage (OpenMiningChannelError_Message _) = False"
| "kChannelMessage (OpenExtendedMiningChannel_Message _) = False"
| "kChannelMessage (OpenExtendedMiningChannelSuccess_Message _) = False"
| "kChannelMessage (NewMiningJob_Message _) = True"
| "kChannelMessage (UpdateChannel_Message _) = True"
| "kChannelMessage (UpdateChannelError_Message _) = True"
| "kChannelMessage (CloseChannel_Message _) = True"
| "kChannelMessage (SetExtranoncePrefix_Message _) = True"
| "kChannelMessage (SubmitSharesStandard_Message _) = True"
| "kChannelMessage (SubmitSharesExtended_Message _) = True"
| "kChannelMessage (SubmitSharesSuccess_Message _) = True"
| "kChannelMessage (SubmitSharesError_Message _) = True"
| "kChannelMessage (NewExtendedMiningJob_Message _) = True"
| "kChannelMessage (SetNewPrevHash_Message _) = True"
| "kChannelMessage (SetTarget_Message _) = True"

fun encode_payload :: "Message \<Rightarrow> bytes result" where
  "encode_payload (SetupConnection_Message m) = encode_payload_SetupConnection m"
| "encode_payload (SetupConnectionSuccess_Message m) = encode_payload_SetupConnectionSuccess m"
| "encode_payload (SetupConnectionError_Message m) = encode_payload_SetupConnectionError m"
| "encode_payload (OpenStandardMiningChannel_Message m) = encode_payload_OpenStandardMiningChannel m"
| "encode_payload (OpenStandardMiningChannelSuccess_Message m) = encode_payload_OpenStandardMiningChannelSuccess m"
| "encode_payload (OpenMiningChannelError_Message m) = encode_payload_OpenMiningChannelError m"
| "encode_payload (OpenExtendedMiningChannel_Message m) = encode_payload_OpenExtendedMiningChannel m"
| "encode_payload (OpenExtendedMiningChannelSuccess_Message m) = encode_payload_OpenExtendedMiningChannelSuccess m"
| "encode_payload (NewMiningJob_Message m) = encode_payload_NewMiningJob m"
| "encode_payload (UpdateChannel_Message m) = encode_payload_UpdateChannel m"
| "encode_payload (UpdateChannelError_Message m) = encode_payload_UpdateChannelError m"
| "encode_payload (CloseChannel_Message m) = encode_payload_CloseChannel m"
| "encode_payload (SetExtranoncePrefix_Message m) = encode_payload_SetExtranoncePrefix m"
| "encode_payload (SubmitSharesStandard_Message m) = encode_payload_SubmitSharesStandard m"
| "encode_payload (SubmitSharesExtended_Message m) = encode_payload_SubmitSharesExtended m"
| "encode_payload (SubmitSharesSuccess_Message m) = encode_payload_SubmitSharesSuccess m"
| "encode_payload (SubmitSharesError_Message m) = encode_payload_SubmitSharesError m"
| "encode_payload (NewExtendedMiningJob_Message m) = encode_payload_NewExtendedMiningJob m"
| "encode_payload (SetNewPrevHash_Message m) = encode_payload_SetNewPrevHash m"
| "encode_payload (SetTarget_Message m) = encode_payload_SetTarget m"

definition encode_message :: "Message \<Rightarrow> bytes result" where
  "encode_message m =
    bindE (make_extension_type kCoreExtensionId (kChannelMessage m)) (\<lambda>ext.
    bindE (encode_payload m) (\<lambda>p.
    encode_frame \<lparr>extension_type = ext, message_type = kMessageType m, payload = p\<rparr>))"

text \<open>The decoder that belongs to a message type byte; \<open>None\<close> when there is none.\<close>

definition decode_as :: "u8 \<Rightarrow> bytes \<Rightarrow> Message result option" where
  "decode_as t p =
    (if t = 0x00 then Some (map_sum id SetupConnection_Message (decode_setup_connection p)) else
    (if t = 0x01 then Some (map_sum id SetupConnectionSuccess_Message (decode_setup_connection_success p)) else
    (if t = 0x02 then Some (map_sum id SetupConnectionError_Message (decode_setup_connection_error p)) else
    (if t = 0x10 then Some (map_sum id OpenStandardMiningChannel_Message (decode_open_standard_mining_channel p)) else
    (if t = 0x11 then Some (map_sum id OpenStandardMiningChannelSuccess_Message (decode_open_standard_mining_channel_success p)) else
    (if t = 0x12 then Some (map_sum id OpenMiningChannelError_Message (decode_open_mining_channel_error p)) else
    (if t = 0x13 then Some (map_sum id OpenExtendedMiningChannel_Message (decode_open_extended_mining_channel p)) else
    (if t = 0x14 then Some (map_sum id OpenExtendedMiningChannelSuccess_Message (decode_open_extended_mining_channel_success p)) else
    (if t = 0x15 then Some (map_sum id NewMiningJob_Message (decode_new_mining_job p)) else
    (if t = 0x16 then Some (map_sum id UpdateChannel_Message (decode_update_channel p)) else
    (if t = 0x17 then Some (map_sum id UpdateChannelError_Message (decode_update_channel_error p)) else
    (if t = 0x18 then Some (map_sum id CloseChannel_Message (decode_close_channel p)) else
    (if t = 0x19 then Some (map_sum id SetExtranoncePrefix_Message (decode_set_extranonce_prefix p)) else
    (if t = 0x1a then Some (map_sum id SubmitSharesStandard_Message (decode_submit_shares_standard p)) else
    (if t = 0x1b then Some (map_sum id SubmitSharesExtended_Message (decode_submit_shares_extended p)) else
    (if t = 0x1c then Some (map_sum id SubmitSharesSuccess_Message (decode_submit_shares_success p)) else
    (if t = 0x1d then Some (map_sum id SubmitSharesError_Message (decode_submit_shares_error p)) else
    (if t = 0x1f then Some (map_sum id NewExtendedMiningJob_Message (decode_new_extended_mining_job p)) else
    (if t = 0x20 then Some (map_sum id SetNewPrevHash_Message (decode_set_new_prev_hash p)) else
    (if t = 0x21 then Some (map_sum id SetTarget_Message (decode_set_target p)) else
    None))))))))))))))))))))"

text \<open>What the field types of the structs promise: a \<^verbatim>\<open>U256\<close> has 32 bytes.\<close>

fun wf_Message :: "Message \<Rightarrow> bool" where
  "wf_Message (SetupConnection_Message m) = True"
| "wf_Message (SetupConnectionSuccess_Message m) = True"
| "wf_Message (SetupConnectionError_Message m) = True"
| "wf_Message (OpenStandardMiningChannel_Message m) = (length (osmc_maximum_target m) = 32)"
| "wf_Message (OpenStandardMiningChannelSuccess_Message m) = (length (osmcs_target m) = 32)"
| "wf_Message (OpenMiningChannelError_Message m) = True"
| "wf_Message (OpenExtendedMiningChannel_Message m) = (length (oemc_maximum_target m) = 32)"
| "wf_Message (OpenExtendedMiningChannelSuccess_Message m) = (length (oemcs_target m) = 32)"
| "wf_Message (NewMiningJob_Message m) = (length (nmj_merkle_root m) = 32)"
| "wf_Message (UpdateChannel_Message m) = (length (uc_maximum_target m) = 32)"
| "wf_Message (UpdateChannelError_Message m) = True"
| "wf_Message (CloseChannel_Message m) = True"
| "wf_Message (SetExtranoncePrefix_Message m) = True"
| "wf_Message (SubmitSharesStandard_Message m) = True"
| "wf_Message (SubmitSharesExtended_Message m) = True"
| "wf_Message (SubmitSharesSuccess_Message m) = True"
| "wf_Message (SubmitSharesError_Message m) = True"
| "wf_Message (NewExtendedMiningJob_Message m) = ((\<forall>u \<in> set (nemj_merkle_path m). length u = 32))"
| "wf_Message (SetNewPrevHash_Message m) = (length (snph_previous_hash m) = 32)"
| "wf_Message (SetTarget_Message m) = (length (st_maximum_target m) = 32)"

text \<open>Which messages the wire format has room for.\<close>

fun fits_Message :: "Message \<Rightarrow> bool" where
  "fits_Message (SetupConnection_Message m) = (length (sc_endpoint_host m) \<le> 255 \<and> length (sc_vendor m) \<le> 255 \<and> length (sc_hardware_version m) \<le> 255 \<and> length (sc_firmware m) \<le> 255 \<and> length (sc_device_id m) \<le> 255)"
| "fits_Message (SetupConnectionSuccess_Message m) = True"
| "fits_Message (SetupConnectionError_Message m) = (length (sce_error_code m) \<le> 255)"
| "fits_Message (OpenStandardMiningChannel_Message m) = (length (osmc_user_identity m) \<le> 255)"
| "fits_Message (OpenStandardMiningChannelSuccess_Message m) = (length (osmcs_extranonce_prefix m) \<le> 32)"
| "fits_Message (OpenMiningChannelError_Message m) = (length (omce_error_code m) \<le> 255)"
| "fits_Message (OpenExtendedMiningChannel_Message m) = (length (oemc_user_identity m) \<le> 255)"
| "fits_Message (OpenExtendedMiningChannelSuccess_Message m) = (length (oemcs_extranonce_prefix m) \<le> 32)"
| "fits_Message (NewMiningJob_Message m) = True"
| "fits_Message (UpdateChannel_Message m) = True"
| "fits_Message (UpdateChannelError_Message m) = (length (uce_error_code m) \<le> 255)"
| "fits_Message (CloseChannel_Message m) = (length (cc_reason_code m) \<le> 255)"
| "fits_Message (SetExtranoncePrefix_Message m) = (length (sep_extranonce_prefix m) \<le> 32)"
| "fits_Message (SubmitSharesStandard_Message m) = True"
| "fits_Message (SubmitSharesExtended_Message m) = (length (sse_extranonce m) \<le> 32)"
| "fits_Message (SubmitSharesSuccess_Message m) = True"
| "fits_Message (SubmitSharesError_Message m) = (length (sserr_error_code m) \<le> 255)"
| "fits_Message (NewExtendedMiningJob_Message m) = (length (nemj_merkle_path m) \<le> 255 \<and> length (nemj_coinbase_tx_prefix m) \<le> 65535 \<and> length (nemj_coinbase_tx_suffix m) \<le> 65535)"
| "fits_Message (SetNewPrevHash_Message m) = True"
| "fits_Message (SetTarget_Message m) = True"

section \<open>The contract of a field\<close>

text \<open>A read that sees more input gives the same value and leaves the additional input, and a read that
  fails for another reason than missing input fails in the same way.\<close>

abbreviation truncated :: exn where
  "truncated \<equiv> Codec_error ''truncated SV2 message''"

definition extends :: "(bytes \<Rightarrow> ('a \<times> bytes) result) \<Rightarrow> bool" where
  "extends rd \<longleftrightarrow> (\<forall>r q. case rd r of
     Inr (x, r') \<Rightarrow> rd (r @ q) = Inr (x, r' @ q)
   | Inl e \<Rightarrow> e = truncated \<or> rd (r @ q) = Inl e)"

lemma extends_bind:
  assumes "extends f" "\<And>x. extends (g x)"
  shows "extends (\<lambda>r. bindE (f r) (\<lambda>(x, r). g x r))"
  unfolding extends_def
proof (intro allI)
  fix r q
  show "case bindE (f r) (\<lambda>(x, r). g x r) of
     Inr (x, r') \<Rightarrow> bindE (f (r @ q)) (\<lambda>(x, r). g x r) = Inr (x, r' @ q)
   | Inl e \<Rightarrow> e = truncated \<or> bindE (f (r @ q)) (\<lambda>(x, r). g x r) = Inl e"
  proof (cases "f r")
    case (Inl e)
    then show ?thesis
      using assms(1) [unfolded extends_def, rule_format, of r q] by (auto simp: result_simps)
  next
    case (Inr v)
    then show ?thesis
      using assms(1) [unfolded extends_def, rule_format, of r q]
        assms(2) [unfolded extends_def, rule_format, of "fst v" "snd v" q]
      by (cases v; cases "g (fst v) (snd v)") (auto simp: result_simps)
  qed
qed

lemma extends_return: "extends (\<lambda>r. Inr (x, r))"
  by (simp add: extends_def)

lemma extends_fail: "extends (\<lambda>r. Inl e)"
  by (simp add: extends_def)

lemma extends_if: "extends f \<Longrightarrow> extends g \<Longrightarrow> extends (\<lambda>r. if c then f r else g r)"
  by (simp add: extends_def)

lemma extends_take: "extends (rd_take n)"
  by (simp add: extends_def rd_take_def)

lemmas extends_intros = extends_bind extends_return extends_fail extends_if extends_take

definition codec_errs :: "'a result \<Rightarrow> bool" where
  "codec_errs r \<longleftrightarrow> (\<forall>e. r = Inl e \<longrightarrow> (\<exists>t. e = Codec_error t))"

lemma codec_errs_bind: "codec_errs r \<Longrightarrow> (\<And>x. codec_errs (f x)) \<Longrightarrow> codec_errs (bindE r f)"
  by (cases r) (simp_all add: codec_errs_def)

locale field_codec =
  fixes wr :: "'a \<Rightarrow> bytes \<Rightarrow> bytes result"
    and rd :: "bytes \<Rightarrow> ('a \<times> bytes) result"
    and enc :: "'a \<Rightarrow> bytes"
    and fits :: "'a \<Rightarrow> bool"
    and wf :: "'a \<Rightarrow> bool"
  assumes wr_fits: "fits x \<Longrightarrow> wr x w = Inr (w @ enc x)"
    and wr_not_fits: "\<not> fits x \<Longrightarrow> \<exists>m. wr x w = Inl (Codec_error m)"
    and rd_enc: "fits x \<Longrightarrow> wf x \<Longrightarrow> rd (enc x @ r) = Inr (x, r)"
    and rd_valid: "rd r = Inr (x, r') \<Longrightarrow> fits x \<and> wf x"
    and rd_extends: "extends rd"
begin

lemma rd_enc_end: "fits x \<Longrightarrow> wf x \<Longrightarrow> rd (enc x) = Inr (x, [])"
  using rd_enc [of x "[]"] by simp

lemma wr_iff: "wr x w = Inr w' \<longleftrightarrow> fits x \<and> w' = w @ enc x"
  using wr_fits [of x w] wr_not_fits [of x w] by (cases "fits x") auto

lemma wr_error: "codec_errs (wr x w)"
  using wr_fits [of x w] wr_not_fits [of x w] by (cases "fits x") (auto simp: codec_errs_def)

end

lemma rd_u8_eval [simp]: "rd_u8 (b # r) = Inr (b, r)" "rd_u8 [] = Inl truncated"
  by (simp_all add: rd_u8_def rd_take_def result_simps)

lemma rd_take_append [simp]: "n = length a \<Longrightarrow> rd_take n (a @ b) = Inr (a, b)"
  by (simp add: rd_take_def)

lemma rd_take_Inr: "rd_take n r = Inr (v, r') \<longleftrightarrow> n \<le> length r \<and> v = take n r \<and> r' = drop n r"
  by (auto simp: rd_take_def)

lemma rd_u8_extends: "extends rd_u8"
  unfolding rd_u8_def by (intro extends_intros)

lemma rd_u16_extends: "extends rd_u16"
  unfolding rd_u16_def by (intro extends_intros)

lemma rd_u32_extends: "extends rd_u32"
  unfolding rd_u32_def by (intro extends_intros)

lemma rd_u64_extends: "extends rd_u64"
  unfolding rd_u64_def by (intro extends_intros)

lemma rd_string_extends: "extends rd_string"
  unfolding rd_string_def by (intro extends_intros rd_u8_extends)

lemma rd_b0_32_extends: "extends rd_b0_32"
  unfolding rd_b0_32_def by (intro extends_intros rd_u8_extends)

lemma rd_b0_64k_extends: "extends rd_b0_64k"
  unfolding rd_b0_64k_def by (intro extends_intros rd_u16_extends)

lemma rd_boolean_extends: "extends rd_boolean"
  unfolding rd_boolean_def by (intro extends_intros rd_u8_extends)

lemma rd_u256_extends: "extends rd_u256"
  unfolding rd_u256_def by (intro extends_intros)

lemma rd_u256s_extends: "extends (rd_u256s n)"
  by (induction n) (auto simp only: rd_u256s.simps intro!: extends_intros rd_u256_extends)

lemma rd_sequence_u256_extends: "extends rd_sequence_u256"
  unfolding rd_sequence_u256_def by (intro extends_intros rd_u8_extends rd_u256s_extends)

lemma rd_option_u32_extends: "extends rd_option_u32"
  unfolding rd_option_u32_def by (intro extends_intros rd_u8_extends rd_u32_extends)

lemma read_write_end [simp]: "read_le16 (write_le16 a) = a" "read_le32 (write_le32 b) = b" "read_le64 (write_le64 c) = c"
  using read_write_le16 [of a "[]"] read_write_le32 [of b "[]"] read_write_le64 [of c "[]"] by simp_all

lemma unat_length_u8 [simp]: "n \<le> 255 \<Longrightarrow> unat (word_of_nat n :: u8) = n"
  by (simp add: unat_of_nat take_bit_nat_eq_self)

lemma unat_length_u16 [simp]: "n \<le> 65535 \<Longrightarrow> unat (word_of_nat n :: u16) = n"
  by (simp add: unat_of_nat take_bit_nat_eq_self)

lemma rd_u256s_concat: "\<forall>u \<in> set vs. length u = 32 \<Longrightarrow> rd_u256s (length vs) (concat vs @ r) = Inr (vs, r)"
  by (induction vs) (simp_all add: rd_u256_def result_simps)

lemma rd_u256s_valid: "rd_u256s n r = Inr (vs, r') \<Longrightarrow> length vs = n \<and> (\<forall>u \<in> set vs. length u = 32)"
proof (induction n arbitrary: r vs)
  case (Suc n)
  from Suc.prems obtain v r1 vs1 where "vs = v # vs1" "rd_u256 r = Inr (v, r1)" "rd_u256s n r1 = Inr (vs1, r')"
    by (auto simp: bindE_eq_Inr)
  then show ?case using Suc.IH [of r1 vs1] by (auto simp: rd_u256_def rd_take_Inr)
qed simp

lemma wr_u256s_concat: "wr_u256s vs w = Inr (w @ concat vs)"
  by (induction vs arbitrary: w) (simp_all add: wr_u256_def result_simps)

text \<open>The wire form of the fields that are more than a fixed-width word.\<close>

definition enc_boolean :: "bool \<Rightarrow> bytes" where
  "enc_boolean v = [if v then 1 else 0]"

definition enc_string :: "string \<Rightarrow> bytes" where
  "enc_string v = word_of_nat (length v) # map byte_of_char v"

definition enc_b0_32 :: "bytes \<Rightarrow> bytes" where
  "enc_b0_32 v = word_of_nat (length v) # v"

definition enc_b0_64k :: "bytes \<Rightarrow> bytes" where
  "enc_b0_64k v = write_le16 (word_of_nat (length v)) @ v"

definition enc_sequence_u256 :: "U256 list \<Rightarrow> bytes" where
  "enc_sequence_u256 v = word_of_nat (length v) # concat v"

definition enc_option_u32 :: "u32 option \<Rightarrow> bytes" where
  "enc_option_u32 v = (case v of None \<Rightarrow> [0] | Some x \<Rightarrow> 1 # write_le32 x)"

interpretation u8: field_codec wr_u8 rd_u8 "\<lambda>v. [v]" "\<lambda>_. True" "\<lambda>_. True"
  by unfold_locales (simp_all add: wr_u8_def rd_u8_extends)

interpretation u16: field_codec wr_u16 rd_u16 write_le16 "\<lambda>_. True" "\<lambda>_. True"
  by unfold_locales (simp_all add: wr_u16_def rd_u16_def [of "_ @ _"] rd_u16_extends result_simps)

interpretation u32: field_codec wr_u32 rd_u32 write_le32 "\<lambda>_. True" "\<lambda>_. True"
  by unfold_locales (simp_all add: wr_u32_def append_le32_def rd_u32_def [of "_ @ _"] rd_u32_extends result_simps)

interpretation u64: field_codec wr_u64 rd_u64 write_le64 "\<lambda>_. True" "\<lambda>_. True"
  by unfold_locales (simp_all add: wr_u64_def append_le64_def rd_u64_def [of "_ @ _"] rd_u64_extends result_simps)

interpretation f32: field_codec wr_f32 rd_f32 write_le32 "\<lambda>_. True" "\<lambda>_. True"
  by unfold_locales (simp_all add: wr_f32_def [abs_def] rd_f32_def [abs_def] u32.wr_fits u32.rd_enc rd_u32_extends)

interpretation boolean: field_codec wr_boolean rd_boolean enc_boolean "\<lambda>_. True" "\<lambda>_. True"
  by unfold_locales (simp_all add: enc_boolean_def wr_boolean_def wr_u8_def rd_boolean_def [of "_ # _"] rd_boolean_extends result_simps)

interpretation u256: field_codec wr_u256 rd_u256 "\<lambda>v. v" "\<lambda>_. True" "\<lambda>v. length v = 32"
  by unfold_locales (simp_all add: wr_u256_def rd_u256_extends, simp_all add: rd_u256_def rd_take_Inr)

interpretation str: field_codec wr_string rd_string enc_string
  "\<lambda>v. length v \<le> 255" "\<lambda>_. True"
proof unfold_locales
  fix x r r' assume "rd_string r = Inr (x, r')"
  then show "length x \<le> 255 \<and> True"
    using unat_u8_less by (auto simp: rd_string_def bindE_eq_Inr rd_take_Inr less_Suc_eq_le numeral_eq_Suc)
qed (auto simp: enc_string_def wr_string_def wr_u8_def rd_string_def [of "_ # _"] rd_string_extends result_simps comp_def)

interpretation b0_32: field_codec wr_b0_32 rd_b0_32 enc_b0_32 "\<lambda>v. length v \<le> 32" "\<lambda>_. True"
proof unfold_locales
  fix x r r' assume "rd_b0_32 r = Inr (x, r')"
  then show "length x \<le> 32 \<and> True"
    by (auto simp: rd_b0_32_def bindE_eq_Inr rd_take_Inr word_le_nat_alt not_less split: if_splits)
qed (auto simp: enc_b0_32_def wr_b0_32_def wr_u8_def rd_b0_32_def [of "_ # _"] rd_b0_32_extends result_simps word_less_nat_alt)

interpretation b0_64k: field_codec wr_b0_64k rd_b0_64k enc_b0_64k
  "\<lambda>v. length v \<le> 65535" "\<lambda>_. True"
proof unfold_locales
  fix x r r' assume "rd_b0_64k r = Inr (x, r')"
  then show "length x \<le> 65535 \<and> True"
    using unat_u16_less by (auto simp: rd_b0_64k_def bindE_eq_Inr rd_take_Inr less_Suc_eq_le [symmetric])
qed (auto simp: enc_b0_64k_def wr_b0_64k_def wr_u16_def rd_b0_64k_def [of "_ @ _"] rd_b0_64k_extends result_simps u16.rd_enc)

interpretation sequence_u256: field_codec wr_sequence_u256 rd_sequence_u256 enc_sequence_u256
  "\<lambda>v. length v \<le> 255" "\<lambda>v. \<forall>u \<in> set v. length u = 32"
proof unfold_locales
  fix x r r' assume "rd_sequence_u256 r = Inr (x, r')"
  then show "length x \<le> 255 \<and> (\<forall>u \<in> set x. length u = 32)"
    by (auto simp: rd_sequence_u256_def bindE_eq_Inr dest!: rd_u256s_valid)
qed (auto simp: enc_sequence_u256_def wr_sequence_u256_def wr_u8_def wr_u256s_concat rd_sequence_u256_def [of "_ # _"]
  rd_sequence_u256_extends result_simps rd_u256s_concat)

interpretation option_u32: field_codec wr_option_u32 rd_option_u32
  enc_option_u32 "\<lambda>_. True" "\<lambda>_. True"
  by unfold_locales (auto simp: enc_option_u32_def wr_option_u32_def wr_u8_def u32.wr_fits rd_option_u32_def [of "_ # _"]
    rd_option_u32_extends result_simps u32.rd_enc split: option.splits)

lemmas field_extends = rd_u8_extends rd_u16_extends rd_u32_extends rd_u64_extends rd_u32_extends [folded rd_f32_def [abs_def]]
  rd_boolean_extends rd_u256_extends rd_string_extends rd_b0_32_extends rd_b0_64k_extends
  rd_sequence_u256_extends rd_option_u32_extends

lemmas wr_iffs = u8.wr_iff u16.wr_iff u32.wr_iff u64.wr_iff f32.wr_iff boolean.wr_iff u256.wr_iff str.wr_iff
  b0_32.wr_iff b0_64k.wr_iff sequence_u256.wr_iff option_u32.wr_iff

lemmas wr_errors = u8.wr_error u16.wr_error u32.wr_error u64.wr_error f32.wr_error boolean.wr_error u256.wr_error
  str.wr_error b0_32.wr_error b0_64k.wr_error sequence_u256.wr_error option_u32.wr_error

lemmas rd_encs = u8.rd_enc u16.rd_enc u32.rd_enc u64.rd_enc f32.rd_enc boolean.rd_enc u256.rd_enc str.rd_enc
  b0_32.rd_enc b0_64k.rd_enc sequence_u256.rd_enc option_u32.rd_enc
  u8.rd_enc_end u16.rd_enc_end u32.rd_enc_end u64.rd_enc_end f32.rd_enc_end boolean.rd_enc_end u256.rd_enc_end
  str.rd_enc_end b0_32.rd_enc_end b0_64k.rd_enc_end sequence_u256.rd_enc_end option_u32.rd_enc_end

lemmas rd_valids = u256.rd_valid str.rd_valid b0_32.rd_valid b0_64k.rd_valid sequence_u256.rd_valid

section \<open>Every message codec\<close>

lemmas encode_defs = encode_payload_SetupConnection_def
  encode_payload_SetupConnectionSuccess_def
  encode_payload_SetupConnectionError_def
  encode_payload_OpenStandardMiningChannel_def
  encode_payload_OpenStandardMiningChannelSuccess_def
  encode_payload_OpenMiningChannelError_def
  encode_payload_OpenExtendedMiningChannel_def
  encode_payload_OpenExtendedMiningChannelSuccess_def
  encode_payload_UpdateChannel_def
  encode_payload_UpdateChannelError_def
  encode_payload_CloseChannel_def
  encode_payload_SetExtranoncePrefix_def
  encode_payload_NewMiningJob_def
  encode_payload_SubmitSharesStandard_def
  encode_payload_SubmitSharesExtended_def
  encode_payload_SubmitSharesSuccess_def
  encode_payload_SubmitSharesError_def
  encode_payload_NewExtendedMiningJob_def
  encode_payload_SetNewPrevHash_def
  encode_payload_SetTarget_def

lemmas decode_defs = decode_setup_connection_def
  decode_setup_connection_success_def
  decode_setup_connection_error_def
  decode_open_standard_mining_channel_def
  decode_open_standard_mining_channel_success_def
  decode_open_mining_channel_error_def
  decode_open_extended_mining_channel_def
  decode_open_extended_mining_channel_success_def
  decode_update_channel_def
  decode_update_channel_error_def
  decode_close_channel_def
  decode_set_extranonce_prefix_def
  decode_new_mining_job_def
  decode_submit_shares_standard_def
  decode_submit_shares_extended_def
  decode_submit_shares_success_def
  decode_submit_shares_error_def
  decode_new_extended_mining_job_def
  decode_set_new_prev_hash_def
  decode_set_target_def

abbreviation trailing :: exn where
  "trailing \<equiv> Codec_error ''unexpected trailing bytes in SV2 message''"

definition exact_decoder :: "(bytes \<Rightarrow> 'm result) \<Rightarrow> bool" where
  "exact_decoder d \<longleftrightarrow> (\<forall>p m. d p = Inr m \<longrightarrow>
    (\<forall>q. q \<noteq> [] \<longrightarrow> d (p @ q) = Inl trailing) \<and> (\<forall>k < length p. d (take k p) = Inl truncated))"

lemma decode_Inr: "decode parse p = Inr m \<longleftrightarrow> parse p = Inr (m, [])"
  by (auto simp: decode_def bindE_eq_Inr rd_finish_def split: if_splits)

lemma decode_exact:
  assumes ext: "extends parse"
  shows "exact_decoder (decode parse)"
  unfolding exact_decoder_def decode_Inr
proof (intro allI impI conjI)
  fix p q :: bytes and m assume p: "parse p = Inr (m, [])" and "q \<noteq> []"
  then show "decode parse (p @ q) = Inl trailing"
    using ext [unfolded extends_def, rule_format, of p q] by (simp add: decode_def rd_finish_def result_simps)
next
  fix p :: bytes and m k assume p: "parse p = Inr (m, [])" and k: "k < length p"
  then show "decode parse (take k p) = Inl truncated"
    using ext [unfolded extends_def, rule_format, of "take k p" "drop k p"]
    by (cases "parse (take k p)") (auto simp: decode_def result_simps split: prod.splits)
qed

lemma decoders_exact:
  "exact_decoder decode_setup_connection"
  "exact_decoder decode_setup_connection_success"
  "exact_decoder decode_setup_connection_error"
  "exact_decoder decode_open_standard_mining_channel"
  "exact_decoder decode_open_standard_mining_channel_success"
  "exact_decoder decode_open_mining_channel_error"
  "exact_decoder decode_open_extended_mining_channel"
  "exact_decoder decode_open_extended_mining_channel_success"
  "exact_decoder decode_update_channel"
  "exact_decoder decode_update_channel_error"
  "exact_decoder decode_close_channel"
  "exact_decoder decode_set_extranonce_prefix"
  "exact_decoder decode_new_mining_job"
  "exact_decoder decode_submit_shares_standard"
  "exact_decoder decode_submit_shares_extended"
  "exact_decoder decode_submit_shares_success"
  "exact_decoder decode_submit_shares_error"
  "exact_decoder decode_new_extended_mining_job"
  "exact_decoder decode_set_new_prev_hash"
  "exact_decoder decode_set_target"
  unfolding decode_defs by (intro decode_exact extends_intros field_extends)+

lemma encode_SetupConnection:
  "encode_payload_SetupConnection m = Inr p \<Longrightarrow> wf_Message (SetupConnection_Message m) \<Longrightarrow> decode_setup_connection p = Inr m"
  by (cases m) (auto simp: encode_payload_SetupConnection_def decode_setup_connection_def decode_Inr bindE_eq_Inr wr_iffs rd_encs)

lemma decode_SetupConnection:
  "decode_setup_connection p = Inr m \<Longrightarrow> wf_Message (SetupConnection_Message m) \<and> fits_Message (SetupConnection_Message m)"
  by (auto simp: decode_setup_connection_def decode_Inr bindE_eq_Inr dest!: rd_valids)

lemma encode_SetupConnection_fits: "(\<exists>p. encode_payload_SetupConnection m = Inr p) \<longleftrightarrow> fits_Message (SetupConnection_Message m)"
  by (auto simp: encode_payload_SetupConnection_def bindE_eq_Inr wr_iffs)

lemma encode_SetupConnectionSuccess:
  "encode_payload_SetupConnectionSuccess m = Inr p \<Longrightarrow> wf_Message (SetupConnectionSuccess_Message m) \<Longrightarrow> decode_setup_connection_success p = Inr m"
  by (cases m) (auto simp: encode_payload_SetupConnectionSuccess_def decode_setup_connection_success_def decode_Inr bindE_eq_Inr wr_iffs rd_encs)

lemma decode_SetupConnectionSuccess:
  "decode_setup_connection_success p = Inr m \<Longrightarrow> wf_Message (SetupConnectionSuccess_Message m) \<and> fits_Message (SetupConnectionSuccess_Message m)"
  by (auto simp: decode_setup_connection_success_def decode_Inr bindE_eq_Inr dest!: rd_valids)

lemma encode_SetupConnectionSuccess_fits: "(\<exists>p. encode_payload_SetupConnectionSuccess m = Inr p) \<longleftrightarrow> fits_Message (SetupConnectionSuccess_Message m)"
  by (auto simp: encode_payload_SetupConnectionSuccess_def bindE_eq_Inr wr_iffs)

lemma encode_SetupConnectionError:
  "encode_payload_SetupConnectionError m = Inr p \<Longrightarrow> wf_Message (SetupConnectionError_Message m) \<Longrightarrow> decode_setup_connection_error p = Inr m"
  by (cases m) (auto simp: encode_payload_SetupConnectionError_def decode_setup_connection_error_def decode_Inr bindE_eq_Inr wr_iffs rd_encs)

lemma decode_SetupConnectionError:
  "decode_setup_connection_error p = Inr m \<Longrightarrow> wf_Message (SetupConnectionError_Message m) \<and> fits_Message (SetupConnectionError_Message m)"
  by (auto simp: decode_setup_connection_error_def decode_Inr bindE_eq_Inr dest!: rd_valids)

lemma encode_SetupConnectionError_fits: "(\<exists>p. encode_payload_SetupConnectionError m = Inr p) \<longleftrightarrow> fits_Message (SetupConnectionError_Message m)"
  by (auto simp: encode_payload_SetupConnectionError_def bindE_eq_Inr wr_iffs)

lemma encode_OpenStandardMiningChannel:
  "encode_payload_OpenStandardMiningChannel m = Inr p \<Longrightarrow> wf_Message (OpenStandardMiningChannel_Message m) \<Longrightarrow> decode_open_standard_mining_channel p = Inr m"
  by (cases m) (auto simp: encode_payload_OpenStandardMiningChannel_def decode_open_standard_mining_channel_def decode_Inr bindE_eq_Inr wr_iffs rd_encs)

lemma decode_OpenStandardMiningChannel:
  "decode_open_standard_mining_channel p = Inr m \<Longrightarrow> wf_Message (OpenStandardMiningChannel_Message m) \<and> fits_Message (OpenStandardMiningChannel_Message m)"
  by (auto simp: decode_open_standard_mining_channel_def decode_Inr bindE_eq_Inr dest!: rd_valids)

lemma encode_OpenStandardMiningChannel_fits: "(\<exists>p. encode_payload_OpenStandardMiningChannel m = Inr p) \<longleftrightarrow> fits_Message (OpenStandardMiningChannel_Message m)"
  by (auto simp: encode_payload_OpenStandardMiningChannel_def bindE_eq_Inr wr_iffs)

lemma encode_OpenStandardMiningChannelSuccess:
  "encode_payload_OpenStandardMiningChannelSuccess m = Inr p \<Longrightarrow> wf_Message (OpenStandardMiningChannelSuccess_Message m) \<Longrightarrow> decode_open_standard_mining_channel_success p = Inr m"
  by (cases m) (auto simp: encode_payload_OpenStandardMiningChannelSuccess_def decode_open_standard_mining_channel_success_def decode_Inr bindE_eq_Inr wr_iffs rd_encs)

lemma decode_OpenStandardMiningChannelSuccess:
  "decode_open_standard_mining_channel_success p = Inr m \<Longrightarrow> wf_Message (OpenStandardMiningChannelSuccess_Message m) \<and> fits_Message (OpenStandardMiningChannelSuccess_Message m)"
  by (auto simp: decode_open_standard_mining_channel_success_def decode_Inr bindE_eq_Inr dest!: rd_valids)

lemma encode_OpenStandardMiningChannelSuccess_fits: "(\<exists>p. encode_payload_OpenStandardMiningChannelSuccess m = Inr p) \<longleftrightarrow> fits_Message (OpenStandardMiningChannelSuccess_Message m)"
  by (auto simp: encode_payload_OpenStandardMiningChannelSuccess_def bindE_eq_Inr wr_iffs)

lemma encode_OpenMiningChannelError:
  "encode_payload_OpenMiningChannelError m = Inr p \<Longrightarrow> wf_Message (OpenMiningChannelError_Message m) \<Longrightarrow> decode_open_mining_channel_error p = Inr m"
  by (cases m) (auto simp: encode_payload_OpenMiningChannelError_def decode_open_mining_channel_error_def decode_Inr bindE_eq_Inr wr_iffs rd_encs)

lemma decode_OpenMiningChannelError:
  "decode_open_mining_channel_error p = Inr m \<Longrightarrow> wf_Message (OpenMiningChannelError_Message m) \<and> fits_Message (OpenMiningChannelError_Message m)"
  by (auto simp: decode_open_mining_channel_error_def decode_Inr bindE_eq_Inr dest!: rd_valids)

lemma encode_OpenMiningChannelError_fits: "(\<exists>p. encode_payload_OpenMiningChannelError m = Inr p) \<longleftrightarrow> fits_Message (OpenMiningChannelError_Message m)"
  by (auto simp: encode_payload_OpenMiningChannelError_def bindE_eq_Inr wr_iffs)

lemma encode_OpenExtendedMiningChannel:
  "encode_payload_OpenExtendedMiningChannel m = Inr p \<Longrightarrow> wf_Message (OpenExtendedMiningChannel_Message m) \<Longrightarrow> decode_open_extended_mining_channel p = Inr m"
  by (cases m) (auto simp: encode_payload_OpenExtendedMiningChannel_def decode_open_extended_mining_channel_def decode_Inr bindE_eq_Inr wr_iffs rd_encs)

lemma decode_OpenExtendedMiningChannel:
  "decode_open_extended_mining_channel p = Inr m \<Longrightarrow> wf_Message (OpenExtendedMiningChannel_Message m) \<and> fits_Message (OpenExtendedMiningChannel_Message m)"
  by (auto simp: decode_open_extended_mining_channel_def decode_Inr bindE_eq_Inr dest!: rd_valids)

lemma encode_OpenExtendedMiningChannel_fits: "(\<exists>p. encode_payload_OpenExtendedMiningChannel m = Inr p) \<longleftrightarrow> fits_Message (OpenExtendedMiningChannel_Message m)"
  by (auto simp: encode_payload_OpenExtendedMiningChannel_def bindE_eq_Inr wr_iffs)

lemma encode_OpenExtendedMiningChannelSuccess:
  "encode_payload_OpenExtendedMiningChannelSuccess m = Inr p \<Longrightarrow> wf_Message (OpenExtendedMiningChannelSuccess_Message m) \<Longrightarrow> decode_open_extended_mining_channel_success p = Inr m"
  by (cases m) (auto simp: encode_payload_OpenExtendedMiningChannelSuccess_def decode_open_extended_mining_channel_success_def decode_Inr bindE_eq_Inr wr_iffs rd_encs)

lemma decode_OpenExtendedMiningChannelSuccess:
  "decode_open_extended_mining_channel_success p = Inr m \<Longrightarrow> wf_Message (OpenExtendedMiningChannelSuccess_Message m) \<and> fits_Message (OpenExtendedMiningChannelSuccess_Message m)"
  by (auto simp: decode_open_extended_mining_channel_success_def decode_Inr bindE_eq_Inr dest!: rd_valids)

lemma encode_OpenExtendedMiningChannelSuccess_fits: "(\<exists>p. encode_payload_OpenExtendedMiningChannelSuccess m = Inr p) \<longleftrightarrow> fits_Message (OpenExtendedMiningChannelSuccess_Message m)"
  by (auto simp: encode_payload_OpenExtendedMiningChannelSuccess_def bindE_eq_Inr wr_iffs)

lemma encode_UpdateChannel:
  "encode_payload_UpdateChannel m = Inr p \<Longrightarrow> wf_Message (UpdateChannel_Message m) \<Longrightarrow> decode_update_channel p = Inr m"
  by (cases m) (auto simp: encode_payload_UpdateChannel_def decode_update_channel_def decode_Inr bindE_eq_Inr wr_iffs rd_encs)

lemma decode_UpdateChannel:
  "decode_update_channel p = Inr m \<Longrightarrow> wf_Message (UpdateChannel_Message m) \<and> fits_Message (UpdateChannel_Message m)"
  by (auto simp: decode_update_channel_def decode_Inr bindE_eq_Inr dest!: rd_valids)

lemma encode_UpdateChannel_fits: "(\<exists>p. encode_payload_UpdateChannel m = Inr p) \<longleftrightarrow> fits_Message (UpdateChannel_Message m)"
  by (auto simp: encode_payload_UpdateChannel_def bindE_eq_Inr wr_iffs)

lemma encode_UpdateChannelError:
  "encode_payload_UpdateChannelError m = Inr p \<Longrightarrow> wf_Message (UpdateChannelError_Message m) \<Longrightarrow> decode_update_channel_error p = Inr m"
  by (cases m) (auto simp: encode_payload_UpdateChannelError_def decode_update_channel_error_def decode_Inr bindE_eq_Inr wr_iffs rd_encs)

lemma decode_UpdateChannelError:
  "decode_update_channel_error p = Inr m \<Longrightarrow> wf_Message (UpdateChannelError_Message m) \<and> fits_Message (UpdateChannelError_Message m)"
  by (auto simp: decode_update_channel_error_def decode_Inr bindE_eq_Inr dest!: rd_valids)

lemma encode_UpdateChannelError_fits: "(\<exists>p. encode_payload_UpdateChannelError m = Inr p) \<longleftrightarrow> fits_Message (UpdateChannelError_Message m)"
  by (auto simp: encode_payload_UpdateChannelError_def bindE_eq_Inr wr_iffs)

lemma encode_CloseChannel:
  "encode_payload_CloseChannel m = Inr p \<Longrightarrow> wf_Message (CloseChannel_Message m) \<Longrightarrow> decode_close_channel p = Inr m"
  by (cases m) (auto simp: encode_payload_CloseChannel_def decode_close_channel_def decode_Inr bindE_eq_Inr wr_iffs rd_encs)

lemma decode_CloseChannel:
  "decode_close_channel p = Inr m \<Longrightarrow> wf_Message (CloseChannel_Message m) \<and> fits_Message (CloseChannel_Message m)"
  by (auto simp: decode_close_channel_def decode_Inr bindE_eq_Inr dest!: rd_valids)

lemma encode_CloseChannel_fits: "(\<exists>p. encode_payload_CloseChannel m = Inr p) \<longleftrightarrow> fits_Message (CloseChannel_Message m)"
  by (auto simp: encode_payload_CloseChannel_def bindE_eq_Inr wr_iffs)

lemma encode_SetExtranoncePrefix:
  "encode_payload_SetExtranoncePrefix m = Inr p \<Longrightarrow> wf_Message (SetExtranoncePrefix_Message m) \<Longrightarrow> decode_set_extranonce_prefix p = Inr m"
  by (cases m) (auto simp: encode_payload_SetExtranoncePrefix_def decode_set_extranonce_prefix_def decode_Inr bindE_eq_Inr wr_iffs rd_encs)

lemma decode_SetExtranoncePrefix:
  "decode_set_extranonce_prefix p = Inr m \<Longrightarrow> wf_Message (SetExtranoncePrefix_Message m) \<and> fits_Message (SetExtranoncePrefix_Message m)"
  by (auto simp: decode_set_extranonce_prefix_def decode_Inr bindE_eq_Inr dest!: rd_valids)

lemma encode_SetExtranoncePrefix_fits: "(\<exists>p. encode_payload_SetExtranoncePrefix m = Inr p) \<longleftrightarrow> fits_Message (SetExtranoncePrefix_Message m)"
  by (auto simp: encode_payload_SetExtranoncePrefix_def bindE_eq_Inr wr_iffs)

lemma encode_NewMiningJob:
  "encode_payload_NewMiningJob m = Inr p \<Longrightarrow> wf_Message (NewMiningJob_Message m) \<Longrightarrow> decode_new_mining_job p = Inr m"
  by (cases m) (auto simp: encode_payload_NewMiningJob_def decode_new_mining_job_def decode_Inr bindE_eq_Inr wr_iffs rd_encs)

lemma decode_NewMiningJob:
  "decode_new_mining_job p = Inr m \<Longrightarrow> wf_Message (NewMiningJob_Message m) \<and> fits_Message (NewMiningJob_Message m)"
  by (auto simp: decode_new_mining_job_def decode_Inr bindE_eq_Inr dest!: rd_valids)

lemma encode_NewMiningJob_fits: "(\<exists>p. encode_payload_NewMiningJob m = Inr p) \<longleftrightarrow> fits_Message (NewMiningJob_Message m)"
  by (auto simp: encode_payload_NewMiningJob_def bindE_eq_Inr wr_iffs)

lemma encode_SubmitSharesStandard:
  "encode_payload_SubmitSharesStandard m = Inr p \<Longrightarrow> wf_Message (SubmitSharesStandard_Message m) \<Longrightarrow> decode_submit_shares_standard p = Inr m"
  by (cases m) (auto simp: encode_payload_SubmitSharesStandard_def decode_submit_shares_standard_def decode_Inr bindE_eq_Inr wr_iffs rd_encs)

lemma decode_SubmitSharesStandard:
  "decode_submit_shares_standard p = Inr m \<Longrightarrow> wf_Message (SubmitSharesStandard_Message m) \<and> fits_Message (SubmitSharesStandard_Message m)"
  by (auto simp: decode_submit_shares_standard_def decode_Inr bindE_eq_Inr dest!: rd_valids)

lemma encode_SubmitSharesStandard_fits: "(\<exists>p. encode_payload_SubmitSharesStandard m = Inr p) \<longleftrightarrow> fits_Message (SubmitSharesStandard_Message m)"
  by (auto simp: encode_payload_SubmitSharesStandard_def bindE_eq_Inr wr_iffs)

lemma encode_SubmitSharesExtended:
  "encode_payload_SubmitSharesExtended m = Inr p \<Longrightarrow> wf_Message (SubmitSharesExtended_Message m) \<Longrightarrow> decode_submit_shares_extended p = Inr m"
  by (cases m) (auto simp: encode_payload_SubmitSharesExtended_def decode_submit_shares_extended_def decode_Inr bindE_eq_Inr wr_iffs rd_encs)

lemma decode_SubmitSharesExtended:
  "decode_submit_shares_extended p = Inr m \<Longrightarrow> wf_Message (SubmitSharesExtended_Message m) \<and> fits_Message (SubmitSharesExtended_Message m)"
  by (auto simp: decode_submit_shares_extended_def decode_Inr bindE_eq_Inr dest!: rd_valids)

lemma encode_SubmitSharesExtended_fits: "(\<exists>p. encode_payload_SubmitSharesExtended m = Inr p) \<longleftrightarrow> fits_Message (SubmitSharesExtended_Message m)"
  by (auto simp: encode_payload_SubmitSharesExtended_def bindE_eq_Inr wr_iffs)

lemma encode_SubmitSharesSuccess:
  "encode_payload_SubmitSharesSuccess m = Inr p \<Longrightarrow> wf_Message (SubmitSharesSuccess_Message m) \<Longrightarrow> decode_submit_shares_success p = Inr m"
  by (cases m) (auto simp: encode_payload_SubmitSharesSuccess_def decode_submit_shares_success_def decode_Inr bindE_eq_Inr wr_iffs rd_encs)

lemma decode_SubmitSharesSuccess:
  "decode_submit_shares_success p = Inr m \<Longrightarrow> wf_Message (SubmitSharesSuccess_Message m) \<and> fits_Message (SubmitSharesSuccess_Message m)"
  by (auto simp: decode_submit_shares_success_def decode_Inr bindE_eq_Inr dest!: rd_valids)

lemma encode_SubmitSharesSuccess_fits: "(\<exists>p. encode_payload_SubmitSharesSuccess m = Inr p) \<longleftrightarrow> fits_Message (SubmitSharesSuccess_Message m)"
  by (auto simp: encode_payload_SubmitSharesSuccess_def bindE_eq_Inr wr_iffs)

lemma encode_SubmitSharesError:
  "encode_payload_SubmitSharesError m = Inr p \<Longrightarrow> wf_Message (SubmitSharesError_Message m) \<Longrightarrow> decode_submit_shares_error p = Inr m"
  by (cases m) (auto simp: encode_payload_SubmitSharesError_def decode_submit_shares_error_def decode_Inr bindE_eq_Inr wr_iffs rd_encs)

lemma decode_SubmitSharesError:
  "decode_submit_shares_error p = Inr m \<Longrightarrow> wf_Message (SubmitSharesError_Message m) \<and> fits_Message (SubmitSharesError_Message m)"
  by (auto simp: decode_submit_shares_error_def decode_Inr bindE_eq_Inr dest!: rd_valids)

lemma encode_SubmitSharesError_fits: "(\<exists>p. encode_payload_SubmitSharesError m = Inr p) \<longleftrightarrow> fits_Message (SubmitSharesError_Message m)"
  by (auto simp: encode_payload_SubmitSharesError_def bindE_eq_Inr wr_iffs)

lemma encode_NewExtendedMiningJob:
  "encode_payload_NewExtendedMiningJob m = Inr p \<Longrightarrow> wf_Message (NewExtendedMiningJob_Message m) \<Longrightarrow> decode_new_extended_mining_job p = Inr m"
  by (cases m) (auto simp: encode_payload_NewExtendedMiningJob_def decode_new_extended_mining_job_def decode_Inr bindE_eq_Inr wr_iffs rd_encs)

lemma decode_NewExtendedMiningJob:
  "decode_new_extended_mining_job p = Inr m \<Longrightarrow> wf_Message (NewExtendedMiningJob_Message m) \<and> fits_Message (NewExtendedMiningJob_Message m)"
  by (auto simp: decode_new_extended_mining_job_def decode_Inr bindE_eq_Inr dest!: rd_valids)

lemma encode_NewExtendedMiningJob_fits: "(\<exists>p. encode_payload_NewExtendedMiningJob m = Inr p) \<longleftrightarrow> fits_Message (NewExtendedMiningJob_Message m)"
  by (auto simp: encode_payload_NewExtendedMiningJob_def bindE_eq_Inr wr_iffs)

lemma encode_SetNewPrevHash:
  "encode_payload_SetNewPrevHash m = Inr p \<Longrightarrow> wf_Message (SetNewPrevHash_Message m) \<Longrightarrow> decode_set_new_prev_hash p = Inr m"
  by (cases m) (auto simp: encode_payload_SetNewPrevHash_def decode_set_new_prev_hash_def decode_Inr bindE_eq_Inr wr_iffs rd_encs)

lemma decode_SetNewPrevHash:
  "decode_set_new_prev_hash p = Inr m \<Longrightarrow> wf_Message (SetNewPrevHash_Message m) \<and> fits_Message (SetNewPrevHash_Message m)"
  by (auto simp: decode_set_new_prev_hash_def decode_Inr bindE_eq_Inr dest!: rd_valids)

lemma encode_SetNewPrevHash_fits: "(\<exists>p. encode_payload_SetNewPrevHash m = Inr p) \<longleftrightarrow> fits_Message (SetNewPrevHash_Message m)"
  by (auto simp: encode_payload_SetNewPrevHash_def bindE_eq_Inr wr_iffs)

lemma encode_SetTarget:
  "encode_payload_SetTarget m = Inr p \<Longrightarrow> wf_Message (SetTarget_Message m) \<Longrightarrow> decode_set_target p = Inr m"
  by (cases m) (auto simp: encode_payload_SetTarget_def decode_set_target_def decode_Inr bindE_eq_Inr wr_iffs rd_encs)

lemma decode_SetTarget:
  "decode_set_target p = Inr m \<Longrightarrow> wf_Message (SetTarget_Message m) \<and> fits_Message (SetTarget_Message m)"
  by (auto simp: decode_set_target_def decode_Inr bindE_eq_Inr dest!: rd_valids)

lemma encode_SetTarget_fits: "(\<exists>p. encode_payload_SetTarget m = Inr p) \<longleftrightarrow> fits_Message (SetTarget_Message m)"
  by (auto simp: encode_payload_SetTarget_def bindE_eq_Inr wr_iffs)

lemmas encode_messages = encode_SetupConnection
  encode_SetupConnectionSuccess
  encode_SetupConnectionError
  encode_OpenStandardMiningChannel
  encode_OpenStandardMiningChannelSuccess
  encode_OpenMiningChannelError
  encode_OpenExtendedMiningChannel
  encode_OpenExtendedMiningChannelSuccess
  encode_UpdateChannel
  encode_UpdateChannelError
  encode_CloseChannel
  encode_SetExtranoncePrefix
  encode_NewMiningJob
  encode_SubmitSharesStandard
  encode_SubmitSharesExtended
  encode_SubmitSharesSuccess
  encode_SubmitSharesError
  encode_NewExtendedMiningJob
  encode_SetNewPrevHash
  encode_SetTarget

lemmas decode_messages = decode_SetupConnection
  decode_SetupConnectionSuccess
  decode_SetupConnectionError
  decode_OpenStandardMiningChannel
  decode_OpenStandardMiningChannelSuccess
  decode_OpenMiningChannelError
  decode_OpenExtendedMiningChannel
  decode_OpenExtendedMiningChannelSuccess
  decode_UpdateChannel
  decode_UpdateChannelError
  decode_CloseChannel
  decode_SetExtranoncePrefix
  decode_NewMiningJob
  decode_SubmitSharesStandard
  decode_SubmitSharesExtended
  decode_SubmitSharesSuccess
  decode_SubmitSharesError
  decode_NewExtendedMiningJob
  decode_SetNewPrevHash
  decode_SetTarget

lemmas encode_messages_fits = encode_SetupConnection_fits
  encode_SetupConnectionSuccess_fits
  encode_SetupConnectionError_fits
  encode_OpenStandardMiningChannel_fits
  encode_OpenStandardMiningChannelSuccess_fits
  encode_OpenMiningChannelError_fits
  encode_OpenExtendedMiningChannel_fits
  encode_OpenExtendedMiningChannelSuccess_fits
  encode_UpdateChannel_fits
  encode_UpdateChannelError_fits
  encode_CloseChannel_fits
  encode_SetExtranoncePrefix_fits
  encode_NewMiningJob_fits
  encode_SubmitSharesStandard_fits
  encode_SubmitSharesExtended_fits
  encode_SubmitSharesSuccess_fits
  encode_SubmitSharesError_fits
  encode_NewExtendedMiningJob_fits
  encode_SetNewPrevHash_fits
  encode_SetTarget_fits

lemma encode_payload_fits: "(\<exists>p. encode_payload m = Inr p) \<longleftrightarrow> fits_Message m"
  by (cases m) (simp_all only: encode_payload.simps encode_messages_fits)

lemma decode_as_encode:
  "encode_payload m = Inr p \<Longrightarrow> wf_Message m \<Longrightarrow> decode_as (kMessageType m) p = Some (Inr m)"
  by (cases m; simp only: encode_payload.simps; drule (1) encode_messages) (simp_all add: decode_as_def)

lemma map_sum_Inr: "map_sum id f r = Inr y \<longleftrightarrow> (\<exists>x. r = Inr x \<and> y = f x)"
  by (cases r) auto

lemma decode_as_Inr:
  assumes "decode_as t p = Some (Inr m)"
  shows "kMessageType m = t \<and> wf_Message m \<and> fits_Message m"
  using assms unfolding decode_as_def
  by (auto simp only: map_sum_Inr option.inject option.distinct kMessageType.simps dest: decode_messages split: if_splits)

lemma decode_as_exact:
  assumes "decode_as t p = Some (Inr m)"
  shows "q \<noteq> [] \<Longrightarrow> decode_as t (p @ q) = Some (Inl trailing)"
    and "k < length p \<Longrightarrow> decode_as t (take k p) = Some (Inl truncated)"
proof -
  note exact = decoders_exact [unfolded exact_decoder_def, rule_format]
  show "q \<noteq> [] \<Longrightarrow> decode_as t (p @ q) = Some (Inl trailing)"
    and "k < length p \<Longrightarrow> decode_as t (take k p) = Some (Inl truncated)"
    using assms unfolding decode_as_def
    by (auto simp: map_sum_Inr exact split: if_splits)
qed

lemma encode_payload_errs: "codec_errs (encode_payload m)"
  by (cases m) (simp_all only: encode_payload.simps encode_defs, (intro codec_errs_bind wr_errors)+)

section \<open>Messages on the wire\<close>

lemma length_enc [simp]: "length (enc_boolean b) = 1" "length (enc_string s) = Suc (length s)"
  "length (enc_b0_32 v) = Suc (length v)" "length (enc_b0_64k v) = 2 + length v" "length (enc_option_u32 x) = (if x = None then 1 else 5)"
  by (simp_all add: enc_boolean_def enc_string_def enc_b0_32_def enc_b0_64k_def enc_option_u32_def split: option.splits)

lemma length_enc_sequence: "\<forall>u \<in> set v. length u = 32 \<Longrightarrow> length (enc_sequence_u256 v) = Suc (32 * length v)"
  by (induction v) (simp_all add: enc_sequence_u256_def)

lemma encode_payload_size:
  "encode_payload m = Inr p \<Longrightarrow> wf_Message m \<Longrightarrow> length p \<le> 140000"
  by (cases m) (auto simp: encode_defs bindE_eq_Inr wr_iffs length_enc_sequence)

definition carries :: "Frame \<Rightarrow> Message \<Rightarrow> bool" where
  "carries f m \<longleftrightarrow> extension_id f = kCoreExtensionId \<and> is_channel_message f = kChannelMessage m
    \<and> message_type f = kMessageType m \<and> decode_as (message_type f) (payload f) = Some (Inr m)"

lemma encode_message_frame:
  assumes "wf_Message m" "fits_Message m"
  shows "\<exists>f w. encode_message m = Inr w \<and> encode_frame f = Inr w \<and> length (payload f) \<le> 16777215 \<and> carries f m"
proof -
  obtain p where p: "encode_payload m = Inr p"
    using assms(2) encode_payload_fits by blast
  define ext where "ext = (if kChannelMessage m then kChannelMessageFlag else 0)"
  define f where "f = \<lparr>extension_type = ext, message_type = kMessageType m, payload = p\<rparr>"
  have len: "length p \<le> 140000"
    using encode_payload_size [OF p assms(1)] .
  then obtain w where w: "encode_frame f = Inr w"
    by (simp add: encode_frame_def f_def kMaximumFramePayloadSize_def)
  moreover have "encode_message m = Inr w"
    using w p by (simp add: encode_message_def make_extension_type_def kCoreExtensionId_def kExtensionIdMask_def
      result_simps f_def ext_def)
  moreover have "carries f m"
    using decode_as_encode [OF p assms(1)]
    by (simp add: carries_def f_def ext_def extension_id_def is_channel_message_def kCoreExtensionId_def
      kExtensionIdMask_def kChannelMessageFlag_def)
  ultimately show ?thesis
    using len by (auto simp: f_def)
qed

text \<open>C25: every message whose variable-length fields are within the limits of the wire format is encoded, no
  other is, and the decoder of its type gives the message back.\<close>

theorem message_roundtrip:
  assumes "wf_Message m"
  shows "(if fits_Message m then \<exists>p. encode_payload m = Inr p \<and> decode_as (kMessageType m) p = Some (Inr m)
          else \<exists>e. encode_payload m = Inl (Codec_error e))"
proof (cases "fits_Message m")
  case True
  then show ?thesis
    using encode_payload_fits decode_as_encode assms by fastforce
next
  case False
  then obtain e where e: "encode_payload m = Inl e"
    using encode_payload_fits by (metis sum.exhaust_sel)
  then show ?thesis using False e encode_payload_errs [of m] by (simp add: codec_errs_def)
qed

theorem message_roundtrip_witness:
  "\<exists>p. encode_payload (SetTarget_Message \<lparr>st_channel_id = 7, st_maximum_target = replicate 32 0xff\<rparr>) = Inr p
     \<and> decode_as 0x21 p = Some (Inr (SetTarget_Message \<lparr>st_channel_id = 7, st_maximum_target = replicate 32 0xff\<rparr>))"
  using message_roundtrip [of "SetTarget_Message \<lparr>st_channel_id = 7, st_maximum_target = replicate 32 0xff\<rparr>"] by simp

text \<open>C26: what a payload decoder accepts is a well-formed message of its own type that can be encoded again
  and decodes to itself; no accepted payload has an accepted strict prefix or extension, a cut payload being
  reported as truncated and a longer one as having trailing bytes.\<close>

theorem decoded_message_exact:
  assumes "decode_as t p = Some (Inr m)"
  shows "kMessageType m = t \<and> wf_Message m
    \<and> (\<exists>p'. encode_payload m = Inr p' \<and> decode_as t p' = Some (Inr m))
    \<and> (\<forall>k < length p. decode_as t (take k p) = Some (Inl (Codec_error ''truncated SV2 message'')))
    \<and> (\<forall>q. q \<noteq> [] \<longrightarrow> decode_as t (p @ q) = Some (Inl (Codec_error ''unexpected trailing bytes in SV2 message'')))"
proof -
  from decode_as_Inr [OF assms] have m: "kMessageType m = t" "wf_Message m" "fits_Message m"
    by auto
  then obtain p' where "encode_payload m = Inr p'"
    using encode_payload_fits by blast
  then show ?thesis
    using m decode_as_encode [of m p'] decode_as_exact [OF assms] by auto
qed

theorem decoded_message_exact_witness:
  "decode_as 0x1 [2, 0, 4, 0, 0] = Some (Inl (Codec_error ''truncated SV2 message''))
   \<and> decode_as 0x1 [2, 0, 4, 0, 0, 0] = Some (Inr (SetupConnectionSuccess_Message \<lparr>scs_used_version = 2, scs_flags = 4\<rparr>))"
proof -
  have ok: "decode_as 0x1 [2, 0, 4, 0, 0, 0]
      = Some (Inr (SetupConnectionSuccess_Message \<lparr>scs_used_version = 2, scs_flags = 4\<rparr>))"
    by (simp add: decode_as_def decode_setup_connection_success_def decode_def rd_u16_def rd_u32_def rd_take_def
      rd_finish_def read_le16_def read_le32_def result_simps)
  show ?thesis
    using decoded_message_exact [OF ok] ok by (auto dest: spec [where x = 5])
qed

text \<open>C23: a sequence of messages sent by one side arrives as the same sequence of messages on the other,
  however the transport cuts the bytes: each frame the decoder completes carries the core extension, the
  channel flag and the type of its message, and decodes to it.\<close>

theorem message_stream:
  assumes "\<forall>m \<in> set ms. wf_Message m \<and> fits_Message m"
  shows "\<exists>ws. map encode_message ms = map Inr ws \<and>
    (\<forall>reads. concat reads = concat ws \<longrightarrow>
      (\<exists>d fs. push_all (FrameDecoder_init 0xffffff) reads = Some (d, Inr fs) \<and> finish d = Inr () \<and> list_all2 carries fs ms))"
proof -
  obtain F W where FW: "encode_message m = Inr (W m) \<and> encode_frame (F m) = Inr (W m)
      \<and> length (payload (F m)) \<le> 16777215 \<and> carries (F m) m" if "m \<in> set ms" for m
    using encode_message_frame assms by metis
  have enc: "list_all2 (\<lambda>f w. encode_frame f = Inr w \<and> length (payload f) \<le> unat (0xffffff :: u32)) (map F ms) (map W ms)"
    using FW by (auto simp: list_all2_conv_all_nth intro: order.trans)
  have "list_all2 carries (map F ms) ms"
    using FW by (simp add: list_all2_conv_all_nth)
  moreover have "\<exists>d. push_all (FrameDecoder_init 0xffffff) reads = Some (d, Inr (map F ms)) \<and> finish d = Inr ()"
    if "concat reads = concat (map W ms)" for reads
    using push_all_stream [OF decoder_reachable.start, of "0xffffff" reads] parse_encode_frames [OF enc] that
    by (force simp: decoder_init stream_result_def finish_reachable)
  moreover have "map encode_message ms = map Inr (map W ms)"
    using FW by simp
  ultimately show ?thesis by blast
qed

theorem message_stream_witness:
  "\<exists>ws. map encode_message [SetTarget_Message \<lparr>st_channel_id = 1, st_maximum_target = replicate 32 0\<rparr>,
      CloseChannel_Message \<lparr>cc_channel_id = 1, cc_reason_code = ''bye''\<rparr>] = map Inr ws \<and>
    (\<exists>d fs. push_all (FrameDecoder_init 0xffffff) ws = Some (d, Inr fs) \<and> finish d = Inr () \<and>
      list_all2 carries fs [SetTarget_Message \<lparr>st_channel_id = 1, st_maximum_target = replicate 32 0\<rparr>,
        CloseChannel_Message \<lparr>cc_channel_id = 1, cc_reason_code = ''bye''\<rparr>])"
  using message_stream [of "[SetTarget_Message \<lparr>st_channel_id = 1, st_maximum_target = replicate 32 0\<rparr>,
      CloseChannel_Message \<lparr>cc_channel_id = 1, cc_reason_code = ''bye''\<rparr>]"]
  by (simp del: list.map) blast

end
