(* ===== verification/Address.thy ===== *)
theory Address
  imports Base58 Bech32
begin

text \<open>
  \<^verbatim>\<open>src/src/bitcoin/network.hpp\<close> and \<^verbatim>\<open>src/src/bitcoin/address.cpp\<close>: the network selector and the translation of
  a payout address into its output script. The lemmas show which addresses are accepted, what script they
  give, and that an address is never accepted on networks that disagree on its script.
\<close>

datatype Network = Mainnet | Testnet | Regtest | Signet

definition network_from_string :: "string \<Rightarrow> Network option" where
  "network_from_string name =
    (if name = ''main'' \<or> name = ''mainnet'' then Some Mainnet
     else if name = ''test'' \<or> name = ''testnet'' \<or> name = ''testnet4'' then Some Testnet
     else if name = ''regtest'' then Some Regtest
     else if name = ''signet'' then Some Signet
     else None)"

fun network_name :: "Network \<Rightarrow> string" where
  "network_name Mainnet = ''main''"
| "network_name Testnet = ''test''"
| "network_name Regtest = ''regtest''"
| "network_name Signet = ''signet''"

datatype AddressError = UnrecognizedOrWrongNetwork

record Base58Versions =
  p2pkh :: u8
  p2sh :: u8

definition base58_versions :: "Network \<Rightarrow> Base58Versions" where
  "base58_versions network =
    (if network = Mainnet then \<lparr>p2pkh = 0x00, p2sh = 0x05\<rparr> else \<lparr>p2pkh = 0x6f, p2sh = 0xc4\<rparr>)"

fun bech32_hrp :: "Network \<Rightarrow> string" where
  "bech32_hrp Mainnet = ''bc''"
| "bech32_hrp Regtest = ''bcrt''"
| "bech32_hrp Testnet = ''tb''"
| "bech32_hrp Signet = ''tb''"

definition p2pkh_script :: "bytes \<Rightarrow> bytes" where
  "p2pkh_script hash160 = [0x76, 0xa9, 0x14] @ hash160 @ [0x88, 0xac]"

definition p2sh_script :: "bytes \<Rightarrow> bytes" where
  "p2sh_script hash160 = [0xa9, 0x14] @ hash160 @ [0x87]"

definition witness_script :: "int \<Rightarrow> bytes \<Rightarrow> bytes" where
  "witness_script version program =
    (if version = 0 then 0x00 else word_of_int (0x50 + version)) # word_of_nat (length program) # program"

definition address_to_script :: "string \<Rightarrow> Network \<Rightarrow> AddressError + bytes" where
  "address_to_script address network =
    (case segwit_address_decode (bech32_hrp network) address of
      Some witness \<Rightarrow> Inr (witness_script (wp_version witness) (wp_program witness))
    | None \<Rightarrow>
       (case try_base58check_decode address of
         Some pl \<Rightarrow>
           if length pl = 21 then
             (let version = pl ! 0; hash160 = drop 1 pl; versions = base58_versions network
              in if version = p2pkh versions then Inr (p2pkh_script hash160)
                 else if version = p2sh versions then Inr (p2sh_script hash160)
                 else Inl UnrecognizedOrWrongNetwork)
           else Inl UnrecognizedOrWrongNetwork
       | None \<Rightarrow> Inl UnrecognizedOrWrongNetwork))"

section \<open>The first character tells the two formats apart\<close>

lemma top_digit_bounds:
  assumes "canon 58 D" "D \<noteq> []"
  shows "unat (last D) * 58 ^ (length D - 1) \<le> dval 58 D" "dval 58 D < (unat (last D) + 1) * 58 ^ (length D - 1)"
proof -
  have D: "D = butlast D @ [last D]" "length D - 1 = length (butlast D)"
    using assms(2) by simp_all
  have "dval 58 D = dval 58 (butlast D) + 58 ^ length (butlast D) * unat (last D)"
    by (subst D(1), subst dval_append) simp
  moreover have "dval 58 (butlast D) < 58 ^ length (butlast D)"
    using assms(1) by (intro dval_less) (auto simp: canon_def list_all_iff dest: in_set_butlastD)
  ultimately show "unat (last D) * 58 ^ (length D - 1) \<le> dval 58 D"
      "dval 58 D < (unat (last D) + 1) * 58 ^ (length D - 1)"
    by (simp_all add: D(2))
qed

lemma base58_ranges_disjoint:
  assumes "t \<in> {10, 26, 34, 51}" "v \<in> {5, 111, 196}" "t * 58 ^ k < (v + 1) * 2 ^ 192" "v * 2 ^ 192 < (t + 1) * (58 :: nat) ^ k"
  shows False
proof -
  consider "k \<le> 32" | "k = 33" | "34 \<le> k" by linarith
  then show False
  proof cases
    case 1
    then have "(58 :: nat) ^ k \<le> 58 ^ 32" by (intro power_increasing) auto
    then have "(t + 1) * 58 ^ k \<le> 52 * (58 :: nat) ^ 32" using assms(1) by (intro mult_mono) auto
    also have "\<dots> < 5 * 2 ^ 192" by simp
    also have "\<dots> \<le> v * 2 ^ 192" using assms(2) by auto
    finally show False using assms(4) by simp
  next
    case 2
    then show False using assms by auto
  next
    case 3
    then have "(58 :: nat) ^ 34 \<le> 58 ^ k" by (intro power_increasing) auto
    then have "10 * (58 :: nat) ^ 34 \<le> t * 58 ^ k" using assms(1) by (intro mult_mono) auto
    moreover have "(v + 1) * 2 ^ 192 \<le> 197 * (2 :: nat) ^ 192" using assms(2) by auto
    moreover have "197 * (2 :: nat) ^ 192 < 10 * 58 ^ 34" by simp
    ultimately show False using assms(3) by linarith
  qed
qed

lemma kReverse_btBT: "kReverse CHR ''b'' = 34" "kReverse CHR ''B'' = 10" "kReverse CHR ''t'' = 51" "kReverse CHR ''T'' = 26"
  using kReverse_kAlphabet [of 34] kReverse_kAlphabet [of 10] kReverse_kAlphabet [of 51] kReverse_kAlphabet [of 26]
  by (simp_all add: kAlphabet_def)

lemma base58check_first_char:
  assumes "length pl = 21" "pl ! 0 \<in> {0x00, 0x05, 0x6f, 0xc4}"
  shows "base58check_encode pl = c # cs \<Longrightarrow> c \<notin> {CHR ''b'', CHR ''B'', CHR ''t'', CHR ''T''}"
proof
  assume enc: "base58check_encode pl = c # cs" and c: "c \<in> {CHR ''b'', CHR ''B'', CHR ''t'', CHR ''T''}"
  define full where "full = pl @ take 4 (sha256d pl)"
  obtain v rest where full: "full = v # rest" "length rest = 24" "v = pl ! 0"
    using assms(1) by (cases pl) (auto simp: full_def)
  obtain ys where ys: "base58_encode full = map (\<lambda>d. kAlphabet ! unat d) ys" "converts 256 58 full ys"
    using base58_encode_converts by blast
  then obtain D where D: "ys = zeros_of full @ rev D" "canon 58 D" "dval 58 D = dval 256 (rev full)"
    by (auto simp: converts_def)
  have ch: "map (\<lambda>d. kAlphabet ! unat d) ys = c # cs"
    using enc ys(1) by (simp add: base58check_encode_def full_def)
  show False
  proof (cases "v = 0")
    case True
    then have "c = CHR ''1''" using ch by (simp add: D(1) full(1) kAlphabet_def)
    then show False using c by auto
  next
    case False
    then have ys': "ys = rev D" using D(1) full(1) by simp
    then have ne: "D \<noteq> []" using ch by auto
    have top: "kAlphabet ! unat (last D) = c"
      using ch ne ys' by (metis hd_rev list.map_sel(1) list.sel(1) rev_is_Nil_conv)
    have "unat (last D) < 58"
      using D(2) ne by (auto simp: canon_def list_all_iff)
    then have "kReverse c = int (unat (last D))"
      using kReverse_kAlphabet top by auto
    moreover have "kReverse c \<in> {10, 26, 34, 51}"
      using c kReverse_btBT by auto
    ultimately have t: "unat (last D) \<in> {10, 26, 34, 51}"
      by (auto simp del: of_nat_unat)
    have "dval 256 (rev full) = dval 256 (rev rest) + 256 ^ 24 * unat v"
      by (simp add: full dval_append)
    moreover have "dval 256 (rev rest) < 256 ^ 24"
      using dval_less [of 256 "rev rest"] full(2) by (simp add: list_all_iff)
    moreover have "(256 :: nat) ^ 24 = 2 ^ 192" by simp
    ultimately have "unat v * 2 ^ 192 \<le> dval 58 D" "dval 58 D < (unat v + 1) * 2 ^ 192"
      unfolding D(3) by (auto simp: algebra_simps)
    moreover have "unat v \<in> {5, 111, 196}"
      using assms(2) full(3) False by auto
    ultimately show False
      using base58_ranges_disjoint [OF t, of "unat v" "length D - 1"] top_digit_bounds [OF D(2) ne] by linarith
  qed
qed

lemma to_lower_eq:
  assumes "to_lower c = d" "is_lower d"
  shows "c = d \<or> (of_char c :: nat) + 32 = of_char d"
proof (cases "is_upper c")
  case True
  then have "(of_char c + 32 :: nat) < 256" by (simp add: is_upper_def)
  then show ?thesis using True assms(1) by (auto simp: to_lower_def)
qed (use assms in \<open>simp add: to_lower_def\<close>)

lemma to_lower_bt: "to_lower c \<in> {CHR ''b'', CHR ''t''} \<Longrightarrow> c \<in> {CHR ''b'', CHR ''B'', CHR ''t'', CHR ''T''}"
proof -
  assume "to_lower c \<in> {CHR ''b'', CHR ''t''}"
  then have "c \<in> {CHR ''b'', CHR ''t''} \<or> (of_char c :: nat) = of_char CHR ''B'' \<or> (of_char c :: nat) = of_char CHR ''T''"
    using to_lower_eq [of c "CHR ''b''"] to_lower_eq [of c "CHR ''t''"] by (auto simp: is_lower_def)
  then show ?thesis by (auto simp only: of_char_eq_iff insert_iff)
qed

lemma segwit_decode_hrp:
  assumes "segwit_address_decode hrp address = Some w"
  shows "\<exists>d. bech32_decode address = Some d \<and> dec_hrp d = hrp"
  using assms by (auto simp: segwit_address_decode_def split: option.splits if_splits)

lemma segwit_first_char:
  assumes "segwit_address_decode (bech32_hrp network) address = Some w"
  shows "\<exists>c cs. address = c # cs \<and> c \<in> {CHR ''b'', CHR ''B'', CHR ''t'', CHR ''T''}"
proof -
  obtain d where "bech32_decode address = Some d" "dec_hrp d = bech32_hrp network"
    using segwit_decode_hrp [OF assms] by blast
  then obtain r where "map to_lower address = bech32_hrp network @ r"
    by (auto simp: bech32_decode_iff)
  then have "address \<noteq> [] \<and> to_lower (hd address) \<in> {CHR ''b'', CHR ''t''}"
    by (cases network; cases address) auto
  then show ?thesis
    using to_lower_bt by (cases address) auto
qed

section \<open>What an address stands for\<close>

text \<open>The three kinds of output a payout address may name.\<close>

datatype payout = is_Witness: Witness int bytes | Pubkey_hash bytes | Script_hash bytes

fun payout_script :: "payout \<Rightarrow> bytes" where
  "payout_script (Witness version program) = witness_script version program"
| "payout_script (Pubkey_hash h) = p2pkh_script h"
| "payout_script (Script_hash h) = p2sh_script h"

text \<open>\<open>names address network p\<close>: the address is an encoding of the payout \<open>p\<close> for that network.\<close>

fun names :: "string \<Rightarrow> Network \<Rightarrow> payout \<Rightarrow> bool" where
  "names address network (Witness version program) \<longleftrightarrow>
    segwit_address_encode (bech32_hrp network) version program = Inr (map to_lower address)
    \<and> bech32_text address \<and> program_size_ok version program"
| "names address network (Pubkey_hash h) \<longleftrightarrow>
    length h = 20 \<and> address = base58check_encode (p2pkh (base58_versions network) # h)"
| "names address network (Script_hash h) \<longleftrightarrow>
    length h = 20 \<and> address = base58check_encode (p2sh (base58_versions network) # h)"

lemma bech32_hrp_ne [simp]: "bech32_hrp network \<noteq> []"
  by (cases network) simp_all

lemma names_Witness:
  "names address network (Witness version program) \<longleftrightarrow>
    segwit_address_decode (bech32_hrp network) address = Some \<lparr>wp_version = version, wp_program = program\<rparr>"
  by (simp add: segwit_address_decode_iff)

lemma base58_not_segwit:
  assumes "length h = 20" "v \<in> {0x00, 0x05, 0x6f, 0xc4}"
  shows "segwit_address_decode (bech32_hrp network) (base58check_encode (v # h)) = None"
proof (rule ccontr)
  assume "segwit_address_decode (bech32_hrp network) (base58check_encode (v # h)) \<noteq> None"
  then obtain c cs where "base58check_encode (v # h) = c # cs" "c \<in> {CHR ''b'', CHR ''B'', CHR ''t'', CHR ''T''}"
    using segwit_first_char by blast
  then show False
    using base58check_first_char [of "v # h" c cs] assms by simp
qed

lemma versions_cases: "p2pkh (base58_versions network) \<in> {0x00, 0x6f}" "p2sh (base58_versions network) \<in> {0x05, 0xc4}"
  by (simp_all add: base58_versions_def)

lemma names_not_segwit:
  assumes "names address network p" "\<not> is_Witness p"
  shows "segwit_address_decode (bech32_hrp network') address = None"
  using assms versions_cases [of network]
  by (cases p) (auto intro!: base58_not_segwit)

lemma address_to_script_names:
  "names address network p \<Longrightarrow> address_to_script address network = Inr (payout_script p)"
proof (cases p)
  case (Witness version program)
  assume "names address network p"
  then show ?thesis using Witness names_Witness by (simp add: address_to_script_def)
next
  case (Pubkey_hash h)
  assume n: "names address network p"
  then have "try_base58check_decode address = Some (p2pkh (base58_versions network) # h)"
    using Pubkey_hash by (simp add: try_base58check_decode_iff)
  then show ?thesis
    using n Pubkey_hash base58_not_segwit [of h "p2pkh (base58_versions network)" network] versions_cases [of network]
    by (auto simp: address_to_script_def Let_def)
next
  case (Script_hash h)
  assume n: "names address network p"
  then have "try_base58check_decode address = Some (p2sh (base58_versions network) # h)"
    using Script_hash by (simp add: try_base58check_decode_iff)
  then show ?thesis
    using n Script_hash base58_not_segwit [of h "p2sh (base58_versions network)" network] versions_cases [of network]
    by (auto simp: address_to_script_def Let_def)
qed

lemma address_to_script_Inr:
  assumes "address_to_script address network = Inr script"
  shows "\<exists>p. names address network p \<and> script = payout_script p"
proof (cases "segwit_address_decode (bech32_hrp network) address")
  case (Some w)
  then have "names address network (Witness (wp_version w) (wp_program w))"
    unfolding names_Witness by simp
  moreover have "script = payout_script (Witness (wp_version w) (wp_program w))"
    using assms Some by (simp add: address_to_script_def)
  ultimately show ?thesis by blast
next
  case None
  then obtain pl where pl: "address = base58check_encode pl" "length pl = 21"
    "pl ! 0 = p2pkh (base58_versions network) \<and> script = p2pkh_script (drop 1 pl)
     \<or> pl ! 0 = p2sh (base58_versions network) \<and> script = p2sh_script (drop 1 pl)"
    using assms by (auto simp: address_to_script_def Let_def try_base58check_decode_iff split: option.splits if_splits)
  then obtain v h where "pl = v # h" "length h = 20" by (cases pl) auto
  then show ?thesis
    using pl names.simps(2,3) payout_script.simps(2,3) by (metis drop_Suc_Cons drop0 nth_Cons_0 One_nat_def)
qed


lemma base58check_encode_inj: "base58check_encode a = base58check_encode b \<Longrightarrow> a = b"
  using try_base58check_decode_iff by (metis option.inject)

lemma names_unique:
  assumes "names address n1 p1" "names address n2 p2"
  shows "p1 = p2 \<and> (n1 = Mainnet \<longleftrightarrow> n2 = Mainnet)"
proof -
  note inj = base58check_encode_inj base58_versions_def
  consider v w v' w' where "p1 = Witness v w" "p2 = Witness v' w'"
    | v w where "p1 = Witness v w" "\<not> is_Witness p2" | v w where "p2 = Witness v w" "\<not> is_Witness p1"
    | "\<not> is_Witness p1" "\<not> is_Witness p2"
    by (cases p1; cases p2) auto
  then show ?thesis
  proof cases
    case 1
    then have dec: "segwit_address_decode (bech32_hrp n1) address = Some \<lparr>wp_version = v, wp_program = w\<rparr>"
      "segwit_address_decode (bech32_hrp n2) address = Some \<lparr>wp_version = v', wp_program = w'\<rparr>"
      using assms unfolding 1 names_Witness by blast+
    then have hrp: "bech32_hrp n1 = bech32_hrp n2"
      using segwit_decode_hrp [OF dec(1)] segwit_decode_hrp [OF dec(2)] by auto
    then have "n1 = Mainnet \<longleftrightarrow> n2 = Mainnet"
      by (cases n1; cases n2) simp_all
    then show ?thesis
      using dec hrp 1 by simp
  next
    case 2
    then show ?thesis using assms names_not_segwit by (metis names_Witness option.distinct(1))
  next
    case 3
    then show ?thesis using assms names_not_segwit by (metis names_Witness option.distinct(1))
  next
    case 4
    then show ?thesis
      using assms by (cases p1; cases p2) (auto simp: base58_versions_def dest!: base58check_encode_inj split: if_splits)
  qed
qed

text \<open>C20: an address that two networks accept pays the same script on both, and no address is accepted
  both on the main network and on a test network.\<close>

theorem address_network_safe:
  assumes "address_to_script address n1 = Inr s1" "address_to_script address n2 = Inr s2"
  shows "s1 = s2 \<and> (n1 = Mainnet \<longleftrightarrow> n2 = Mainnet)"
  using address_to_script_Inr [OF assms(1)] address_to_script_Inr [OF assms(2)] names_unique by blast

theorem address_network_safe_witness:
  "address_to_script ''tb1qw508d6qejxtdg4y5r3zarvary0c5xw7kxpjzsx'' Testnet
     = address_to_script ''tb1qw508d6qejxtdg4y5r3zarvary0c5xw7kxpjzsx'' Signet
   \<and> (Testnet = Mainnet) = (Signet = Mainnet)"
proof -
  have "map_option (\<lambda>w. (wp_version w, wp_program w)) (segwit_address_decode ''tb'' ''tb1qw508d6qejxtdg4y5r3zarvary0c5xw7kxpjzsx'')
      = Some (0, [0x75, 0x1e, 0x76, 0xe8, 0x19, 0x91, 0x96, 0xd4, 0x54, 0x94, 0x1c, 0x45, 0xd1, 0xb3, 0xa3, 0x23, 0xf1, 0x43, 0x3b, 0xd6])"
    by code_simp
  then obtain s where s: "address_to_script ''tb1qw508d6qejxtdg4y5r3zarvary0c5xw7kxpjzsx'' Testnet = Inr s"
    "address_to_script ''tb1qw508d6qejxtdg4y5r3zarvary0c5xw7kxpjzsx'' Signet = Inr s"
    by (auto simp: address_to_script_def)
  show ?thesis using address_network_safe [OF s] s by simp
qed

end
