(* ===== verification/Coinbase.thy ===== *)
theory Coinbase
  imports Varint
begin

text \<open>
  \<^verbatim>\<open>src/src/bitcoin/serialize.hpp\<close> and \<^verbatim>\<open>src/src/bitcoin/coinbase.cpp\<close>: the BIP34 height push and the two halves of
  the coinbase transaction around the extranonce. The halves are shown to be the serialization of one
  transaction, in the legacy form that is hashed and in the witness form that is submitted.
\<close>

definition kMaxScriptSig :: nat where
  "kMaxScriptSig = 100"

definition kMaxHeightPush :: nat where
  "kMaxHeightPush = 10"

record CoinbaseOutput =
  out_value :: u64
  out_script :: bytes

text \<open>The loop over a positive 64-bit height.\<close>

function magnitude_loop :: "nat \<Rightarrow> bytes" where
  "magnitude_loop n = (if n = 0 then [] else word_of_nat (n mod 256) # magnitude_loop (n div 256))"
  by pat_completeness auto
termination by (relation "measure id") auto

declare magnitude_loop.simps [simp del]

definition serialize_height :: "int \<Rightarrow> bytes result" where
  "serialize_height height =
    (if height < 0 then Inl (Invalid_argument ''serialize_height: negative block height'')
     else if height = 0 then Inr [0x00]
     else if height \<ge> 1 \<and> height \<le> 16 then Inr [word_of_int (0x50 + height)]
     else let magnitude = magnitude_loop (nat height);
              magnitude = (if last magnitude AND 0x80 \<noteq> 0 then magnitude @ [0x00] else magnitude)
       in Inr (word_of_nat (length magnitude) # magnitude))"

definition append_output :: "bytes \<Rightarrow> CoinbaseOutput \<Rightarrow> bytes" where
  "append_output bytes output =
    append_le64 bytes (out_value output) @ encode_varint (word_of_nat (length (out_script output))) @ out_script output"

definition build_coinbase1 :: "bytes \<Rightarrow> nat \<Rightarrow> bytes \<Rightarrow> u32 \<Rightarrow> bytes result" where
  "build_coinbase1 script_sig_prefix extranonce_total tag version =
    (let scriptsig_length = length script_sig_prefix + extranonce_total + length tag
     in if scriptsig_length > kMaxScriptSig
        then Inl (Invalid_argument ''coinbase scriptSig too long (> 100 bytes)'')
        else let prevout_null = (replicate 36 0x00)[32 := 0xff, 33 := 0xff, 34 := 0xff, 35 := 0xff]
          in Inr (append_le32 [] version @ [0x01] @ prevout_null
            @ encode_varint (word_of_nat scriptsig_length) @ script_sig_prefix))"

definition build_coinbase1_height :: "int \<Rightarrow> nat \<Rightarrow> bytes \<Rightarrow> u32 \<Rightarrow> bytes result" where
  "build_coinbase1_height height extranonce_total tag version =
    bindE (serialize_height height) (\<lambda>prefix. build_coinbase1 prefix extranonce_total tag version)"

definition build_coinbase2 :: "CoinbaseOutput list \<Rightarrow> CoinbaseOutput list \<Rightarrow> bytes \<Rightarrow> u32 \<Rightarrow> u32 \<Rightarrow> bytes" where
  "build_coinbase2 outputs required_outputs tag sequence lock_time =
    (let out = append_le32 tag sequence;
         output_count = length outputs + length required_outputs;
         out = out @ encode_varint (word_of_nat output_count);
         out = foldl append_output out outputs;
         out = foldl append_output out required_outputs
     in append_le32 out lock_time)"

definition legacy_to_witness_item :: "bytes \<Rightarrow> bytes \<Rightarrow> bytes result" where
  "legacy_to_witness_item legacy_coinbase witness_item =
    (if length legacy_coinbase < 8 then Inl (Invalid_argument ''legacy_to_witness: coinbase too short'')
     else if length witness_item \<noteq> 32 then
       Inl (Invalid_argument ''legacy_to_witness: witness item must be 32 bytes'')
     else let version = take 4 legacy_coinbase;
              body = take (length legacy_coinbase - 8) (drop 4 legacy_coinbase);
              locktime = drop (length legacy_coinbase - 4) legacy_coinbase
       in Inr (version @ [0x00] @ [0x01] @ body @ encode_varint 1
            @ encode_varint (word_of_nat (length witness_item)) @ witness_item @ locktime))"

definition legacy_to_witness :: "bytes \<Rightarrow> bytes result" where
  "legacy_to_witness legacy_coinbase = legacy_to_witness_item legacy_coinbase (replicate 32 0)"

section \<open>The height push\<close>

text \<open>How a script interpreter reads the number that the first element of a script pushes.\<close>

definition script_num :: "bytes \<Rightarrow> int" where
  "script_num bs =
    (if bs = [] then 0
     else if last bs AND 0x80 \<noteq> 0 then - (int (le_value bs) - 0x80 * 256 ^ (length bs - 1))
     else int (le_value bs))"

definition pushed_number :: "bytes \<Rightarrow> int" where
  "pushed_number script =
    (case script of [] \<Rightarrow> 0
     | opcode # rest \<Rightarrow>
         if opcode = 0 then 0
         else if 0x51 \<le> opcode \<and> opcode \<le> 0x60 then uint opcode - 0x50
         else script_num (take (unat opcode) rest))"

lemma magnitude_loop_0 [simp]: "magnitude_loop 0 = []"
  by (simp add: magnitude_loop.simps)

lemma magnitude_loop_pos: "0 < n \<Longrightarrow> magnitude_loop n = word_of_nat (n mod 256) # magnitude_loop (n div 256)"
  by (subst magnitude_loop.simps) simp

lemma unat_of_mod [simp]: "unat (word_of_nat (n mod 256) :: u8) = n mod 256"
  by (simp add: unat_of_nat take_bit_nat_eq_self)

lemma magnitude_value: "le_value (magnitude_loop n) = n"
proof (induction n rule: magnitude_loop.induct)
  case (1 n)
  then show ?case by (cases "n = 0") (simp_all add: magnitude_loop_pos)
qed

lemma magnitude_last: "0 < n \<Longrightarrow> magnitude_loop n \<noteq> [] \<and> last (magnitude_loop n) \<noteq> 0"
proof (induction n rule: magnitude_loop.induct)
  case (1 n)
  show ?case
  proof (cases "n div 256 = 0")
    case True
    then have "n mod 256 = n" by simp
    then have "(word_of_nat n :: u8) \<noteq> 0" using 1(2) unat_of_mod [of n] by (metis less_numeral_extra(3) unat_0)
    then show ?thesis using 1(2) True by (simp add: magnitude_loop_pos)
  next
    case False
    then show ?thesis using 1 by (simp add: magnitude_loop_pos)
  qed
qed

lemma le_value_ge_last: "bs \<noteq> [] \<Longrightarrow> unat (last bs) * 256 ^ (length bs - 1) \<le> le_value bs"
proof (induction bs rule: rev_induct)
  case (snoc b bs)
  then show ?case by (simp add: le_value_append mult.commute)
qed simp

lemma high_bit_u8: "b AND 0x80 \<noteq> 0 \<longleftrightarrow> 0x80 \<le> unat (b :: u8)"
proof -
  have "b AND 0x80 \<noteq> 0 \<longleftrightarrow> bit b 7"
    using and_exp_eq_0_iff_not_bit [of b 7] by simp
  also have "\<dots> \<longleftrightarrow> odd (unat b div 2 ^ 7)"
    using bit_unsigned_iff [of b 7, where 'a = nat] by (simp add: bit_iff_odd [of "unat b"])
  also have "\<dots> \<longleftrightarrow> 0x80 \<le> unat b"
  proof -
    have "unat b div 2 ^ 7 < 2" using unat_u8_less [of b] by (simp add: less_mult_imp_div_less)
    then have "odd (unat b div 2 ^ 7) \<longleftrightarrow> 1 \<le> unat b div 2 ^ 7" by (auto simp: less_2_cases_iff)
    then show ?thesis by (simp add: less_eq_div_iff_mult_less_eq del: One_nat_def)
  qed
  finally show ?thesis .
qed

lemma magnitude_length:
  assumes "0 < n" "n < 2 ^ 63"
  shows "length (magnitude_loop n) \<le> 8"
    and "last (magnitude_loop n) AND 0x80 \<noteq> 0 \<Longrightarrow> length (magnitude_loop n) \<le> 7"
proof -
  let ?m = "magnitude_loop n" and ?k = "length (magnitude_loop n) - 1"
  have ne: "?m \<noteq> []" "last ?m \<noteq> 0" using magnitude_last [OF assms(1)] by auto
  have top: "unat (last ?m) * 256 ^ ?k \<le> n" using le_value_ge_last [OF ne(1)] by (simp add: magnitude_value)
  have "\<not> 8 \<le> ?k"
  proof
    assume "8 \<le> ?k"
    then have "(256 :: nat) ^ 8 \<le> 256 ^ ?k" by (intro power_increasing) auto
    also have "\<dots> \<le> unat (last ?m) * 256 ^ ?k" using ne(2) by (simp add: unat_gt_0 Suc_le_eq)
    finally show False using top assms(2) by simp
  qed
  then show "length ?m \<le> 8" by simp
  show "length ?m \<le> 7" if "last ?m AND 0x80 \<noteq> 0"
  proof -
    have "\<not> 7 \<le> ?k"
    proof
      assume "7 \<le> ?k"
      then have "0x80 * (256 :: nat) ^ 7 \<le> unat (last ?m) * 256 ^ ?k"
        using that by (intro mult_mono power_increasing) (simp_all add: high_bit_u8)
      then show False using top assms(2) by simp
    qed
    then show ?thesis by simp
  qed
qed

lemma script_num_padded:
  "0 < n \<Longrightarrow> script_num (if last (magnitude_loop n) AND 0x80 \<noteq> 0 then magnitude_loop n @ [0x00] else magnitude_loop n) = int n"
  using magnitude_last [of n] by (simp add: script_num_def le_value_append magnitude_value)

lemma serialize_height_push:
  assumes "16 < height" "height < 2 ^ 63"
  shows "\<exists>m. serialize_height height = Inr (word_of_nat (length m) # m) \<and> 0 < length m \<and> length m \<le> 8
    \<and> script_num m = height"
proof -
  let ?n = "nat height"
  define m where "m = (if last (magnitude_loop ?n) AND 0x80 \<noteq> 0 then magnitude_loop ?n @ [0x00] else magnitude_loop ?n)"
  have n: "0 < ?n" "?n < 2 ^ 63" using assms by (simp_all add: nat_less_iff)
  have "serialize_height height = Inr (word_of_nat (length m) # m)"
    using assms(1) by (simp add: serialize_height_def Let_def m_def)
  moreover have "0 < length m \<and> length m \<le> 8"
    using magnitude_length [OF n] magnitude_last [OF n(1)] by (auto simp: m_def)
  moreover have "script_num m = height"
    using script_num_padded [OF n(1)] assms(1) by (simp add: m_def)
  ultimately show ?thesis by blast
qed

lemma height_push:
  assumes "height < 2 ^ 63"
  shows "if height < 0 then serialize_height height = Inl (Invalid_argument ''serialize_height: negative block height'')
    else \<exists>s. serialize_height height = Inr s \<and> s \<noteq> [] \<and> length s \<le> 9 \<and> length s \<le> kMaxHeightPush
      \<and> (\<forall>rest. pushed_number (s @ rest) = height)"
proof -
  consider "height < 0" | "height = 0" | "1 \<le> height" "height \<le> 16" | "16 < height" by linarith
  then show ?thesis
  proof cases
    case 3
    then have "uint (word_of_int (0x50 + height) :: u8) = 0x50 + height"
      by (simp add: unsigned_of_int take_bit_int_eq_self del: of_int_add)
    then show ?thesis
      using 3 by (auto simp: serialize_height_def pushed_number_def kMaxHeightPush_def word_le_def word_less_def
        simp flip: uint_0_iff)
  next
    case 4
    obtain m where m: "serialize_height height = Inr (word_of_nat (length m) # m)" "0 < length m" "length m \<le> 8"
      "script_num m = height"
      using serialize_height_push [OF 4 assms] by blast
    have "unat (word_of_nat (length m) :: u8) = length m"
      using m(3) by (simp add: unat_of_nat take_bit_nat_eq_self)
    then show ?thesis
      using 4 m by (auto simp: pushed_number_def kMaxHeightPush_def word_le_nat_alt simp flip: unat_0_iff)
  qed (simp_all add: serialize_height_def pushed_number_def kMaxHeightPush_def)
qed

text \<open>The height push of a block height that fits a 64-bit integer is read back by a script interpreter
  as that height, whatever follows it in the scriptSig, and takes at most nine bytes; a negative height is
  refused.\<close>

theorem serialize_height_correct:
  assumes "height < 2 ^ 63"
  shows "if height < 0 then serialize_height height = Inl (Invalid_argument ''serialize_height: negative block height'')
    else \<exists>s. serialize_height height = Inr s \<and> s \<noteq> [] \<and> length s \<le> 9 \<and> length s \<le> kMaxHeightPush
      \<and> (\<forall>rest. pushed_number (s @ rest) = height)"
  using assms by (rule height_push)

theorem serialize_height_correct_witness:
  "\<exists>s. serialize_height 840000 = Inr s \<and> length s \<le> 9 \<and> pushed_number (s @ [0xff]) = 840000"
  using serialize_height_correct [of 840000] by auto

section \<open>The coinbase transaction\<close>

text \<open>A transaction with the single null input of a coinbase, and its two serializations.\<close>

record coinbase_tx =
  tx_version :: u32
  tx_script_sig :: bytes
  tx_sequence :: u32
  tx_outputs :: "CoinbaseOutput list"
  tx_lock_time :: u32

definition ser_bytes :: "bytes \<Rightarrow> bytes" where
  "ser_bytes bs = encode_varint (word_of_nat (length bs)) @ bs"

definition ser_output :: "CoinbaseOutput \<Rightarrow> bytes" where
  "ser_output output = write_le64 (out_value output) @ ser_bytes (out_script output)"

definition ser_body :: "coinbase_tx \<Rightarrow> bytes" where
  "ser_body tx = encode_varint 1 @ replicate 32 0 @ replicate 4 0xff @ ser_bytes (tx_script_sig tx)
    @ write_le32 (tx_sequence tx) @ encode_varint (word_of_nat (length (tx_outputs tx)))
    @ concat (map ser_output (tx_outputs tx))"

definition ser_legacy :: "coinbase_tx \<Rightarrow> bytes" where
  "ser_legacy tx = write_le32 (tx_version tx) @ ser_body tx @ write_le32 (tx_lock_time tx)"

definition ser_witness :: "coinbase_tx \<Rightarrow> bytes list \<Rightarrow> bytes" where
  "ser_witness tx witness = write_le32 (tx_version tx) @ [0x00, 0x01] @ ser_body tx
    @ encode_varint (word_of_nat (length witness)) @ concat (map ser_bytes witness) @ write_le32 (tx_lock_time tx)"

lemma foldl_append_output: "foldl append_output acc outs = acc @ concat (map ser_output outs)"
  by (induction outs arbitrary: acc) (simp_all add: append_output_def append_le64_def ser_output_def ser_bytes_def)

lemma encode_varint_1: "encode_varint 1 = [0x01]"
  by (simp add: encode_varint_def)

lemma prevout_null: "(replicate 36 (0 :: u8))[32 := 0xff, 33 := 0xff, 34 := 0xff, 35 := 0xff] = replicate 32 0 @ replicate 4 0xff"
  by (simp add: list_eq_iff_nth_eq nth_list_update nth_append)

definition coinbase_of :: "bytes \<Rightarrow> u32 \<Rightarrow> u32 \<Rightarrow> CoinbaseOutput list \<Rightarrow> u32 \<Rightarrow> coinbase_tx" where
  "coinbase_of script_sig version sequence outputs lock_time =
    \<lparr>tx_version = version, tx_script_sig = script_sig, tx_sequence = sequence, tx_outputs = outputs, tx_lock_time = lock_time\<rparr>"

lemma coinbase_halves:
  assumes "build_coinbase1 prefix (length extranonce) tag version = Inr c1"
  shows "c1 @ extranonce @ build_coinbase2 outputs required tag sequence lock_time =
    ser_legacy (coinbase_of (prefix @ extranonce @ tag) version sequence (outputs @ required) lock_time)"
  using assms
  by (auto simp: build_coinbase1_def build_coinbase2_def Let_def append_le32_def foldl_append_output ser_legacy_def
      ser_body_def coinbase_of_def ser_bytes_def encode_varint_1 prevout_null add.assoc split: if_splits)

lemma legacy_to_witness_ser:
  "length item = 32 \<Longrightarrow> legacy_to_witness_item (ser_legacy tx) item = Inr (ser_witness tx [item])"
  by (simp add: legacy_to_witness_item_def ser_legacy_def ser_witness_def Let_def ser_bytes_def)

text \<open>C18: the two halves of the coinbase around any extranonce of the announced length are the legacy
  serialization of one transaction with a single null input, whose scriptSig is the height push, the
  extranonce and the tag, within the consensus limit, and whose outputs are the payout outputs followed by the
  required ones; turning it to the witness form gives the BIP144 serialization of the same transaction with
  the witness item.\<close>

theorem coinbase_split_correct:
  assumes "build_coinbase1_height height (length extranonce) tag version = Inr c1" and "height < 2 ^ 63"
    and "length item = 32"
  shows "\<exists>push tx. serialize_height height = Inr push \<and> pushed_number (push @ extranonce @ tag) = height
    \<and> tx = coinbase_of (push @ extranonce @ tag) version sequence (outputs @ required) lock_time
    \<and> length (tx_script_sig tx) \<le> 100
    \<and> c1 @ extranonce @ build_coinbase2 outputs required tag sequence lock_time = ser_legacy tx
    \<and> legacy_to_witness_item (ser_legacy tx) item = Inr (ser_witness tx [item])"
proof -
  obtain push where push: "serialize_height height = Inr push" "build_coinbase1 push (length extranonce) tag version = Inr c1"
    using assms(1) by (auto simp: build_coinbase1_height_def bindE_eq_Inr)
  have "\<not> height < 0" using push(1) by (auto simp: serialize_height_def)
  then have "pushed_number (push @ extranonce @ tag) = height"
    using height_push [OF assms(2)] push(1) by auto
  moreover have "length (push @ extranonce @ tag) \<le> 100"
    using push(2) by (auto simp: build_coinbase1_def Let_def kMaxScriptSig_def split: if_splits)
  ultimately show ?thesis
    using push(1) coinbase_halves [OF push(2)] legacy_to_witness_ser [OF assms(3)] by (simp add: coinbase_of_def)
qed

theorem coinbase_split_correct_witness:
  "\<exists>push c1 tx. serialize_height 100 = Inr push \<and> build_coinbase1_height 100 2 [0x2f] 2 = Inr c1
    \<and> c1 @ [7, 8] @ build_coinbase2 [] [\<lparr>out_value = 5, out_script = [0x51]\<rparr>] [0x2f] 0xffffffff 0 = ser_legacy tx
    \<and> legacy_to_witness_item (ser_legacy tx) (replicate 32 0) = Inr (ser_witness tx [replicate 32 0])"
proof -
  obtain c1 where c1: "build_coinbase1_height 100 (length [7, 8 :: u8]) [0x2f] 2 = Inr c1"
    by (simp add: build_coinbase1_height_def serialize_height_def magnitude_loop.simps build_coinbase1_def kMaxScriptSig_def Let_def)
  have small: "(100 :: int) < 2 ^ 63" by simp
  have item: "length (replicate 32 (0 :: u8)) = 32" by simp
  obtain push tx where "serialize_height 100 = Inr push"
    and "c1 @ [7, 8] @ build_coinbase2 [] [\<lparr>out_value = 5, out_script = [0x51]\<rparr>] [0x2f] 0xffffffff 0 = ser_legacy tx"
    and "legacy_to_witness_item (ser_legacy tx) (replicate 32 0) = Inr (ser_witness tx [replicate 32 0])"
    using coinbase_split_correct [OF c1 small item] by blast
  moreover have "build_coinbase1_height 100 2 [0x2f] 2 = Inr c1" using c1 by (simp add: numeral_2_eq_2)
  ultimately show ?thesis by blast
qed

end
