(* ===== verification/Float64.thy ===== *)
theory Float64
  imports Prelude "HOL-Library.Log_Nat"
begin

text \<open>
  The C++ type \<^verbatim>\<open>double\<close>: IEEE 754 binary64 with rounding to nearest, ties to even. A finite number is its
  rational value (so the two zeros are one value); every operation rounds the exact result. The lemmas are
  the facts the components need: the binade of a number, exactness on representable numbers, closure and
  monotonicity of rounding.
\<close>

datatype double = NaN | Infinity bool | Finite rat

text \<open>The exponent of the binade of a nonzero number.\<close>

definition rexp :: "rat \<Rightarrow> int" where
  "rexp x = (case quotient_of \<bar>x\<bar> of (p, q) \<Rightarrow>
     let e = bitlen p - bitlen q in if 2 powi e \<le> \<bar>x\<bar> then e else e - 1)"

definition round_even :: "rat \<Rightarrow> int" where
  "round_even x =
    (let f = \<lfloor>x\<rfloor>; r = x - of_int f
     in if r < 1 / 2 then f else if r > 1 / 2 then f + 1 else if even f then f else f + 1)"

definition ulp_exp :: "rat \<Rightarrow> int" where
  "ulp_exp x = max (rexp x - 52) (- 1074)"

definition round_value :: "rat \<Rightarrow> rat" where
  "round_value x = (if x = 0 then 0 else of_int (round_even (x / 2 powi ulp_exp x)) * 2 powi ulp_exp x)"

definition round64 :: "rat \<Rightarrow> double" where
  "round64 x = (if \<bar>round_value x\<bar> \<ge> 2 ^ 1024 then Infinity (x < 0) else Finite (round_value x))"

fun dneg :: "double \<Rightarrow> double" where
  "dneg NaN = NaN"
| "dneg (Infinity s) = Infinity (\<not> s)"
| "dneg (Finite x) = Finite (- x)"

fun dadd :: "double \<Rightarrow> double \<Rightarrow> double" where
  "dadd (Finite x) (Finite y) = round64 (x + y)"
| "dadd NaN _ = NaN"
| "dadd _ NaN = NaN"
| "dadd (Infinity s) (Infinity t) = (if s = t then Infinity s else NaN)"
| "dadd (Infinity s) (Finite _) = Infinity s"
| "dadd (Finite _) (Infinity s) = Infinity s"

definition dsub :: "double \<Rightarrow> double \<Rightarrow> double" where
  "dsub x y = dadd x (dneg y)"

fun dmul :: "double \<Rightarrow> double \<Rightarrow> double" where
  "dmul (Finite x) (Finite y) = round64 (x * y)"
| "dmul NaN _ = NaN"
| "dmul _ NaN = NaN"
| "dmul (Infinity s) (Infinity t) = Infinity (s \<noteq> t)"
| "dmul (Infinity s) (Finite y) = (if y = 0 then NaN else Infinity (s \<noteq> (y < 0)))"
| "dmul (Finite x) (Infinity s) = (if x = 0 then NaN else Infinity (s \<noteq> (x < 0)))"

fun ddiv :: "double \<Rightarrow> double \<Rightarrow> double" where
  "ddiv (Finite x) (Finite y) =
    (if y = 0 then if x = 0 then NaN else Infinity (x < 0) else round64 (x / y))"
| "ddiv NaN _ = NaN"
| "ddiv _ NaN = NaN"
| "ddiv (Infinity s) (Infinity t) = NaN"
| "ddiv (Infinity s) (Finite y) = Infinity (s \<noteq> (y < 0))"
| "ddiv (Finite x) (Infinity s) = Finite 0"

fun dless :: "double \<Rightarrow> double \<Rightarrow> bool" where
  "dless (Finite x) (Finite y) \<longleftrightarrow> x < y"
| "dless NaN _ \<longleftrightarrow> False"
| "dless _ NaN \<longleftrightarrow> False"
| "dless (Infinity s) (Infinity t) \<longleftrightarrow> s \<and> \<not> t"
| "dless (Infinity s) (Finite _) \<longleftrightarrow> s"
| "dless (Finite _) (Infinity s) \<longleftrightarrow> \<not> s"

fun dleq :: "double \<Rightarrow> double \<Rightarrow> bool" where
  "dleq (Finite x) (Finite y) \<longleftrightarrow> x \<le> y"
| "dleq NaN _ \<longleftrightarrow> False"
| "dleq _ NaN \<longleftrightarrow> False"
| "dleq (Infinity s) (Infinity t) \<longleftrightarrow> s \<or> \<not> t"
| "dleq (Infinity s) (Finite _) \<longleftrightarrow> s"
| "dleq (Finite _) (Infinity s) \<longleftrightarrow> \<not> s"

definition deq :: "double \<Rightarrow> double \<Rightarrow> bool" where
  "deq x y \<longleftrightarrow> x \<noteq> NaN \<and> x = y"

definition of_u64 :: "u64 \<Rightarrow> double" where
  "of_u64 n = round64 (of_nat (unat n))"

definition of_integer :: "int \<Rightarrow> double" where
  "of_integer n = round64 (of_int n)"

text \<open>Conversion to an integer truncates; \<open>None\<close> where the C++ conversion is undefined.\<close>

definition rat_trunc :: "rat \<Rightarrow> int" where
  "rat_trunc x = (if x < 0 then - \<lfloor>- x\<rfloor> else \<lfloor>x\<rfloor>)"

fun to_u64 :: "double \<Rightarrow> u64 option" where
  "to_u64 (Finite x) =
    (if 0 \<le> rat_trunc x \<and> rat_trunc x < 2 ^ 64 then Some (word_of_int (rat_trunc x)) else None)"
| "to_u64 _ = None"

fun to_i64 :: "double \<Rightarrow> int option" where
  "to_i64 (Finite x) =
    (if - (2 ^ 63) \<le> rat_trunc x \<and> rat_trunc x < 2 ^ 63 then Some (rat_trunc x) else None)"
| "to_i64 _ = None"

text \<open>\<^verbatim>\<open>std::ldexp\<close>, \<^verbatim>\<open>std::round\<close> and \<^verbatim>\<open>std::floor\<close>.\<close>

fun ldexp :: "double \<Rightarrow> int \<Rightarrow> double" where
  "ldexp (Finite x) e = round64 (x * 2 powi e)"
| "ldexp x e = x"

fun dround :: "double \<Rightarrow> double" where
  "dround (Finite x) = round64 (of_int (if x < 0 then - \<lfloor>- x + 1 / 2\<rfloor> else \<lfloor>x + 1 / 2\<rfloor>))"
| "dround x = x"

fun dfloor :: "double \<Rightarrow> double" where
  "dfloor (Finite x) = round64 (of_int \<lfloor>x\<rfloor>)"
| "dfloor x = x"

text \<open>The finite numbers of the type.\<close>

definition representable :: "rat \<Rightarrow> bool" where
  "representable x \<longleftrightarrow> (\<exists>m e. x = of_int m * 2 powi e \<and> \<bar>m\<bar> < 2 ^ 53 \<and> - 1074 \<le> e \<and> e \<le> 971)"

fun wf_double :: "double \<Rightarrow> bool" where
  "wf_double (Finite x) = representable x"
| "wf_double _ = True"

section \<open>Binades\<close>

lemma two_powi_pos [simp]: "(0 :: rat) < 2 powi e"
  by (simp add: zero_less_power_int)

lemma two_powi_mono: "a \<le> b \<Longrightarrow> (2 :: rat) powi a \<le> 2 powi b"
  by (simp add: power_int_increasing)

lemma two_powi_strict_mono: "a < b \<Longrightarrow> (2 :: rat) powi a < 2 powi b"
  by (simp add: power_int_strict_increasing)

lemma two_powi_add: "(2 :: rat) powi (a + b) = 2 powi a * 2 powi b"
  by (simp add: power_int_add)

lemma two_powi_diff: "(2 :: rat) powi (a - b) = 2 powi a / 2 powi b"
  by (simp add: power_int_diff)

lemma two_powi_nat: "0 \<le> e \<Longrightarrow> (2 :: rat) powi e = of_int (2 ^ nat e)"
  by (simp add: power_int_def)

lemma bitlen_rat_bounds:
  assumes "0 < p"
  shows "2 powi (bitlen p - 1) \<le> (of_int p :: rat)" "(of_int p :: rat) < 2 powi bitlen p"
proof -
  have "2 ^ nat (bitlen p - 1) \<le> p \<and> p < 2 ^ nat (bitlen p)"
    using bitlen_bounds [OF assms] .
  moreover have "0 \<le> bitlen p - 1"
    using assms bitlen_ge_iff_power [of 1 p] by simp
  ultimately show "2 powi (bitlen p - 1) \<le> (of_int p :: rat)" "(of_int p :: rat) < 2 powi bitlen p"
    using bitlen_nonneg [of p] by (auto simp: two_powi_nat simp del: of_int_power)
qed

lemma rexp_bounds:
  assumes "x \<noteq> 0"
  shows "2 powi rexp x \<le> \<bar>x\<bar>" "\<bar>x\<bar> < 2 powi (rexp x + 1)"
proof -
  obtain p q where pq: "quotient_of \<bar>x\<bar> = (p, q)" by fastforce
  have q: "0 < q" "\<bar>x\<bar> = of_int p / of_int q"
    using quotient_of_denom_pos [OF pq] quotient_of_div [OF pq] by auto
  have p: "0 < p"
    using q zero_less_abs_iff [of x] assms by (simp add: zero_less_divide_iff)
  let ?e = "bitlen p - bitlen q"
  note bp = bitlen_rat_bounds [OF p] and bq = bitlen_rat_bounds [OF q(1)]
  have "\<bar>x\<bar> < 2 powi bitlen p / 2 powi (bitlen q - 1)"
    unfolding q(2) using bp bq q(1) p by (intro frac_less) auto
  then have hi: "\<bar>x\<bar> < 2 powi (?e + 1)"
    by (simp add: two_powi_diff two_powi_add)
  have "2 powi (bitlen p - 1) / 2 powi bitlen q < \<bar>x\<bar>"
    unfolding q(2) using bp bq q(1) p by (intro frac_less2) auto
  then have lo: "2 powi (?e - 1) \<le> \<bar>x\<bar>"
    by (simp add: two_powi_diff)
  show "2 powi rexp x \<le> \<bar>x\<bar>" "\<bar>x\<bar> < 2 powi (rexp x + 1)"
    using hi lo by (auto simp: rexp_def pq Let_def)
qed

lemma rexp_unique:
  assumes "2 powi e \<le> \<bar>x\<bar>" "\<bar>x\<bar> < 2 powi (e + 1)"
  shows "rexp x = e"
proof -
  have "x \<noteq> 0" using assms(1) two_powi_pos [of e] by (auto simp only: abs_zero not_less [symmetric])
  note b = rexp_bounds [OF this]
  have "\<not> e + 1 \<le> rexp x" using b(1) assms(2) two_powi_mono [of "e + 1" "rexp x"] by linarith
  moreover have "\<not> rexp x + 1 \<le> e" using b(2) assms(1) two_powi_mono [of "rexp x + 1" e] by linarith
  ultimately show ?thesis by linarith
qed

section \<open>Rounding to an integer\<close>

lemma round_even_of_int [simp]: "round_even (of_int n) = n"
  by (simp add: round_even_def)

lemma round_even_bounds: "\<lfloor>x\<rfloor> \<le> round_even x" "round_even x \<le> \<lfloor>x\<rfloor> + 1"
  by (simp_all add: round_even_def Let_def)

lemma round_even_mono: "x \<le> y \<Longrightarrow> round_even x \<le> round_even y"
proof -
  assume le: "x \<le> y"
  show ?thesis
  proof (cases "\<lfloor>x\<rfloor> = \<lfloor>y\<rfloor>")
    case True
    then show ?thesis using le by (auto simp: round_even_def Let_def)
  next
    case False
    then have "\<lfloor>x\<rfloor> + 1 \<le> \<lfloor>y\<rfloor>" using floor_mono [OF le] by linarith
    then show ?thesis using round_even_bounds [of x] round_even_bounds [of y] by linarith
  qed
qed

lemma round_even_minus: "round_even (- x) = - round_even x"
proof (cases "x = of_int \<lfloor>x\<rfloor>")
  case True
  then show ?thesis by (metis round_even_of_int of_int_minus)
next
  case False
  then have "\<lfloor>- x\<rfloor> = - \<lfloor>x\<rfloor> - 1"
    by (simp add: floor_minus ceiling_altdef)
  then show ?thesis
    by (auto simp: round_even_def Let_def)
qed

lemma round_even_le: "x \<le> of_int n \<Longrightarrow> round_even x \<le> n"
  using round_even_mono [of x "of_int n"] by simp

lemma round_even_ge: "of_int n \<le> x \<Longrightarrow> n \<le> round_even x"
  using round_even_mono [of "of_int n" x] by simp

section \<open>Rounding to a double\<close>

lemma rexp_minus [simp]: "rexp (- x) = rexp x"
  by (simp add: rexp_def)

lemma round_value_minus: "round_value (- x) = - round_value x"
  by (simp add: round_value_def ulp_exp_def round_even_minus)

lemma round_value_0 [simp]: "round_value 0 = 0"
  by (simp add: round_value_def)

lemma rexp_mono:
  assumes "0 < x" "x \<le> y"
  shows "rexp x \<le> rexp y"
proof (rule ccontr)
  assume "\<not> rexp x \<le> rexp y"
  then have "(2 :: rat) powi (rexp y + 1) \<le> 2 powi rexp x" by (intro two_powi_mono) simp
  then show False using rexp_bounds [of x] rexp_bounds [of y] assms by auto
qed

lemma scaled_le: "(x :: rat) \<le> of_int n * 2 powi e \<Longrightarrow> u \<le> e \<Longrightarrow> x / 2 powi u \<le> of_int (n * 2 ^ nat (e - u))"
proof -
  assume "x \<le> of_int n * 2 powi e" "u \<le> e"
  moreover have "of_int n * 2 powi e / 2 powi u = (of_int (n * 2 ^ nat (e - u)) :: rat)"
    using calculation(2) by (simp flip: two_powi_diff add: two_powi_nat times_divide_eq_right [symmetric] del: times_divide_eq_right)
  ultimately show ?thesis
    by (metis divide_right_mono less_imp_le two_powi_pos)
qed

lemma scaled_ge: "of_int n * 2 powi e \<le> (x :: rat) \<Longrightarrow> u \<le> e \<Longrightarrow> of_int (n * 2 ^ nat (e - u)) \<le> x / 2 powi u"
  using scaled_le [of "- x" "- n" e u] by simp

lemma scaled_back: "u \<le> e \<Longrightarrow> of_int (n * 2 ^ nat (e - u)) * 2 powi u = (of_int n * 2 powi e :: rat)"
proof -
  assume "u \<le> e"
  then have "(2 :: rat) powi e = 2 powi (e - u) * 2 powi u" by (simp add: two_powi_add [symmetric])
  then show ?thesis using \<open>u \<le> e\<close> by (simp add: two_powi_nat)
qed

lemma round_value_le:
  assumes "0 < x" "x \<le> of_int n * 2 powi e" "ulp_exp x \<le> e"
  shows "round_value x \<le> of_int n * 2 powi e"
proof -
  have "round_even (x / 2 powi ulp_exp x) \<le> n * 2 ^ nat (e - ulp_exp x)"
    using assms scaled_le by (intro round_even_le)
  then have "of_int (round_even (x / 2 powi ulp_exp x)) * 2 powi ulp_exp x
      \<le> (of_int (n * 2 ^ nat (e - ulp_exp x)) * 2 powi ulp_exp x :: rat)"
    by (intro mult_right_mono) (simp_all only: of_int_le_iff, simp add: less_imp_le)
  then show ?thesis using assms by (simp only: scaled_back round_value_def) simp
qed

lemma round_value_ge:
  assumes "0 < x" "of_int n * 2 powi e \<le> x" "ulp_exp x \<le> e"
  shows "of_int n * 2 powi e \<le> round_value x"
proof -
  have "n * 2 ^ nat (e - ulp_exp x) \<le> round_even (x / 2 powi ulp_exp x)"
    using assms scaled_ge by (intro round_even_ge)
  then have "(of_int (n * 2 ^ nat (e - ulp_exp x)) * 2 powi ulp_exp x :: rat)
      \<le> of_int (round_even (x / 2 powi ulp_exp x)) * 2 powi ulp_exp x"
    by (intro mult_right_mono) (simp_all only: of_int_le_iff, simp add: less_imp_le)
  then show ?thesis using assms by (simp only: scaled_back round_value_def) simp
qed

lemma round_value_nonneg: "0 \<le> x \<Longrightarrow> 0 \<le> round_value x"
  using round_value_ge [of x 0 "ulp_exp x"] by (cases "x = 0") auto

lemma round_value_mono_pos:
  assumes "0 < x" "x \<le> y"
  shows "round_value x \<le> round_value y"
proof (cases "ulp_exp x = ulp_exp y")
  case True
  have "round_even (x / 2 powi ulp_exp y) \<le> round_even (y / 2 powi ulp_exp y)"
    using assms(2) by (intro round_even_mono divide_right_mono) (simp_all add: less_imp_le)
  then show ?thesis
    using assms True by (auto simp: round_value_def intro!: mult_right_mono less_imp_le)
next
  case False
  then have u: "ulp_exp x < ulp_exp y" "ulp_exp y = rexp y - 52" "rexp x < rexp y"
    using rexp_mono [OF assms] by (auto simp: ulp_exp_def max_def split: if_splits)
  have y: "2 powi rexp y \<le> y" using rexp_bounds [of y] assms by simp
  have x: "x \<le> 2 powi rexp y"
    using rexp_bounds [of x] assms(1) two_powi_mono [of "rexp x + 1" "rexp y"] u(3) by simp
  have "round_value x \<le> of_int 1 * 2 powi rexp y"
    using round_value_le [of x 1 "rexp y"] assms(1) x u by simp
  also have "\<dots> \<le> round_value y"
    using round_value_ge [of y 1 "rexp y"] assms y u by simp
  finally show ?thesis .
qed

lemma round_value_mono: "x \<le> y \<Longrightarrow> round_value x \<le> round_value y"
proof -
  assume le: "x \<le> y"
  consider "0 < x" | "x = 0" | "x < 0" "0 \<le> y" | "y < 0" by linarith
  then show ?thesis
  proof cases
    case 3
    then show ?thesis
      using round_value_nonneg [of y] round_value_nonneg [of "- x"] round_value_minus [of x] by linarith
  next
    case 4
    then show ?thesis
      using round_value_mono_pos [of "- y" "- x"] le by (simp add: round_value_minus)
  qed (use le round_value_mono_pos round_value_nonneg in auto)
qed

lemma round64_mono: "x \<le> y \<Longrightarrow> dleq (round64 x) (round64 y)"
proof -
  assume le: "x \<le> y"
  obtain L :: rat where L: "L = 2 ^ 1024" "0 < L" by simp
  have m: "round_value x \<le> round_value y" "0 \<le> x \<Longrightarrow> 0 \<le> round_value x" "x \<le> 0 \<Longrightarrow> round_value x \<le> 0"
    "0 \<le> y \<Longrightarrow> 0 \<le> round_value y" "y \<le> 0 \<Longrightarrow> round_value y \<le> 0"
    using le round_value_mono [of x y] round_value_mono [of 0 x] round_value_mono [of x 0]
      round_value_mono [of 0 y] round_value_mono [of y 0] by simp_all
  show ?thesis
    unfolding round64_def L(1) [symmetric] using m le L(2)
    by (cases "x < 0"; cases "y < 0") (auto simp: abs_if not_le)
qed

lemma representable_round_value: "representable x \<Longrightarrow> round_value x = x"
proof (cases "x = 0")
  case False
  assume "representable x"
  then obtain m e where m: "x = of_int m * 2 powi e" "\<bar>m\<bar> < 2 ^ 53" "- 1074 \<le> e"
    by (auto simp: representable_def)
  have "\<bar>x\<bar> = of_int \<bar>m\<bar> * 2 powi e" by (simp add: m(1) abs_mult)
  also have "\<dots> < of_int (2 ^ 53) * 2 powi e" using m(2) by (intro mult_strict_right_mono) (simp_all only: of_int_less_iff two_powi_pos)
  also have "\<dots> = 2 powi (53 + e)" by (simp add: two_powi_add)
  finally have "(2 :: rat) powi rexp x < 2 powi (53 + e)" using rexp_bounds(1) [OF False] by linarith
  then have "rexp x < 53 + e" using two_powi_mono [of "53 + e" "rexp x"] by linarith
  then have u: "ulp_exp x \<le> e" using m(3) by (simp add: ulp_exp_def)
  have "x / 2 powi ulp_exp x = of_int (m * 2 ^ nat (e - ulp_exp x))"
    using scaled_le [of x m e "ulp_exp x"] scaled_ge [of m e x "ulp_exp x"] m(1) u by simp
  then show ?thesis
    using False u by (simp only: round_value_def round_even_of_int if_False scaled_back m(1) [symmetric])
qed simp

lemma representable_bound: "representable x \<Longrightarrow> \<bar>x\<bar> < 2 ^ 1024"
proof -
  assume "representable x"
  then obtain m e where m: "x = of_int m * 2 powi e" "\<bar>m\<bar> < 2 ^ 53" "e \<le> 971"
    by (auto simp: representable_def)
  have "\<bar>x\<bar> = of_int \<bar>m\<bar> * 2 powi e" by (simp add: m(1) abs_mult)
  also have "\<dots> < of_int (2 ^ 53) * 2 powi e" using m(2) by (intro mult_strict_right_mono) (simp_all only: of_int_less_iff two_powi_pos)
  also have "\<dots> \<le> of_int (2 ^ 53) * 2 powi 971" using m(3) by (intro mult_left_mono two_powi_mono) simp_all
  also have "\<dots> = 2 ^ 1024" by (simp add: power_int_def)
  finally show ?thesis .
qed

lemma round64_representable: "representable x \<Longrightarrow> round64 x = Finite x"
  using representable_round_value representable_bound by (simp add: round64_def not_le)

lemma representable_minus: "representable x \<Longrightarrow> representable (- x)"
proof -
  assume "representable x"
  then obtain m e where "x = of_int m * 2 powi e" "\<bar>m\<bar> < 2 ^ 53" "- 1074 \<le> e" "e \<le> 971"
    by (auto simp: representable_def)
  then show ?thesis unfolding representable_def by (intro exI [of _ "- m"] exI [of _ e]) simp
qed

lemma representableI: "x = of_int m * 2 powi e \<Longrightarrow> \<bar>m\<bar> < 2 ^ 53 \<Longrightarrow> - 1074 \<le> e \<Longrightarrow> e \<le> 971 \<Longrightarrow> representable x"
  unfolding representable_def by blast

lemma representable_0 [simp]: "representable 0"
  by (rule representableI [of _ 0 0]) simp_all

lemma round_value_representable_pos:
  assumes "0 < x" "round_value x < 2 ^ 1024"
  shows "representable (round_value x)"
proof -
  define u n where "u = ulp_exp x" and "n = round_even (x / 2 powi u)"
  have v: "round_value x = of_int n * 2 powi u"
    using assms(1) by (simp add: round_value_def u_def n_def)
  have u: "- 1074 \<le> u" "rexp x \<le> u + 52" by (simp_all add: u_def ulp_exp_def)
  have lt: "of_int n * 2 powi u < (2 :: rat) powi 1024"
    using assms(2) v by (simp add: power_int_def)
  have "x \<le> of_int (2 ^ 53) * 2 powi u"
    using rexp_bounds(2) [of x] assms(1) two_powi_mono [of "rexp x + 1" "u + 53"] u(2) by (simp add: two_powi_add)
  then have "round_value x \<le> of_int (2 ^ 53) * 2 powi u"
    using round_value_le [OF assms(1)] u_def by blast
  moreover have "of_int 0 * 2 powi u \<le> round_value x"
    using round_value_nonneg [of x] assms(1) by simp
  ultimately have n: "0 \<le> n" "n \<le> 2 ^ 53"
    unfolding v by (simp_all only: mult_le_cancel_right_pos two_powi_pos of_int_le_iff)
  show ?thesis
  proof (cases "n = 2 ^ 53")
    case True
    then have "(2 :: rat) powi (53 + u) < 2 powi 1024" using lt by (simp add: two_powi_add)
    then have "53 + u < 1024" using two_powi_mono [of 1024 "53 + u"] by linarith
    moreover have "round_value x = of_int (2 ^ 52) * 2 powi (u + 1)" using v True by (simp add: two_powi_add)
    ultimately show ?thesis using u by (intro representableI [of _ "2 ^ 52" "u + 1"]) simp_all
  next
    case False
    have "u \<le> 971"
    proof (rule ccontr)
      assume "\<not> u \<le> 971"
      then have r: "rexp x = u + 52" "972 \<le> u" by (auto simp: u_def ulp_exp_def)
      then have "of_int 1 * 2 powi rexp x \<le> round_value x"
        using rexp_bounds(1) [of x] assms(1) u_def by (intro round_value_ge) auto
      moreover have "(2 :: rat) powi 1024 \<le> 2 powi rexp x" using r by (intro two_powi_mono) simp
      ultimately show False using lt v by simp
    qed
    then show ?thesis using n False u v by (intro representableI) auto
  qed
qed

lemma round_value_representable: "\<bar>round_value x\<bar> < 2 ^ 1024 \<Longrightarrow> representable (round_value x)"
proof -
  assume b: "\<bar>round_value x\<bar> < 2 ^ 1024"
  consider "0 < x" | "x = 0" | "x < 0" by linarith
  then show ?thesis
  proof cases
    case 1
    then show ?thesis using b by (intro round_value_representable_pos) simp_all
  next
    case 3
    then have "representable (round_value (- x))"
      using b by (intro round_value_representable_pos) (simp_all add: round_value_minus)
    then show ?thesis using representable_minus by (fastforce simp: round_value_minus)
  qed simp
qed

lemma wf_round64 [simp]: "wf_double (round64 x)"
  using round_value_representable [of x] by (simp add: round64_def not_le)

lemma wf_dadd [simp]: "wf_double (dadd x y)"
  by (cases "(x, y)" rule: dadd.cases) simp_all

lemma wf_dmul [simp]: "wf_double (dmul x y)"
  by (cases "(x, y)" rule: dmul.cases) simp_all

lemma wf_ddiv [simp]: "wf_double (ddiv x y)"
  by (cases "(x, y)" rule: ddiv.cases) simp_all

text \<open>An integer times a power of two that is small enough is exact.\<close>

lemma round64_int: "\<bar>m\<bar> \<le> 2 ^ 53 \<Longrightarrow> round64 (of_int m) = Finite (of_int m)"
proof (rule round64_representable)
  assume m: "\<bar>m\<bar> \<le> 2 ^ 53"
  show "representable (of_int m)"
  proof (cases "\<bar>m\<bar> = 2 ^ 53")
    case True
    then have "m = 2 * (if m < 0 then - (2 ^ 52) else 2 ^ 52)" by (auto simp: abs_if split: if_splits)
    then have "(of_int m :: rat) = of_int (if m < 0 then - (2 ^ 52) else 2 ^ 52) * 2 powi 1"
      by (metis mult.commute of_int_mult of_int_numeral power_int_1_right)
    then show ?thesis by (rule representableI) simp_all
  next
    case False
    then show ?thesis using m by (intro representableI [of _ m 0]) simp_all
  qed
qed

lemma round64_nat: "n \<le> 2 ^ 53 \<Longrightarrow> round64 (of_nat n) = Finite (of_nat n)"
  using round64_int [of "int n"] by simp

end
