(* ===== verification/Wide_Integer.thy ===== *)
theory Wide_Integer
  imports Prelude "HOL-Library.Log_Nat"
begin

text \<open>
  The 320-bit helper arithmetic of \<^verbatim>\<open>src/src/util/difficulty.cpp\<close>, word by word as in the source: left shift,
  comparison, bit length, subtraction with borrow, and shift-and-subtract division. The lemmas show that each
  computes its operation on the denoted natural numbers.
\<close>

type_synonym WideInteger = "u64 list"

definition kWideWordCount :: nat where
  "kWideWordCount = 5"

definition kWordBits :: nat where
  "kWordBits = 64"

function shift_left_loop :: "WideInteger \<Rightarrow> nat \<Rightarrow> nat \<Rightarrow> nat \<Rightarrow> WideInteger \<Rightarrow> WideInteger" where
  "shift_left_loop v word_shift bit_shift source shifted =
    (if source \<ge> length v then shifted
     else let destination = source + word_shift
       in if destination \<ge> length shifted then shifted
          else let shifted = shifted[destination := shifted ! destination OR push_bit bit_shift (v ! source)];
                   shifted = (if bit_shift \<noteq> 0 \<and> destination + 1 < length shifted
                     then shifted[destination + 1 := shifted ! (destination + 1) OR drop_bit (kWordBits - bit_shift) (v ! source)]
                     else shifted)
            in shift_left_loop v word_shift bit_shift (source + 1) shifted)"
  by pat_completeness auto
termination by (relation "measure (\<lambda>(v, _, _, source, _). length v - source)") auto

declare shift_left_loop.simps [simp del]

definition shift_left :: "WideInteger \<Rightarrow> nat \<Rightarrow> WideInteger" where
  "shift_left v shift = shift_left_loop v (shift div kWordBits) (shift mod kWordBits) 0 (replicate kWideWordCount 0)"

fun compare_loop :: "WideInteger \<Rightarrow> WideInteger \<Rightarrow> nat \<Rightarrow> int" where
  "compare_loop left right 0 = 0"
| "compare_loop left right (Suc index) =
    (if left ! index < right ! index then - 1
     else if left ! index > right ! index then 1
     else compare_loop left right index)"

definition compare :: "WideInteger \<Rightarrow> WideInteger \<Rightarrow> int" where
  "compare left right = compare_loop left right (length left)"

definition bit_width :: "u64 \<Rightarrow> int" where
  "bit_width w = bitlen (uint w)"

fun bit_length_loop :: "WideInteger \<Rightarrow> nat \<Rightarrow> int" where
  "bit_length_loop v 0 = 0"
| "bit_length_loop v (Suc index) =
    (if v ! index \<noteq> 0 then int (index * kWordBits) + bit_width (v ! index) else bit_length_loop v index)"

definition bit_length :: "WideInteger \<Rightarrow> int" where
  "bit_length v = bit_length_loop v (length v)"

fun subtract_loop :: "bool \<Rightarrow> WideInteger \<Rightarrow> WideInteger \<Rightarrow> WideInteger" where
  "subtract_loop borrow (l # left) (r # right) =
    (let subtrahend = r + of_bool borrow;
         addition_overflow = subtrahend < r;
         next_borrow = (addition_overflow \<or> l < subtrahend)
     in (l - subtrahend) # subtract_loop next_borrow left right)"
| "subtract_loop borrow left right = left"

definition subtract :: "WideInteger \<Rightarrow> WideInteger \<Rightarrow> WideInteger" where
  "subtract left right = subtract_loop False left right"

text \<open>The loop over the quotient bits, from \<open>k - 1\<close> down to \<open>0\<close>.\<close>

fun divide_loop :: "WideInteger \<Rightarrow> nat \<Rightarrow> u64 \<Rightarrow> WideInteger \<Rightarrow> u64 \<times> WideInteger" where
  "divide_loop divisor 0 quot remainder = (quot, remainder)"
| "divide_loop divisor (Suc quotient_bit) quot remainder =
    (let shifted_divisor = shift_left divisor quotient_bit
     in if compare remainder shifted_divisor < 0 then divide_loop divisor quotient_bit quot remainder
        else divide_loop divisor quotient_bit (quot OR push_bit quotient_bit 1) (subtract remainder shifted_divisor))"

definition divide_wide :: "WideInteger \<Rightarrow> WideInteger \<Rightarrow> u64 \<times> WideInteger" where
  "divide_wide dividend divisor =
    (let highest_quotient_bit = bit_length dividend - bit_length divisor
     in divide_loop divisor (nat (highest_quotient_bit + 1)) 0 dividend)"

section \<open>Wide integers\<close>

primrec wide_value :: "WideInteger \<Rightarrow> nat" where
  "wide_value [] = 0"
| "wide_value (w # ws) = unat w + 2 ^ 64 * wide_value ws"

lemma unat_word64_less: "unat (w :: u64) < 2 ^ 64"
  using unsigned_less [of w] by simp

lemma wide_value_less: "wide_value ws < 2 ^ (64 * length ws)"
proof (induction ws)
  case (Cons w ws)
  then have "unat w + 2 ^ 64 * wide_value ws < 2 ^ 64 + 2 ^ 64 * wide_value ws" using unat_word64_less [of w] by simp
  also have "\<dots> \<le> 2 ^ 64 * 2 ^ (64 * length ws)" using Cons by (simp flip: mult_Suc_right)
  finally show ?case by (simp add: power_add)
qed simp

lemma bit_wide_value: "bit (wide_value ws) n \<longleftrightarrow> n div 64 < length ws \<and> bit (ws ! (n div 64)) (n mod 64)"
proof (induction ws arbitrary: n)
  case (Cons w ws)
  show ?case
  proof (cases "n < 64")
    case True
    then have "(2 :: nat) ^ 64 * wide_value ws = 2 ^ n * (2 ^ (64 - n) * wide_value ws)"
      by (simp flip: power_add mult.assoc)
    then have "(unat w + 2 ^ 64 * wide_value ws) div 2 ^ n = 2 ^ (64 - n) * wide_value ws + unat w div 2 ^ n"
      by (simp only: div_mult_self2) (simp add: div_mult_self2)
    moreover have "even ((2 :: nat) ^ (64 - n))" using True by simp
    ultimately have "bit (wide_value (w # ws)) n \<longleftrightarrow> bit (unat w) n"
      by (simp add: bit_iff_odd)
    then show ?thesis using True by (simp add: bit_unsigned_iff)
  next
    case False
    then have "(2 :: nat) ^ n = 2 ^ 64 * 2 ^ (n - 64)" by (metis le_add_diff_inverse not_less power_add)
    then have "(unat w + 2 ^ 64 * wide_value ws) div 2 ^ n = wide_value ws div 2 ^ (n - 64)"
      using unat_word64_less [of w] by (simp add: div_mult2_eq)
    then have "bit (wide_value (w # ws)) n \<longleftrightarrow> bit (wide_value ws) (n - 64)"
      by (simp add: bit_iff_odd)
    moreover have "n div 64 = Suc ((n - 64) div 64)" "n mod 64 = (n - 64) mod 64"
      using False by (auto simp: le_div_geq le_mod_geq)
    ultimately show ?thesis using Cons.IH [of "n - 64"] by simp
  qed
qed simp

text \<open>One word of a shifted integer.\<close>

definition shifted_word :: "WideInteger \<Rightarrow> nat \<Rightarrow> nat \<Rightarrow> nat \<Rightarrow> nat \<Rightarrow> u64" where
  "shifted_word v ws bs n d =
    (if ws \<le> d \<and> d - ws < n then push_bit bs (v ! (d - ws)) else 0)
    OR (if bs \<noteq> 0 \<and> ws < d \<and> d - ws - 1 < n then drop_bit (64 - bs) (v ! (d - ws - 1)) else 0)"

lemma shift_left_loop_words:
  assumes "length v = 5" "length acc = 5" "\<forall>d < 5. acc ! d = shifted_word v ws bs source d" "source \<le> 5"
  shows "length (shift_left_loop v ws bs source acc) = 5
    \<and> (\<forall>d < 5. shift_left_loop v ws bs source acc ! d = shifted_word v ws bs 5 d)"
  using assms
proof (induction "5 - source" arbitrary: source acc)
  case 0
  then show ?case by (subst (1 2) shift_left_loop.simps) simp
next
  case (Suc n)
  then have src: "source < 5" "n = 5 - Suc source" by simp_all
  show ?case
  proof (cases "5 \<le> source + ws")
    case True
    have "shifted_word v ws bs source d = shifted_word v ws bs 5 d" if "d < 5" for d
      using True that src(1) by (auto simp: shifted_word_def)
    then show ?thesis
      using Suc.prems True src(1) by (subst (1 2) shift_left_loop.simps) (simp add: Let_def)
  next
    case False
    define dst where "dst = source + ws"
    define acc1 where "acc1 = acc[dst := acc ! dst OR push_bit bs (v ! source)]"
    define acc2 where "acc2 = (if bs \<noteq> 0 \<and> dst + 1 < length acc1
      then acc1[dst + 1 := acc1 ! (dst + 1) OR drop_bit (kWordBits - bs) (v ! source)] else acc1)"
    have len: "length acc2 = 5" using Suc.prems(2) by (simp add: acc2_def acc1_def)
    have "acc2 ! d = shifted_word v ws bs (Suc source) d" if d: "d < 5" for d
    proof -
      have "acc2 ! d = acc ! d OR (if d = dst then push_bit bs (v ! source) else 0)
          OR (if bs \<noteq> 0 \<and> d = dst + 1 then drop_bit (64 - bs) (v ! source) else 0)"
        using d Suc.prems(2) False by (auto simp: acc2_def acc1_def kWordBits_def nth_list_update dst_def)
      then show ?thesis
        using d Suc.prems(3) False by (auto simp: shifted_word_def dst_def less_Suc_eq or.assoc or.commute or.left_commute)
    qed
    moreover have "shift_left_loop v ws bs source acc = shift_left_loop v ws bs (Suc source) acc2"
      using src(1) Suc.prems False
      by (subst shift_left_loop.simps) (simp add: Let_def acc2_def acc1_def dst_def)
    ultimately show ?thesis
      using Suc.hyps(1) [OF src(2) Suc.prems(1) len] src(1) by simp
  qed
qed

lemma shift_left_words:
  assumes "length v = 5"
  shows "length (shift_left v s) = 5" "d < 5 \<Longrightarrow> shift_left v s ! d = shifted_word v (s div 64) (s mod 64) 5 d"
  using shift_left_loop_words [of v "replicate 5 0" "s div 64" "s mod 64" 0] assms
  by (auto simp: shift_left_def kWideWordCount_def kWordBits_def shifted_word_def)

lemma div_mod_64: "m = 64 * a + b \<Longrightarrow> b < 64 \<Longrightarrow> m div 64 = a \<and> m mod 64 = (b :: nat)"
  by simp

lemma wide_value_shift_left:
  assumes v: "length v = 5"
  shows "wide_value (shift_left v s) = take_bit 320 (push_bit s (wide_value v))"
proof (rule bit_eqI)
  fix n :: nat
  define ws bs d r where "ws = s div 64" and "bs = s mod 64" and "d = n div 64" and "r = n mod 64"
  have eq: "s = 64 * ws + bs" "n = 64 * d + r" "bs < 64" "r < 64" by (simp_all add: ws_def bs_def d_def r_def)
  show "bit (wide_value (shift_left v s)) n \<longleftrightarrow> bit (take_bit 320 (push_bit s (wide_value v))) n"
  proof (cases "d < 5")
    case False
    then show ?thesis using eq v by (simp add: bit_wide_value shift_left_words(1) bit_take_bit_iff flip: d_def)
  next
    case True
    have lhs: "bit (wide_value (shift_left v s)) n \<longleftrightarrow> bit (shifted_word v ws bs 5 d) r"
      using True v by (simp add: bit_wide_value shift_left_words flip: d_def r_def ws_def bs_def)
    have rhs: "bit (take_bit 320 (push_bit s (wide_value v))) n \<longleftrightarrow> s \<le> n \<and> bit (wide_value v) (n - s)"
      using True eq by (auto simp: bit_take_bit_iff bit_push_bit_iff)
    consider "d < ws" | "ws \<le> d" "bs \<le> r" | "d = ws" "r < bs" | "ws < d" "r < bs" by linarith
    then show ?thesis
    proof cases
      case 1
      then show ?thesis unfolding lhs rhs using eq by (auto simp: shifted_word_def)
    next
      case 2
      have x: "n - s = 64 * (d - ws) + (r - bs)" using 2 eq by (simp add: algebra_simps)
      have "(n - s) div 64 = d - ws \<and> (n - s) mod 64 = r - bs" by (rule div_mod_64 [OF x]) (use eq in linarith)
      moreover have "s \<le> n" using eq 2 by linarith
      ultimately show ?thesis unfolding lhs rhs using 2 eq True v
        by (auto simp: shifted_word_def bit_or_iff bit_push_bit_iff bit_drop_bit_eq bit_wide_value
            dest: bit_imp_le_length)
    next
      case 3
      then show ?thesis unfolding lhs rhs using eq by (auto simp: shifted_word_def bit_push_bit_iff)
    next
      case 4
      have x: "n - s = 64 * (d - ws - 1) + (64 + r - bs)" using 4 eq by (simp add: algebra_simps)
      have "(n - s) div 64 = d - ws - 1 \<and> (n - s) mod 64 = 64 + r - bs" by (rule div_mod_64 [OF x]) (use eq 4 in linarith)
      moreover have "s \<le> n" using eq 4 by linarith
      ultimately show ?thesis unfolding lhs rhs using 4 eq True v
        by (auto simp: shifted_word_def bit_or_iff bit_push_bit_iff bit_drop_bit_eq bit_wide_value)
    qed
  qed
qed

lemma shift_left_value:
  assumes "length v = 5" "wide_value v * 2 ^ s < 2 ^ 320"
  shows "wide_value (shift_left v s) = wide_value v * 2 ^ s"
  using assms by (simp add: wide_value_shift_left push_bit_eq_mult take_bit_nat_eq_self)

lemma wide_value_append: "wide_value (a @ b) = wide_value a + 2 ^ (64 * length a) * wide_value b"
  by (induction a) (simp_all add: algebra_simps power_add)

lemma wide_value_take_Suc:
  "i < length v \<Longrightarrow> wide_value (take (Suc i) v) = wide_value (take i v) + 2 ^ (64 * i) * unat (v ! i)"
  by (simp add: take_Suc_conv_app_nth wide_value_append)

lemma wide_value_take_less: "i \<le> length v \<Longrightarrow> wide_value (take i v) < 2 ^ (64 * i)"
  using wide_value_less [of "take i v"] by simp

lemma compare_loop_value:
  "i \<le> length a \<Longrightarrow> i \<le> length b \<Longrightarrow>
    compare_loop a b i = (if wide_value (take i a) < wide_value (take i b) then - 1
      else if wide_value (take i a) > wide_value (take i b) then 1 else 0)"
proof (induction i)
  case (Suc i)
  have low: "wide_value (take i a) < 2 ^ (64 * i)" "wide_value (take i b) < 2 ^ (64 * i)"
    using Suc.prems wide_value_take_less by simp_all
  have mono: "x + 2 ^ (64 * i) * unat u < y + 2 ^ (64 * i) * unat w"
    if "unat u < unat w" "x < 2 ^ (64 * i)" for x y and u w :: u64
  proof -
    have "x + 2 ^ (64 * i) * unat u < 2 ^ (64 * i) * Suc (unat u)" using that(2) by simp
    also have "\<dots> \<le> 2 ^ (64 * i) * unat w" using that(1) by (intro mult_le_mono2) simp
    finally show ?thesis by simp
  qed
  show ?case
    using Suc mono [of "a ! i" "b ! i" "wide_value (take i a)" "wide_value (take i b)"] low
      mono [of "b ! i" "a ! i" "wide_value (take i b)" "wide_value (take i a)"]
    by (auto simp: wide_value_take_Suc word_less_nat_alt not_less word_unat_eq_iff)
qed simp

lemma compare_value:
  "length a = length b \<Longrightarrow> compare a b = (if wide_value a < wide_value b then - 1
      else if wide_value a > wide_value b then 1 else 0)"
  by (simp add: compare_def compare_loop_value)

lemma bitlen_nat_bounds:
  assumes "0 < n"
  shows "2 ^ nat (bitlen (int n) - 1) \<le> n" "n < 2 ^ nat (bitlen (int n))" "1 \<le> bitlen (int n)"
proof -
  have b: "2 ^ nat (bitlen (int n) - 1) \<le> int n" "int n < 2 ^ nat (bitlen (int n))"
    using bitlen_bounds [of "int n"] assms by simp_all
  show "2 ^ nat (bitlen (int n) - 1) \<le> n" using b(1) by (metis of_nat_le_iff of_nat_numeral of_nat_power)
  show "n < 2 ^ nat (bitlen (int n))" using b(2) by (metis of_nat_less_iff of_nat_numeral of_nat_power)
  show "1 \<le> bitlen (int n)" using assms bitlen_eq_zero_iff [of "int n"] bitlen_nonneg [of "int n"] by linarith
qed

lemma bitlen_nat_eqI:
  assumes "2 ^ a \<le> n" "n < 2 ^ Suc a"
  shows "bitlen (int n) = int (Suc a)"
proof -
  have n: "0 < n" using assms(1) by (metis less_le_trans pos2 zero_less_power)
  note b = bitlen_nat_bounds [OF n]
  have "2 ^ a < (2 :: nat) ^ nat (bitlen (int n))" "(2 :: nat) ^ nat (bitlen (int n) - 1) < 2 ^ Suc a"
    using b assms by linarith+
  then have "a < nat (bitlen (int n))" "nat (bitlen (int n) - 1) < Suc a"
    by (simp_all only: power_strict_increasing_iff one_less_numeral_iff semiring_norm)
  then show ?thesis using b(3) by linarith
qed

lemma bit_length_loop_value:
  "i \<le> length v \<Longrightarrow> bit_length_loop v i = bitlen (int (wide_value (take i v)))"
proof (induction i)
  case (Suc i)
  show ?case
  proof (cases "v ! i = 0")
    case True
    then show ?thesis using Suc by (simp add: wide_value_take_Suc)
  next
    case False
    let ?w = "unat (v ! i)" and ?lo = "wide_value (take i v)"
    have w: "0 < ?w" using False by (simp add: unat_gt_0)
    define k where "k = nat (bitlen (int ?w) - 1)"
    have k: "2 ^ k \<le> ?w" "?w < 2 ^ Suc k" "bitlen (int ?w) = int (Suc k)"
      using bitlen_nat_bounds [OF w] by (simp_all add: k_def Suc_nat_eq_nat_zadd1)
    have lo: "?lo < 2 ^ (64 * i)" using Suc.prems wide_value_take_less by simp
    have "2 ^ (64 * i + k) \<le> ?lo + 2 ^ (64 * i) * ?w"
      using k(1) by (simp add: power_add trans_le_add2)
    moreover have "?lo + 2 ^ (64 * i) * ?w < 2 ^ Suc (64 * i + k)"
    proof -
      have "?lo + 2 ^ (64 * i) * ?w < 2 ^ (64 * i) * Suc ?w" using lo by simp
      also have "\<dots> \<le> 2 ^ (64 * i) * 2 ^ Suc k" using k(2) by (intro mult_le_mono2) simp
      finally show ?thesis by (simp add: power_add)
    qed
    ultimately have "bitlen (int (?lo + 2 ^ (64 * i) * ?w)) = int (Suc (64 * i + k))"
      by (rule bitlen_nat_eqI)
    then show ?thesis
      using False Suc.prems k(3) by (simp add: wide_value_take_Suc bit_width_def kWordBits_def)
  qed
qed simp

lemma bit_length_value: "bit_length v = bitlen (int (wide_value v))"
  by (simp add: bit_length_def bit_length_loop_value)

lemma add_of_bool_less: "n < m \<Longrightarrow> \<not> (c \<and> n + 1 = m) \<Longrightarrow> n + of_bool c < (m :: nat)"
  by (cases c) auto

lemma unat_add_of_bool: "(unat (r::u64)) + of_bool c < 2 ^ 64 \<Longrightarrow> unat (r + of_bool c) = unat r + of_bool c"
  by (cases c) (simp_all add: unat_word_ariths)

lemma sub_borrow:
  assumes s: "unat (s :: u64) = unat r + of_bool c" and nb: "nb \<longleftrightarrow> s < r \<or> l < s"
  shows "unat l + 2 ^ 64 * of_bool nb = unat (l - s) + unat r + of_bool c"
proof -
  have nb': "nb \<longleftrightarrow> unat l < unat s" using nb s by (auto simp: word_less_nat_alt)
  have "unat (l - s) = (if unat s \<le> unat l then unat l - unat s else unat l + 2 ^ 64 - unat s)"
    by (simp add: unat_sub_if_size word_size)
  then show ?thesis using s nb' unat_word64_less [of s] by (cases nb) auto
qed

lemma carry_words: assumes "unat l + 2 ^ 64 * of_bool nb = x + unat r + of_bool c"
  "wa + P * of_bool c' = ws + wb + of_bool nb"
  shows "unat l + 2 ^ 64 * wa + (2 ^ 64 * P) * of_bool c' = x + 2 ^ 64 * ws + (unat r + 2 ^ 64 * wb) + of_bool c"
proof -
  have "2 ^ 64 * wa + 2 ^ 64 * (P * of_bool c') = 2 ^ 64 * ws + 2 ^ 64 * wb + 2 ^ 64 * of_bool nb"
    using assms(2) by (metis distrib_left)
  then show ?thesis using assms(1) by (simp only: mult.assoc)
qed

lemma subtract_loop_value:
  "length a = length b \<Longrightarrow> length (subtract_loop c a b) = length a \<and>
    (\<exists>c'. wide_value a + 2 ^ (64 * length a) * of_bool c' = wide_value (subtract_loop c a b) + wide_value b + of_bool c)"
proof (induction c a b rule: subtract_loop.induct)
  case (1 c l a r b)
  define s where "s = r + of_bool c"
  define nb where "nb = (s < r \<or> l < s)"
  obtain c' where IH: "length (subtract_loop nb a b) = length a"
    "wide_value a + 2 ^ (64 * length a) * of_bool c' = wide_value (subtract_loop nb a b) + wide_value b + of_bool nb"
    using "1.IH" [OF s_def refl nb_def] "1.prems" by auto
  have "unat l + 2 ^ 64 * of_bool nb = unat (l - s) + unat r + of_bool c"
  proof (cases "c \<and> unat r + 1 = 2 ^ 64")
    case True
    then have "s = 0" unfolding s_def by (simp add: word_unat_eq_iff unat_word_ariths)
    moreover have "r \<noteq> 0" using True by auto
    ultimately show ?thesis using True by (simp add: nb_def word_neq_0_conv [symmetric])
  next
    case False
    then have "unat r + of_bool c < 2 ^ 64"
      using unat_word64_less by (intro add_of_bool_less)
    then have "unat s = unat r + of_bool c" unfolding s_def by (rule unat_add_of_bool)
    then show ?thesis by (rule sub_borrow) (rule nb_def)
  qed
  moreover have "(2 :: nat) ^ (64 * length (l # a)) = 2 ^ 64 * 2 ^ (64 * length a)"
    by (simp add: power_add)
  ultimately have "wide_value (l # a) + 2 ^ (64 * length (l # a)) * of_bool c'
      = wide_value ((l - s) # subtract_loop nb a b) + wide_value (r # b) + of_bool c"
    using carry_words [OF _ IH(2)] by (simp only: wide_value.simps)
  then show ?case
    using IH(1) by (auto simp only: subtract_loop.simps Let_def s_def [symmetric] nb_def [symmetric] list.size)
qed (auto intro: exI [of _ False])

lemma subtract_value:
  assumes "length a = length b" "wide_value b \<le> wide_value a"
  shows "length (subtract a b) = length a" "wide_value (subtract a b) = wide_value a - wide_value b"
proof -
  obtain c' where c: "length (subtract a b) = length a"
    "wide_value a + 2 ^ (64 * length a) * of_bool c' = wide_value (subtract a b) + wide_value b"
    using subtract_loop_value [OF assms(1), of False] by (auto simp: subtract_def)
  have "wide_value (subtract a b) < 2 ^ (64 * length a)"
    using wide_value_less [of "subtract a b"] c(1) by simp
  then have "\<not> c'" using c(2) assms(2) by (cases c') simp_all
  then show "length (subtract a b) = length a" "wide_value (subtract a b) = wide_value a - wide_value b"
    using c by simp_all
qed

lemma unat_two_power: "k < 64 \<Longrightarrow> unat ((2 :: u64) ^ k) = 2 ^ k"
proof -
  assume "k < 64"
  then have "(2 :: nat) ^ k < 2 ^ 64" by (intro power_strict_increasing) simp_all
  moreover have "(2 :: u64) ^ k = word_of_nat (2 ^ k)" by simp
  ultimately show ?thesis by (simp only: unat_of_nat take_bit_nat_eq_self_iff) (simp add: take_bit_nat_eq_self)
qed

lemma unat_or_bit:
  assumes "2 ^ Suc k dvd unat (q :: u64)" "k < 64"
  shows "unat (q OR push_bit k 1) = unat q + 2 ^ k"
proof -
  obtain m where m: "unat q = 2 ^ Suc k * m" using assms(1) by blast
  have "\<not> bit (unat q) k" by (simp add: m bit_iff_odd)
  then have "unat q OR 2 ^ k = unat q + 2 ^ k"
    by (intro disjunctive_add_eq_or [symmetric] bit_eqI) (auto simp: bit_simps)
  moreover have "unat (push_bit k (1 :: u64)) = 2 ^ k"
    using unat_two_power [OF assms(2)] by simp
  ultimately show ?thesis by (simp add: unsigned_or_eq)
qed

lemma divide_loop_value:
  assumes "length D = 5" "length R = 5" "wide_value R < wide_value D * 2 ^ k" "k = 0 \<or> wide_value D * 2 ^ (k - 1) < 2 ^ 320"
    "k \<le> 64" "2 ^ k dvd unat q" "divide_loop D k q R = (q', R')"
  shows "length R' = 5 \<and> wide_value R' < wide_value D
    \<and> wide_value R + wide_value D * unat q = wide_value R' + wide_value D * unat q'"
  using assms
proof (induction k arbitrary: q R)
  case (Suc k)
  have D: "wide_value D * 2 ^ k < 2 ^ 320"
    using Suc.prems(4) by simp
  have sD: "length (shift_left D k) = 5" "wide_value (shift_left D k) = wide_value D * 2 ^ k"
    using Suc.prems(1) D shift_left_words(1) shift_left_value by simp_all
  have k: "k = 0 \<or> wide_value D * 2 ^ (k - 1) < 2 ^ 320"
    using D by (cases k) auto
  have dvd: "2 ^ k dvd unat q"
    using Suc.prems(6) by (metis dvd_trans le_imp_power_dvd le_SucI order_refl)
  show ?case
  proof (cases "compare R (shift_left D k) < 0")
    case True
    then have "wide_value R < wide_value D * 2 ^ k"
      using Suc.prems(2) sD by (simp add: compare_value split: if_splits)
    then show ?thesis
      using Suc.IH [of R q] Suc.prems True k dvd by (simp add: Let_def)
  next
    case False
    then have le: "wide_value D * 2 ^ k \<le> wide_value R"
      using Suc.prems(2) sD by (simp add: compare_value split: if_splits)
    let ?R = "subtract R (shift_left D k)" and ?q = "q OR push_bit k 1"
    have R: "length ?R = 5" "wide_value ?R = wide_value R - wide_value D * 2 ^ k"
      using subtract_value [of R "shift_left D k"] Suc.prems(2) sD le by simp_all
    have q: "unat ?q = unat q + 2 ^ k"
      using unat_or_bit Suc.prems(5,6) by simp
    have "2 ^ k dvd unat ?q" using dvd q by simp
    then have "length R' = 5 \<and> wide_value R' < wide_value D
        \<and> wide_value ?R + wide_value D * unat ?q = wide_value R' + wide_value D * unat q'"
      using Suc.IH [of ?R ?q] Suc.prems R False k by (simp add: Let_def)
    then show ?thesis using R(2) q le by (simp add: algebra_simps)
  qed
qed simp

lemma quotient_bits:
  assumes "0 < D" "N < D * 2 ^ 63" "N < 2 ^ 320"
  defines "k \<equiv> nat (bitlen (int N) - bitlen (int D) + 1)"
  shows "N < D * 2 ^ k \<and> (k = 0 \<or> D * 2 ^ (k - 1) < 2 ^ 320) \<and> k \<le> 64"
proof (cases "N = 0")
  case True
  then show ?thesis using assms(1) bitlen_nat_bounds(3) [OF assms(1)] by (simp add: k_def)
next
  case False
  define n d where "n = nat (bitlen (int N))" and "d = nat (bitlen (int D) - 1)"
  have N: "2 ^ (n - 1) \<le> N" "N < 2 ^ n" "1 \<le> n"
    using bitlen_nat_bounds [of N] False by (simp_all add: n_def nat_diff_distrib')
  have D: "2 ^ d \<le> D" "D < 2 ^ Suc d"
    using bitlen_nat_bounds [OF assms(1)] by (simp_all add: d_def Suc_nat_eq_nat_zadd1)
  have k: "k = n - d"
    using bitlen_nat_bounds(3) [of N] bitlen_nat_bounds(3) [OF assms(1)] False by (simp add: k_def n_def d_def)
  have "(2 :: nat) ^ (n - 1) < 2 ^ 320" using N(1) assms(3) by (rule le_less_trans)
  then have n: "n \<le> 320" by (simp only: power_strict_increasing_iff one_less_numeral_iff semiring_norm)
  have "2 ^ n \<le> (2 :: nat) ^ (d + k)" using k by (intro power_increasing) auto
  also have "\<dots> \<le> D * 2 ^ k" using D(1) by (simp add: power_add)
  finally have 1: "N < D * 2 ^ k" using N(2) by linarith
  have 2: "D * 2 ^ (k - 1) < 2 ^ 320" if "k \<noteq> 0"
  proof -
    have "D * 2 ^ (k - 1) < 2 ^ Suc d * 2 ^ (k - 1)" using D(2) by simp
    also have "\<dots> = 2 ^ n" using that k by (simp flip: power_Suc power_add)
    also have "\<dots> \<le> 2 ^ 320" using n by (intro power_increasing) auto
    finally show ?thesis .
  qed
  have "(2 :: nat) ^ (n - 1) < 2 ^ (Suc d + 63)"
    using N(1) assms(2) mult_strict_right_mono [OF D(2), of "2 ^ 63"] by (simp add: power_add)
  then have "n - 1 < Suc d + 63" by (simp only: power_strict_increasing_iff one_less_numeral_iff semiring_norm)
  then show ?thesis using 1 2 k by auto
qed

lemma divide_wide_value:
  assumes "length N = 5" "length D = 5" "0 < wide_value D" "wide_value N < wide_value D * 2 ^ 63"
    "divide_wide N D = (q, R)"
  shows "length R = 5 \<and> wide_value R = wide_value N mod wide_value D \<and> unat q = wide_value N div wide_value D"
proof -
  define h where "h = bit_length N - bit_length D"
  define k where "k = nat (h + 1)"
  have loop: "divide_loop D k 0 N = (q, R)"
    using assms(5) by (simp add: divide_wide_def Let_def k_def h_def)
  have "wide_value N < wide_value D * 2 ^ k \<and> (k = 0 \<or> wide_value D * 2 ^ (k - 1) < 2 ^ 320) \<and> k \<le> 64"
    using quotient_bits [of "wide_value D" "wide_value N"] assms(1,3,4) wide_value_less [of N]
    by (simp add: k_def h_def bit_length_value)
  then have "length R = 5" "wide_value R < wide_value D" "wide_value N = wide_value R + wide_value D * unat q"
    using divide_loop_value [OF assms(2,1) _ _ _ _ loop] by auto
  then show ?thesis by simp
qed

end
