(* ===== verification/Difficulty.thy ===== *)
theory Difficulty
  imports Float64 Uint256 Wide_Integer
begin

text \<open>
  \<^verbatim>\<open>src/src/util/difficulty.cpp\<close>: compact targets, 256-bit targets and floating-point difficulties. The
  difficulty of a target is shown to be the exact quotient rounded once, and the target of a difficulty the
  integer part of the rounded quotient.
\<close>

definition kDifficultyOneTarget :: double where
  "kDifficultyOneTarget = round64 26959535291011309493156476344723991336010898738574164086137773096960"

definition kTwoTo64 :: double where
  "kTwoTo64 = round64 18446744073709551616"

definition kTwoTo128 :: double where
  "kTwoTo128 = round64 340282366920938463463374607431768211456"

definition kTwoTo192 :: double where
  "kTwoTo192 = round64 6277101735386680763835789423207666416102355444464034512896"

definition kMinimumRepresentableDifficulty :: double where
  "kMinimumRepresentableDifficulty = round64 (24 / 10 ^ 11)"

definition kWordBytes :: nat where
  "kWordBytes = 8"

definition kDoubleFractionBits :: int where
  "kDoubleFractionBits = 52"

definition kDoubleSignificandBits :: int where
  "kDoubleSignificandBits = kDoubleFractionBits + 1"

definition kDifficultyOneShift :: nat where
  "kDifficultyOneShift = 208"

definition difficulty_one_numerator :: WideInteger where
  "difficulty_one_numerator =
    (replicate kWideWordCount 0)[kDifficultyOneShift div kWordBits := push_bit (kDifficultyOneShift mod kWordBits) 0xffff]"

definition target_integer :: "uint256 \<Rightarrow> WideInteger" where
  "target_integer target =
    map (\<lambda>word. read_le64 (drop (word * kWordBytes) (le_bytes target))) [0..<32 div kWordBytes] @ [0]"

definition exact_ratio_to_double :: "WideInteger \<Rightarrow> WideInteger \<Rightarrow> double" where
  "exact_ratio_to_double numerator denominator =
    (let exponent = bit_length numerator - bit_length denominator;
         initial_exponent_is_reachable =
           (if exponent \<ge> 0 then compare numerator (shift_left denominator (nat exponent)) \<ge> 0
            else compare (shift_left numerator (nat (- exponent))) denominator \<ge> 0);
         exponent = (if \<not> initial_exponent_is_reachable then exponent - 1 else exponent);
         significand_shift = kDoubleFractionBits - exponent;
         dividend = (if significand_shift \<ge> 0 then shift_left numerator (nat significand_shift) else numerator);
         divisor = (if significand_shift < 0 then shift_left denominator (nat (- significand_shift)) else denominator);
         (significand, remainder) = divide_wide dividend divisor;
         twice_remainder = shift_left remainder 1;
         remainder_comparison = compare twice_remainder divisor;
         significand = (if remainder_comparison > 0 \<or> (remainder_comparison = 0 \<and> significand AND 1 \<noteq> 0)
           then significand + 1 else significand);
         kSignificandOverflow = push_bit (nat kDoubleSignificandBits) 1;
         (significand, exponent) = (if significand = kSignificandOverflow then (drop_bit 1 significand, exponent + 1)
           else (significand, exponent))
     in ldexp (of_u64 significand) (exponent - kDoubleFractionBits))"

definition target_from_compact :: "u32 \<Rightarrow> uint256" where
  "target_from_compact nbits =
    (let exponent = drop_bit 24 nbits; mantissa = nbits AND 0x007fffff; target = replicate 32 (0 :: u8)
     in if exponent \<le> 3 then
          (let mantissa = drop_bit (8 * (3 - unat exponent)) mantissa
           in uint256_of_bytes (target[0 := ucast mantissa, 1 := ucast (drop_bit 8 mantissa), 2 := ucast (drop_bit 16 mantissa)]))
        else
          (let index = unat exponent - 3;
               target = (if index \<le> 31 then target[index := ucast mantissa] else target);
               target = (if index + 1 \<le> 31 then target[index + 1 := ucast (drop_bit 8 mantissa)] else target);
               target = (if index + 2 \<le> 31 then target[index + 2 := ucast (drop_bit 16 mantissa)] else target)
           in uint256_of_bytes target))"

definition difficulty_from_target :: "uint256 \<Rightarrow> double" where
  "difficulty_from_target target =
    (if is_zero target then Infinity False
     else exact_ratio_to_double difficulty_one_numerator (target_integer target))"

definition difficulty_from_compact :: "u32 \<Rightarrow> double" where
  "difficulty_from_compact nbits = difficulty_from_target (target_from_compact nbits)"

text \<open>\<open>None\<close> stands for an undefined conversion of a \<^verbatim>\<open>double\<close> to \<^verbatim>\<open>uint64_t\<close>.\<close>

definition target_from_difficulty :: "double \<Rightarrow> uint256 option" where
  "target_from_difficulty difficulty =
    (if \<not> dless kMinimumRepresentableDifficulty difficulty then Some (uint256_of_bytes (replicate 32 0xff))
     else let remaining = ddiv kDifficultyOneTarget difficulty
       in case to_u64 (ddiv remaining kTwoTo192) of None \<Rightarrow> None | Some word3 \<Rightarrow>
         let remaining = dsub remaining (dmul (of_u64 word3) kTwoTo192)
         in case to_u64 (ddiv remaining kTwoTo128) of None \<Rightarrow> None | Some word2 \<Rightarrow>
           let remaining = dsub remaining (dmul (of_u64 word2) kTwoTo128)
           in case to_u64 (ddiv remaining kTwoTo64) of None \<Rightarrow> None | Some word1 \<Rightarrow>
             let remaining = dsub remaining (dmul (of_u64 word1) kTwoTo64)
             in case to_u64 remaining of None \<Rightarrow> None | Some word0 \<Rightarrow>
               Some (uint256_of_bytes (write_le64 word0 @ write_le64 word1 @ write_le64 word2 @ write_le64 word3)))"

definition meets_target :: "uint256 \<Rightarrow> uint256 \<Rightarrow> bool" where
  "meets_target hash target \<longleftrightarrow> hash \<le> target"

section \<open>Difficulty of a target\<close>

lemma round_even_quotient:
  assumes "0 < B"
  shows "round_even (of_nat A / of_nat B) =
    int (if 2 * (A mod B) > B \<or> 2 * (A mod B) = B \<and> odd (A div B) then A div B + 1 else A div B)"
proof -
  have fl: "\<lfloor>(of_nat A / of_nat B :: rat)\<rfloor> = int (A div B)"
    by (rule floor_divide_of_nat_eq)
  have "(of_nat A :: rat) = of_nat (A div B) * of_nat B + of_nat (A mod B)"
    by (metis div_mult_mod_eq of_nat_add of_nat_mult)
  then have fr: "of_nat A / of_nat B - (of_nat (A div B) :: rat) = of_nat (A mod B) / of_nat B"
    using assms by (simp add: field_simps)
  have "(of_nat (A mod B) / of_nat B :: rat) < 1 / 2 \<longleftrightarrow> of_nat (2 * (A mod B)) < (of_nat B :: rat)"
    using assms by (simp add: field_simps)
  then have lt: "(of_nat (A mod B) / of_nat B :: rat) < 1 / 2 \<longleftrightarrow> 2 * (A mod B) < B"
    by (simp only: of_nat_less_iff)
  have "(of_nat (A mod B) / of_nat B :: rat) > 1 / 2 \<longleftrightarrow> of_nat (2 * (A mod B)) > (of_nat B :: rat)"
    using assms by (simp add: field_simps)
  then have gt: "(of_nat (A mod B) / of_nat B :: rat) > 1 / 2 \<longleftrightarrow> 2 * (A mod B) > B"
    by (simp only: of_nat_less_iff)
  show ?thesis
    unfolding round_even_def Let_def fl of_int_of_nat_eq fr lt gt by auto
qed

lemma binade_of_quotient:
  assumes N: "0 < N" and D: "0 < (D :: nat)"
  defines "E \<equiv> bitlen (int N) - bitlen (int D)" and "x \<equiv> (of_nat N / of_nat D :: rat)"
  shows "rexp x = (if 2 powi E \<le> x then E else E - 1)"
    and "0 \<le> E \<Longrightarrow> 2 powi E \<le> x \<longleftrightarrow> D * 2 ^ nat E \<le> N"
    and "E < 0 \<Longrightarrow> 2 powi E \<le> x \<longleftrightarrow> D \<le> N * 2 ^ nat (- E)"
proof -
  have x: "0 < x" using N D by (simp add: x_def)
  note bN = bitlen_rat_bounds [of "int N"] and bD = bitlen_rat_bounds [of "int D"]
  have "x < 2 powi bitlen (int N) / 2 powi (bitlen (int D) - 1)"
    unfolding x_def using bN bD N D by (intro frac_less) auto
  then have hi: "x < 2 powi (E + 1)" by (simp add: E_def two_powi_diff two_powi_add)
  have "2 powi (bitlen (int N) - 1) / 2 powi bitlen (int D) < x"
    unfolding x_def using bN bD N D by (intro frac_less2) auto
  then have lo: "2 powi (E - 1) \<le> x" by (simp add: E_def two_powi_diff)
  show "rexp x = (if 2 powi E \<le> x then E else E - 1)"
    using hi lo x by (auto intro!: rexp_unique)
  show "2 powi E \<le> x \<longleftrightarrow> D * 2 ^ nat E \<le> N" if "0 \<le> E"
  proof -
    have "2 powi E \<le> x \<longleftrightarrow> (of_nat (D * 2 ^ nat E) :: rat) \<le> of_nat N"
      using that D by (simp add: x_def power_int_def field_simps)
    then show ?thesis by (simp only: of_nat_le_iff)
  qed
  show "2 powi E \<le> x \<longleftrightarrow> D \<le> N * 2 ^ nat (- E)" if "E < 0"
  proof -
    have "2 powi E \<le> x \<longleftrightarrow> (of_nat D :: rat) \<le> of_nat (N * 2 ^ nat (- E))"
      using that D by (simp add: x_def power_int_def field_simps)
    then show ?thesis by (simp only: of_nat_le_iff)
  qed
qed

lemma round64_idem: "round64 (round_value x) = round64 x" if "\<bar>round_value x\<bar> < 2 ^ 1024"
  using round64_representable [OF round_value_representable [OF that]] that by (simp add: round64_def)

lemma scaled_quotient:
  assumes N: "0 < N" and D: "0 < (D :: nat)"
  defines "x \<equiv> (of_nat N / of_nat D :: rat)"
  defines "s \<equiv> 52 - rexp x"
  defines "A \<equiv> (if 0 \<le> s then N * 2 ^ nat s else N)" and "B \<equiv> (if s < 0 then D * 2 ^ nat (- s) else D)"
  shows "of_nat A / of_nat B = x / 2 powi (rexp x - 52)" "A < B * 2 ^ 53"
proof -
  have "(of_nat A / of_nat B :: rat) = x * 2 powi s"
    using N D by (simp add: A_def B_def x_def power_int_def field_simps)
  also have "\<dots> = x / 2 powi (rexp x - 52)"
    by (simp add: s_def two_powi_diff)
  finally show eq: "of_nat A / of_nat B = x / 2 powi (rexp x - 52)" .
  have "0 < B" using D by (simp add: B_def)
  have "x < 2 powi (rexp x + 1)" using rexp_bounds [of x] N D by (simp add: x_def)
  then have "x / 2 powi (rexp x - 52) < 2 powi (rexp x + 1) / 2 powi (rexp x - 52)"
    by (intro divide_strict_right_mono) simp_all
  also have "\<dots> = 2 ^ 53"
    using two_powi_add [of 53 "rexp x - 52"] by (simp add: add.commute)
  finally have "(of_nat A :: rat) < of_nat (B * 2 ^ 53)"
    using \<open>0 < B\<close> by (simp add: eq [symmetric] field_simps)
  then show "A < B * 2 ^ 53" by (simp only: of_nat_less_iff)
qed

lemma ldexp_round_value:
  assumes "0 < x" "ulp_exp x = rexp x - 52" "round_value x < 2 ^ 1024"
    "int (unat sig) = round_even (x / 2 powi (rexp x - 52))" "unat sig \<le> 2 ^ 53"
    "(sig', e') = (if sig = push_bit 53 1 then (drop_bit 1 sig, rexp x + 1) else (sig, rexp x))"
  shows "ldexp (of_u64 sig') (e' - 52) = round64 x"
proof -
  have v: "round_value x = of_nat (unat sig) * 2 powi (rexp x - 52)"
    using assms(1,2) assms(4) [symmetric] by (simp add: round_value_def)
  have "unat sig' \<le> 2 ^ 53 \<and> of_nat (unat sig') * 2 powi (e' - 52) = round_value x"
  proof (cases "sig = push_bit 53 1")
    case True
    then have "sig' = 2 ^ 52" "e' = rexp x + 1" "unat sig = 2 ^ 53"
      using assms(6) unat_two_power [of 53] by (simp_all add: push_bit_eq_mult drop_bit_eq_div)
    then show ?thesis using unat_two_power [of 52] by (simp add: v two_powi_diff two_powi_add)
  next
    case False
    then show ?thesis using assms(5,6) v by simp
  qed
  then have "ldexp (of_u64 sig') (e' - 52) = round64 (round_value x)"
    by (simp only: of_u64_def round64_nat ldexp.simps)
  also have "\<dots> = round64 x"
    using round64_idem assms(1,3) round_value_nonneg [of x] by simp
  finally show ?thesis .
qed

lemma odd_low_bit: "q AND 1 \<noteq> 0 \<longleftrightarrow> odd (unat (q :: u64))"
  using bit_unsigned_iff [of q 0, where 'a = nat] by (simp add: and_one_eq bit_0 odd_iff_mod_2_eq_one)

lemma unat_Suc_small: "unat (q :: u64) < 2 ^ 53 \<Longrightarrow> unat (q + 1) = unat q + 1"
  by (simp add: unat_word_ariths)

lemma bitlen_le: "0 < n \<Longrightarrow> n < 2 ^ k \<Longrightarrow> bitlen (int n) \<le> int k"
  by (simp add: less_power_nat_iff_bitlen [symmetric])

lemma power_bound: "0 < n \<Longrightarrow> bitlen (int n) + int s \<le> int k \<Longrightarrow> n * 2 ^ s < 2 ^ k"
proof -
  assume n: "0 < n" and k: "bitlen (int n) + int s \<le> int k"
  have "n * 2 ^ s < 2 ^ nat (bitlen (int n)) * 2 ^ s"
    using bitlen_nat_bounds(2) [OF n] by simp
  also have "\<dots> \<le> 2 ^ k"
    using k bitlen_nat_bounds(3) [OF n] by (simp flip: power_add)
  finally show ?thesis .
qed

text \<open>Dividing, and rounding the quotient by comparing twice the remainder with the divisor.\<close>

lemma divide_and_round:
  assumes len: "length A = 5" "length B = 5" and B: "0 < wide_value B" "wide_value B < 2 ^ 319"
    and A: "wide_value A < wide_value B * 2 ^ 53" and div: "divide_wide A B = (q, R)"
  defines "c \<equiv> compare (shift_left R 1) B"
  defines "sig \<equiv> (if c > 0 \<or> c = 0 \<and> q AND 1 \<noteq> 0 then q + 1 else q)"
  shows "int (unat sig) = round_even (of_nat (wide_value A) / of_nat (wide_value B))" "unat sig \<le> 2 ^ 53"
proof -
  define a b where "a = wide_value A" and "b = wide_value B"
  have qR: "length R = 5" "wide_value R = a mod b" "unat q = a div b"
    using divide_wide_value [OF len B(1) _ div] A by (simp_all add: a_def b_def)
  have "wide_value R < b" "b < 2 ^ 319"
    using qR(2) B by (simp_all add: b_def)
  then have "wide_value R < 2 ^ 319" by (rule less_trans)
  then have "wide_value (shift_left R 1) = 2 * (a mod b)" "length (shift_left R 1) = 5"
    using qR(1,2) by (simp_all add: shift_left_words shift_left_value)
  then have c: "c > 0 \<longleftrightarrow> 2 * (a mod b) > b" "c = 0 \<longleftrightarrow> 2 * (a mod b) = b"
    using len(2) by (auto simp: c_def compare_value b_def)
  have q: "unat q < 2 ^ 53"
    using qR(3) A by (simp add: less_mult_imp_div_less mult.commute a_def b_def)
  have sig: "unat sig = (if 2 * (a mod b) > b \<or> 2 * (a mod b) = b \<and> odd (a div b) then a div b + 1 else a div b)"
    unfolding sig_def c odd_low_bit qR(3) [symmetric] using unat_Suc_small [OF q] by (auto split: if_splits)
  then show "int (unat sig) = round_even (of_nat (wide_value A) / of_nat (wide_value B))"
    using round_even_quotient [of b a] B(1) by (simp only: a_def b_def)
  show "unat sig \<le> 2 ^ 53"
    using sig q qR(3) by (auto split: if_splits)
qed

lemma reachable_exponent:
  assumes len: "length N = 5" "length D = 5"
    and N: "0 < wide_value N" "wide_value N < 2 ^ 224" and D: "0 < wide_value D" "wide_value D < 2 ^ 256"
  defines "x \<equiv> (of_nat (wide_value N) / of_nat (wide_value D) :: rat)"
  defines "E0 \<equiv> bit_length N - bit_length D"
  shows "rexp x = (if if E0 \<ge> 0 then compare N (shift_left D (nat E0)) \<ge> 0
      else compare (shift_left N (nat (- E0))) D \<ge> 0 then E0 else E0 - 1)"
proof -
  have E0: "E0 = bitlen (int (wide_value N)) - bitlen (int (wide_value D))"
    by (simp add: E0_def bit_length_value)
  have bl: "bitlen (int (wide_value N)) \<le> 224" "bitlen (int (wide_value D)) \<le> 256"
    using bitlen_le [of "wide_value N" 224] bitlen_le [of "wide_value D" 256] N D by simp_all
  note binade = binade_of_quotient [OF N(1) D(1), folded x_def E0]
  show ?thesis
  proof (cases "0 \<le> E0")
    case True
    have "wide_value D * 2 ^ nat E0 < 2 ^ 320" using True bl E0 by (intro power_bound D) simp
    then show ?thesis
      using True binade(1,2) len by (simp add: compare_value shift_left_words shift_left_value not_less)
  next
    case False
    have "wide_value N * 2 ^ nat (- E0) < 2 ^ 320" using False bl E0 by (intro power_bound N) simp
    then show ?thesis
      using False binade(1,3) len by (simp add: compare_value shift_left_words shift_left_value not_less)
  qed
qed

lemma exact_ratio_unfold:
  assumes E: "(if \<not> (if E0 \<ge> 0 then compare N (shift_left D (nat E0)) \<ge> 0
      else compare (shift_left N (nat (- E0))) D \<ge> 0) then E0 - 1 else E0) = E"
    and E0: "bit_length N - bit_length D = E0" and s: "52 - E = s"
    and A: "(if s \<ge> 0 then shift_left N (nat s) else N) = A"
    and B: "(if s < 0 then shift_left D (nat (- s)) else D) = B"
    and div: "divide_wide A B = (q, R)" and c: "compare (shift_left R 1) B = c"
    and sig: "(if c > 0 \<or> c = 0 \<and> q AND 1 \<noteq> 0 then q + 1 else q) = sig"
    and res: "(if sig = push_bit 53 1 then (drop_bit 1 sig, E + 1) else (sig, E)) = (sig', e')"
  shows "exact_ratio_to_double N D = ldexp (of_u64 sig') (e' - 52)"
proof -
  have 53: "nat (52 + 1) = 53" by simp
  show ?thesis
    unfolding exact_ratio_to_double_def Let_def kDoubleFractionBits_def kDoubleSignificandBits_def E0 E s A B div 53
      prod.case c sig res ..
qed

lemma exact_ratio_to_double_value:
  assumes len: "length N = 5" "length D = 5"
    and N: "0 < wide_value N" "wide_value N < 2 ^ 224" and D: "0 < wide_value D" "wide_value D < 2 ^ 256"
  shows "exact_ratio_to_double N D = round64 (of_nat (wide_value N) / of_nat (wide_value D))"
proof -
  define n d where "n = wide_value N" and "d = wide_value D"
  define x where "x = (of_nat n / of_nat d :: rat)"
  define s where "s = 52 - rexp x"
  define A where "A = (if s \<ge> 0 then shift_left N (nat s) else N)"
  define B where "B = (if s < 0 then shift_left D (nat (- s)) else D)"
  have pos: "0 < n" "0 < d" using N D by (simp_all add: n_def d_def)
  have bl: "bitlen (int n) \<le> 224" "bitlen (int d) \<le> 256" "1 \<le> bitlen (int n)" "1 \<le> bitlen (int d)"
    using bitlen_le [of n 224] bitlen_le [of d 256] bitlen_nat_bounds(3) pos N D by (simp_all add: n_def d_def)
  have E: "bitlen (int n) - bitlen (int d) - 1 \<le> rexp x" "rexp x \<le> bitlen (int n) - bitlen (int d)"
    using binade_of_quotient(1) [OF pos, folded x_def] by auto
  have A: "length A = 5" "wide_value A = (if 0 \<le> s then n * 2 ^ nat s else n)"
    using len power_bound [OF pos(1), of "nat s" 320] bl E
    by (auto simp: A_def shift_left_words shift_left_value n_def s_def)
  have B: "length B = 5" "wide_value B = (if s < 0 then d * 2 ^ nat (- s) else d)" "0 < wide_value B" "wide_value B < 2 ^ 319"
    using len power_bound [OF pos(2), of "nat (- s)" 319] power_bound [OF pos(2), of 0 319] bl E pos
    by (auto simp: B_def shift_left_words shift_left_value d_def s_def)
  have ratio: "of_nat (wide_value A) / of_nat (wide_value B) = x / 2 powi (rexp x - 52)" "wide_value A < wide_value B * 2 ^ 53"
    using scaled_quotient [OF pos] unfolding A(2) B(2) s_def x_def by simp_all
  obtain q R where div: "divide_wide A B = (q, R)" by fastforce
  define c where "c = compare (shift_left R 1) B"
  define sig where "sig = (if c > 0 \<or> c = 0 \<and> q AND 1 \<noteq> 0 then q + 1 else q)"
  have sig: "int (unat sig) = round_even (x / 2 powi (rexp x - 52))" "unat sig \<le> 2 ^ 53"
    using divide_and_round [OF A(1) B(1,3,4) ratio(2) div] unfolding ratio(1) c_def [symmetric] sig_def by simp_all
  obtain sig' e' where res: "(sig', e') = (if sig = push_bit 53 1 then (drop_bit 1 sig, rexp x + 1) else (sig, rexp x))"
    by (metis surj_pair)
  have x: "0 < x" using pos by (simp add: x_def)
  have ulp: "ulp_exp x = rexp x - 52" using E bl by (simp add: ulp_exp_def)
  have "round_value x \<le> of_int 1 * 2 powi (rexp x + 1)"
    using rexp_bounds(2) [of x] x ulp by (intro round_value_le) simp_all
  also have "\<dots> \<le> 2 powi 1023" using two_powi_mono [of "rexp x + 1" 1023] E bl by simp
  also have "\<dots> < 2 ^ 1024" by (simp add: power_int_def)
  finally have "ldexp (of_u64 sig') (e' - 52) = round64 x"
    using ldexp_round_value [OF x ulp _ sig res] by simp
  moreover have "exact_ratio_to_double N D = ldexp (of_u64 sig') (e' - 52)"
    by (rule exact_ratio_unfold [OF _ refl s_def [symmetric] A_def [symmetric] B_def [symmetric] div c_def [symmetric]
      sig_def [symmetric] res [symmetric]])
      (use reachable_exponent [OF len N D, folded n_def d_def, folded x_def] in argo)
  ultimately show ?thesis by (simp add: x_def n_def d_def)
qed

lemma difficulty_one_numerator_words: "difficulty_one_numerator = [0, 0, 0, push_bit 16 0xffff, 0]"
proof -
  have "replicate 5 (0 :: u64) = [0, 0, 0, 0, 0]" by (simp add: numeral_eq_Suc)
  moreover have "[0, 0, 0, 0, 0][3 := w] = [0, 0, 0, w, 0]" for w :: u64 by (simp add: numeral_3_eq_3)
  ultimately show ?thesis
    by (simp add: difficulty_one_numerator_def kWideWordCount_def kWordBits_def kDifficultyOneShift_def)
qed

lemma difficulty_one_numerator_value:
  "length difficulty_one_numerator = 5" "wide_value difficulty_one_numerator = 0xffff * 2 ^ 208"
  by (simp_all add: difficulty_one_numerator_words)

lemma wide_value_read:
  "length bs = 8 * n \<Longrightarrow> wide_value (map (\<lambda>word. read_le64 (drop (word * 8) bs)) [0..<n]) = le_value bs"
proof (induction n arbitrary: bs)
  case (Suc n)
  have bs: "bs = take 8 bs @ drop 8 bs" by simp
  have "map (\<lambda>word. read_le64 (drop (word * 8) bs)) [0..<Suc n]
      = read_le64 bs # map (\<lambda>word. read_le64 (drop (word * 8) (drop 8 bs))) [0..<n]"
    by (simp add: upt_conv_Cons map_Suc_upt [symmetric] add.commute del: upt_Suc)
  moreover have "unat (read_le64 bs) = le_value (take 8 bs)"
    using Suc.prems le_value_less [of "take 8 bs"] by (simp add: read_le64_value unat_of_nat take_bit_nat_eq_self)
  moreover have "le_value bs = le_value (take 8 bs) + 256 ^ 8 * le_value (drop 8 bs)"
    using Suc.prems by (subst bs, subst le_value_append) simp
  ultimately show ?case using Suc.IH [of "drop 8 bs"] Suc.prems by simp
qed simp

lemma target_integer_value: "length (target_integer t) = 5" "wide_value (target_integer t) = uint256_value t"
  using wide_value_read [of "le_bytes t" 4]
  by (simp_all add: target_integer_def kWordBytes_def wide_value_append uint256_value_def)

lemma difficulty_from_target_value:
  "difficulty_from_target t =
    (if uint256_value t = 0 then Infinity False else round64 (0xffff * 2 ^ 208 / of_nat (uint256_value t)))"
  using exact_ratio_to_double_value [OF difficulty_one_numerator_value(1) target_integer_value(1) [of t]]
    uint256_value_less [of t]
  by (simp add: difficulty_from_target_def is_zero_iff difficulty_one_numerator_value target_integer_value)

text \<open>C21: the difficulty of a target is the exact quotient of the difficulty-one target by it, rounded once to
  the nearest \<^verbatim>\<open>double\<close> (infinite for the zero target): no double rounding and no overflow of the helper
  integers. In particular a hash that meets a smaller target never has a smaller difficulty.\<close>

theorem difficulty_from_target_correct:
  "difficulty_from_target t =
     (if uint256_value t = 0 then Infinity False else round64 (0xffff * 2 ^ 208 / of_nat (uint256_value t)))
   \<and> (if meets_target t u then dleq (difficulty_from_target u) (difficulty_from_target t)
      else dleq (difficulty_from_target t) (difficulty_from_target u))"
proof -
  have anti: "dleq (difficulty_from_target b) (difficulty_from_target a)" if "uint256_value a \<le> uint256_value b" for a b
  proof (cases "uint256_value a = 0")
    case True
    then show ?thesis
      by (auto simp: difficulty_from_target_value round64_def abs_if split: if_splits)
  next
    case False
    then have "(0xffff * 2 ^ 208 / of_nat (uint256_value b) :: rat) \<le> 0xffff * 2 ^ 208 / of_nat (uint256_value a)"
      using that by (intro divide_left_mono) simp_all
    then show ?thesis
      using False that round64_mono by (simp add: difficulty_from_target_value)
  qed
  show ?thesis
    using anti [of t u] anti [of u t] difficulty_from_target_value [of t]
    by (auto simp: meets_target_def uint256_le_iff)
qed

section \<open>Compact targets\<close>

lemma le_value_update:
  "i < length bs \<Longrightarrow> bs ! i = 0 \<Longrightarrow> le_value (bs[i := b]) = le_value bs + 256 ^ i * unat b"
proof (induction bs arbitrary: i)
  case (Cons x bs)
  then show ?case by (cases i) (simp_all add: algebra_simps)
qed simp

lemma compact_bytes:
  fixes m :: u32
  defines "b0 \<equiv> ucast m :: u8" and "b1 \<equiv> ucast (drop_bit 8 m) :: u8" and "b2 \<equiv> ucast (drop_bit 16 m) :: u8"
  assumes "unat m < 2 ^ 24"
  shows "unat b0 + 256 * unat b1 + 65536 * unat b2 = unat m"
proof -
  have "unat b0 = unat m mod 256" "unat b1 = unat m div 256 mod 256" "unat b2 = unat m div 65536 mod 256"
    by (simp_all add: b0_def b1_def b2_def unsigned_ucast_eq take_bit_eq_mod unat_drop_bit_div)
  moreover have "unat m div 65536 < 256" using assms(4) by simp
  moreover have "unat m div 256 = unat m div 65536 * 256 + unat m div 256 mod 256"
    using div_mult_mod_eq [of "unat m div 256" 256] by (simp flip: div_mult2_eq)
  moreover have "unat m = unat m div 256 * 256 + unat m mod 256"
    by (rule div_mult_mod_eq [symmetric])
  moreover have "unat m div 65536 mod 256 = unat m div 65536"
    using calculation(4) by (rule mod_less)
  ultimately show ?thesis by linarith
qed

lemma compact_value:
  fixes b0 b1 b2 :: u8 and index :: nat
  defines "t0 \<equiv> replicate 32 (0 :: u8)"
  defines "t1 \<equiv> if index \<le> 31 then t0[index := b0] else t0"
  defines "t2 \<equiv> if index + 1 \<le> 31 then t1[index + 1 := b1] else t1"
  defines "t3 \<equiv> if index + 2 \<le> 31 then t2[index + 2 := b2] else t2"
  shows "length t3 = 32" "le_value t3 = ((unat b0 + 256 * unat b1 + 65536 * unat b2) * 256 ^ index) mod 2 ^ 256"
proof -
  have len: "length t0 = 32" "length t1 = 32" "length t2 = 32" by (simp_all add: t0_def t1_def t2_def)
  then show "length t3 = 32" by (simp add: t3_def)
  have v1: "le_value t1 = (if index \<le> 31 then 256 ^ index * unat b0 else 0)"
    by (simp add: t1_def t0_def le_value_update)
  have z1: "t1 ! i = 0" if "i < 32" "i \<noteq> index" for i
    using that by (simp add: t1_def t0_def nth_list_update)
  have v2: "le_value t2 = le_value t1 + (if index + 1 \<le> 31 then 256 ^ (index + 1) * unat b1 else 0)"
    using z1 [of "index + 1"] len by (simp add: t2_def le_value_update)
  have z2: "t2 ! i = 0" if "i < 32" "i \<noteq> index" "i \<noteq> index + 1" for i
    using that z1 len by (simp add: t2_def nth_list_update)
  have v3: "le_value t3 = le_value t2 + (if index + 2 \<le> 31 then 256 ^ (index + 2) * unat b2 else 0)"
    using z2 [of "index + 2"] len by (simp add: t3_def le_value_update)
  let ?S = "256 ^ index * unat b0 + 256 ^ (index + 1) * unat b1 + 256 ^ (index + 2) * unat b2"
  have S: "(unat b0 + 256 * unat b1 + 65536 * unat b2) * 256 ^ index = ?S"
    by (simp add: algebra_simps power_add)
  have drop: "(x + 256 ^ k * y) mod 2 ^ 256 = x mod 2 ^ 256" if "32 \<le> k" for x k y :: nat
  proof -
    have "(256 :: nat) ^ k = 256 ^ 32 * 256 ^ (k - 32)" using that by (metis le_add_diff_inverse power_add)
    moreover have "(256 :: nat) ^ 32 = 2 ^ 256" by simp
    ultimately have "(256 :: nat) ^ k = 2 ^ 256 * 256 ^ (k - 32)" by (simp only:)
    then show ?thesis by (metis mod_mult_self2 mult.assoc)
  qed
  have "le_value t3 = le_value t3 mod 2 ^ 256"
    using le_value_less [of t3] \<open>length t3 = 32\<close> by simp
  also have "\<dots> = ?S mod 2 ^ 256"
    using drop [of "index + 2"] drop [of "index + 1"] drop [of index _ _] drop [of index 0]
    by (cases "index \<le> 31"; cases "index + 1 \<le> 31"; cases "index + 2 \<le> 31") (simp_all add: v3 v2 v1)
  finally show "le_value t3 = ((unat b0 + 256 * unat b1 + 65536 * unat b2) * 256 ^ index) mod 2 ^ 256"
    unfolding S .
qed

text \<open>A compact target denotes its 23-bit mantissa shifted by its exponent in bytes; bytes shifted below
  the unit are dropped, and so are bytes above the 256 bits.\<close>

theorem target_from_compact_correct:
  "uint256_value (target_from_compact nbits) =
    (let e = unat nbits div 2 ^ 24; m = unat nbits mod 2 ^ 23
     in if e \<le> 3 then m div 256 ^ (3 - e) else m * 256 ^ (e - 3) mod 2 ^ 256)"
proof -
  define e where "e = drop_bit 24 nbits"
  define m where "m = nbits AND 0x007fffff"
  have m: "unat m = unat nbits mod 2 ^ 23"
    using unat_and_mask [of nbits 23] by (simp add: m_def mask_eq_exp_minus_1)
  have e: "unat e = unat nbits div 2 ^ 24"
    by (simp add: e_def unat_drop_bit_div)
  have le3: "e \<le> 3 \<longleftrightarrow> unat e \<le> 3" by (simp add: word_le_nat_alt)
  show ?thesis
  proof (cases "unat e \<le> 3")
    case True
    define m' where "m' = drop_bit (8 * (3 - unat e)) m"
    have m': "unat m' = unat m div 256 ^ (3 - unat e)"
      by (simp add: m'_def unat_drop_bit_div power_mult)
    then have "unat m' < 2 ^ 24" using m by (simp add: le_less_trans [OF div_le_dividend])
    moreover have "target_from_compact nbits = uint256_of_bytes ((replicate 32 (0 :: u8))
        [0 := ucast m', 0 + 1 := ucast (drop_bit 8 m'), 0 + 2 := ucast (drop_bit 16 m')])"
      using True le3 by (simp add: target_from_compact_def Let_def numeral_2_eq_2 flip: e_def m_def m'_def)
    ultimately show ?thesis
      using compact_value [of 0 "ucast m'" "ucast (drop_bit 8 m')" "ucast (drop_bit 16 m')"] compact_bytes [of m'] True
      by (simp add: uint256_value_of_bytes m' m e)
  next
    case False
    define i where "i = unat e - 3"
    define t0 where "t0 = replicate 32 (0 :: u8)"
    define t1 where "t1 = (if i \<le> 31 then t0[i := ucast m] else t0)"
    define t2 where "t2 = (if i + 1 \<le> 31 then t1[i + 1 := ucast (drop_bit 8 m)] else t1)"
    define t3 where "t3 = (if i + 2 \<le> 31 then t2[i + 2 := ucast (drop_bit 16 m)] else t2)"
    have "target_from_compact nbits = uint256_of_bytes t3"
      unfolding target_from_compact_def Let_def e_def [symmetric] m_def [symmetric] t3_def t2_def t1_def t0_def i_def
      using False le3 by (simp only: if_False)
    moreover have "unat m < 2 ^ 24" using m by simp
    moreover note compact_value [of i "ucast m" "ucast (drop_bit 8 m)" "ucast (drop_bit 16 m)",
      folded t0_def, folded t1_def, folded t2_def, folded t3_def]
    ultimately show ?thesis
      using compact_bytes [of m] False by (simp add: uint256_value_of_bytes i_def m e)
  qed
qed

section \<open>Target of a difficulty\<close>

lemma representable_half: "representable (1 / 2)"
  by (rule representableI [of _ 1 "- 1"]) (simp_all add: power_int_def)

lemma to_u64_round64:
  assumes "0 \<le> x" "x < 2 ^ 64" "representable x \<or> x \<le> 1 / 2"
  shows "to_u64 (round64 x) = Some (word_of_int \<lfloor>x\<rfloor>)"
proof (cases "representable x")
  case True
  have "\<lfloor>x\<rfloor> < 2 ^ 64" using assms(2) by (simp add: floor_less_iff)
  then show ?thesis using True assms(1) by (simp add: round64_representable rat_trunc_def)
next
  case False
  then have x: "x \<le> 1 / 2" using assms(3) by simp
  then have "0 \<le> round_value x" "round_value x \<le> 1 / 2"
    using round_value_nonneg [OF assms(1)] round_value_mono [OF x] representable_round_value [OF representable_half] by simp_all
  moreover have "\<lfloor>y\<rfloor> = 0" if "0 \<le> y" "y \<le> 1 / 2" for y :: rat
    using that by (intro floor_unique) simp_all
  ultimately show ?thesis
    using assms(1) x by (simp add: round64_def rat_trunc_def)
qed

lemma of_u64_word_of_int: "0 \<le> w \<Longrightarrow> w < 2 ^ 64 \<Longrightarrow> of_u64 (word_of_int w) = round64 (of_int w)"
proof -
  assume "0 \<le> w" "w < 2 ^ 64"
  then have "int (unat (word_of_int w :: u64)) = w"
    by (simp add: unsigned_of_int take_bit_int_eq_self)
  then show ?thesis unfolding of_u64_def by (metis of_int_of_nat_eq)
qed

lemma split_representable:
  assumes m: "0 \<le> m" "m < 2 ^ 53" "- 1074 \<le> e" "e \<le> 971" and k: "k \<le> 192"
  defines "v \<equiv> of_int m * 2 powi e :: rat"
  defines "w \<equiv> \<lfloor>v / 2 ^ k\<rfloor>"
  shows "representable (of_int w) \<and> representable (of_int w * 2 ^ k) \<and> representable (v - of_int w * 2 ^ k)"
proof (cases "int k \<le> e")
  case True
  have vk: "v / 2 ^ k = of_int m * 2 powi (e - int k)"
    by (simp add: v_def two_powi_diff)
  also have "\<dots> = of_int (m * 2 ^ nat (e - int k))"
    using True by (simp add: two_powi_nat)
  finally have w: "of_int w = v / 2 ^ k" by (simp add: w_def)
  then have "v - of_int w * 2 ^ k = 0" "of_int w * 2 ^ k = v" by simp_all
  moreover have "representable v" "representable (of_int w)"
    using m True unfolding w vk unfolding v_def by (auto intro!: representableI)
  ultimately show ?thesis by simp
next
  case False
  define j where "j = nat (int k - e)"
  have "v / 2 ^ k = of_int m * 2 powi (e - int k)"
    by (simp add: v_def two_powi_diff)
  also have "\<dots> = of_int m / of_int (2 ^ j)"
    using False by (simp add: j_def power_int_def field_simps)
  finally have w: "w = m div 2 ^ j" by (simp add: w_def floor_divide_of_int_eq del: of_int_power)
  have "0 \<le> w" "w \<le> m"
    using m(1) zdiv_mono2 [of m 1 "2 ^ j"] unfolding w by (simp_all add: pos_imp_zdiv_nonneg_iff)
  moreover have "m mod 2 ^ j \<le> m" "0 \<le> m mod 2 ^ j" using m(1) by (simp_all add: zmod_le_nonneg_dividend)
  moreover have "v - of_int w * 2 ^ k = of_int (m mod 2 ^ j) * 2 powi e"
  proof -
    have "(2 :: rat) ^ k = 2 ^ j * 2 powi e"
      using False two_powi_add [of "int j" e] by (simp add: j_def two_powi_nat)
    moreover have "(of_int m :: rat) = of_int w * 2 ^ j + of_int (m mod 2 ^ j)"
      by (metis w div_mult_mod_eq of_int_add of_int_mult of_int_numeral of_int_power)
    ultimately show ?thesis by (simp add: v_def algebra_simps)
  qed
  ultimately show ?thesis
    using m k by (auto intro: representableI [of _ w 0] representableI [of _ w "int k"] representableI [of _ "m mod 2 ^ j" e])
qed

text \<open>One word of the target: the integer part of the scaled rest, and the rest it leaves, are exact.\<close>

lemma word_step:
  assumes rep: "representable v" and v: "0 \<le> v" "v < 2 ^ (k + 64)" and k: "k \<le> 192"
  defines "w \<equiv> \<lfloor>v / 2 ^ k\<rfloor>"
  shows "to_u64 (ddiv (Finite v) (Finite (2 ^ k))) = Some (word_of_int w)"
    and "dsub (Finite v) (dmul (of_u64 (word_of_int w)) (Finite (2 ^ k))) = Finite (v - of_int w * 2 ^ k)"
    and "representable (v - of_int w * 2 ^ k)" "0 \<le> v - of_int w * 2 ^ k" "v - of_int w * 2 ^ k < 2 ^ k"
    and "0 \<le> w" "w < 2 ^ 64"
proof -
  obtain m e where m: "v = of_int m * 2 powi e" "\<bar>m\<bar> < 2 ^ 53" "- 1074 \<le> e" "e \<le> 971"
    using rep by (auto simp: representable_def)
  have "of_int 0 * 2 powi e \<le> (of_int m * 2 powi e :: rat)" using v(1) m(1) by simp
  then have m0: "0 \<le> m" by (simp only: mult_le_cancel_right_pos two_powi_pos of_int_le_iff)
  have x: "0 \<le> v / 2 ^ k" "v / 2 ^ k < 2 ^ 64"
    using v by (simp_all add: power_add field_simps)
  show w: "0 \<le> w" "w < 2 ^ 64"
    using x by (simp_all add: w_def floor_less_iff)
  have "of_int w \<le> v / 2 ^ k" "v / 2 ^ k < of_int w + 1"
    using floor_correct [of "v / 2 ^ k"] by (simp_all add: w_def)
  then show "0 \<le> v - of_int w * 2 ^ k" "v - of_int w * 2 ^ k < 2 ^ k"
    by (simp_all add: pos_le_divide_eq pos_divide_less_eq algebra_simps)
  have xk: "v / 2 ^ k = of_int m * 2 powi (e - int k)"
    by (simp add: m(1) two_powi_diff)
  have "representable (v / 2 ^ k) \<or> v / 2 ^ k \<le> 1 / 2"
  proof (cases "- 1074 \<le> e - int k")
    case True
    then show ?thesis using m xk by (intro disjI1 representableI [of _ m "e - int k"]) auto
  next
    case False
    have "v / 2 ^ k \<le> of_int (2 ^ 53) * 2 powi (- 1074)"
      unfolding xk using False m(2) by (intro mult_mono two_powi_mono) (simp_all only: of_int_le_iff, simp_all add: less_imp_le)
    also have "\<dots> \<le> 1 / 2" by (simp add: power_int_def field_simps)
    finally show ?thesis ..
  qed
  then show "to_u64 (ddiv (Finite v) (Finite (2 ^ k))) = Some (word_of_int w)"
    using to_u64_round64 [OF x] by (simp add: w_def)
  have "representable (of_int w) \<and> representable (of_int w * 2 ^ k) \<and> representable (v - of_int w * 2 ^ k)"
    using split_representable [OF m0 _ m(3,4) k] m(1,2) by (simp add: w_def)
  then show "representable (v - of_int w * 2 ^ k)"
    and "dsub (Finite v) (dmul (of_u64 (word_of_int w)) (Finite (2 ^ k))) = Finite (v - of_int w * 2 ^ k)"
    using w by (simp_all add: of_u64_word_of_int round64_representable dsub_def)
qed

lemma difficulty_constants:
  "kDifficultyOneTarget = Finite (0xffff * 2 ^ 208)" "kTwoTo64 = Finite (2 ^ 64)" "kTwoTo128 = Finite (2 ^ 128)"
  "kTwoTo192 = Finite (2 ^ 192)"
proof -
  have "representable (0xffff * 2 ^ 208)" by (rule representableI [of _ "0xffff" 208]) (simp_all add: power_int_def)
  then show "kDifficultyOneTarget = Finite (0xffff * 2 ^ 208)"
    using round64_representable by (fastforce simp: kDifficultyOneTarget_def)
  have r: "representable (2 ^ k)" if "k \<le> 192" for k
    using that by (intro representableI [of _ 1 "int k"]) simp_all
  show "kTwoTo64 = Finite (2 ^ 64)" "kTwoTo128 = Finite (2 ^ 128)" "kTwoTo192 = Finite (2 ^ 192)"
    using round64_representable [OF r [of 64]] round64_representable [OF r [of 128]] round64_representable [OF r [of 192]]
    by (simp_all add: kTwoTo64_def kTwoTo128_def kTwoTo192_def)
qed

lemma le_value_words:
  "le_value (write_le64 a @ write_le64 b @ write_le64 c @ write_le64 d) = wide_value [a, b, c, d]"
proof -
  have "le_value (write_le64 w) = unat w" for w
    using unat_word64_less [of w] by (simp add: write_le64_encode le_value_encode)
  then show ?thesis by (simp add: le_value_append)
qed

lemma target_words:
  assumes rep: "representable v" and v: "0 \<le> v" "v < 2 ^ 256"
  defines "w3 \<equiv> \<lfloor>v / 2 ^ 192\<rfloor>" defines "r3 \<equiv> v - of_int w3 * 2 ^ 192"
  defines "w2 \<equiv> \<lfloor>r3 / 2 ^ 128\<rfloor>" defines "r2 \<equiv> r3 - of_int w2 * 2 ^ 128"
  defines "w1 \<equiv> \<lfloor>r2 / 2 ^ 64\<rfloor>" defines "r1 \<equiv> r2 - of_int w1 * 2 ^ 64"
  defines "w0 \<equiv> \<lfloor>r1\<rfloor>"
  shows "to_u64 (ddiv (Finite v) kTwoTo192) = Some (word_of_int w3)"
    "dsub (Finite v) (dmul (of_u64 (word_of_int w3)) kTwoTo192) = Finite r3"
    "to_u64 (ddiv (Finite r3) kTwoTo128) = Some (word_of_int w2)"
    "dsub (Finite r3) (dmul (of_u64 (word_of_int w2)) kTwoTo128) = Finite r2"
    "to_u64 (ddiv (Finite r2) kTwoTo64) = Some (word_of_int w1)"
    "dsub (Finite r2) (dmul (of_u64 (word_of_int w1)) kTwoTo64) = Finite r1"
    "to_u64 (Finite r1) = Some (word_of_int w0)"
    "int (wide_value [word_of_int w0, word_of_int w1, word_of_int w2, word_of_int w3]) = \<lfloor>v\<rfloor>"
proof -
  have s3: "to_u64 (ddiv (Finite v) (Finite (2 ^ 192))) = Some (word_of_int w3)"
      "dsub (Finite v) (dmul (of_u64 (word_of_int w3)) (Finite (2 ^ 192))) = Finite r3"
      "representable r3" "0 \<le> r3" "r3 < 2 ^ 192" "0 \<le> w3" "w3 < 2 ^ 64"
    using word_step [of v 192] rep v unfolding w3_def r3_def by simp_all
  have s2: "to_u64 (ddiv (Finite r3) (Finite (2 ^ 128))) = Some (word_of_int w2)"
      "dsub (Finite r3) (dmul (of_u64 (word_of_int w2)) (Finite (2 ^ 128))) = Finite r2"
      "representable r2" "0 \<le> r2" "r2 < 2 ^ 128" "0 \<le> w2" "w2 < 2 ^ 64"
    using word_step [of r3 128] s3(3-5) unfolding w2_def r2_def by simp_all
  have s1: "to_u64 (ddiv (Finite r2) (Finite (2 ^ 64))) = Some (word_of_int w1)"
      "dsub (Finite r2) (dmul (of_u64 (word_of_int w1)) (Finite (2 ^ 64))) = Finite r1"
      "representable r1" "0 \<le> r1" "r1 < 2 ^ 64" "0 \<le> w1" "w1 < 2 ^ 64"
    using word_step [of r2 64] s2(3-5) unfolding w1_def r1_def by simp_all
  have s0: "to_u64 (Finite r1) = Some (word_of_int w0)" "0 \<le> w0" "w0 < 2 ^ 64"
    using to_u64_round64 [OF s1(4,5)] s1(3-5) unfolding w0_def by (simp_all add: round64_representable floor_less_iff)
  show "to_u64 (ddiv (Finite v) kTwoTo192) = Some (word_of_int w3)"
    "dsub (Finite v) (dmul (of_u64 (word_of_int w3)) kTwoTo192) = Finite r3"
    "to_u64 (ddiv (Finite r3) kTwoTo128) = Some (word_of_int w2)"
    "dsub (Finite r3) (dmul (of_u64 (word_of_int w2)) kTwoTo128) = Finite r2"
    "to_u64 (ddiv (Finite r2) kTwoTo64) = Some (word_of_int w1)"
    "dsub (Finite r2) (dmul (of_u64 (word_of_int w1)) kTwoTo64) = Finite r1"
    "to_u64 (Finite r1) = Some (word_of_int w0)"
    unfolding difficulty_constants by (fact s3 s2 s1 s0)+
  have "v = of_int (w1 * 2 ^ 64 + w2 * 2 ^ 128 + w3 * 2 ^ 192) + r1"
    by (simp add: r1_def r2_def r3_def)
  then have "\<lfloor>v\<rfloor> = (w1 * 2 ^ 64 + w2 * 2 ^ 128 + w3 * 2 ^ 192) + w0"
    by (simp only: w0_def int_add_floor [symmetric])
  moreover have "int (unat (word_of_int w :: u64)) = w" if "0 \<le> w" "w < 2 ^ 64" for w
    using that by (simp add: unsigned_of_int take_bit_int_eq_self)
  ultimately show "int (wide_value [word_of_int w0, word_of_int w1, word_of_int w2, word_of_int w3]) = \<lfloor>v\<rfloor>"
    using s0(2,3) s1(6,7) s2(6,7) s3(6,7) by (simp del: of_nat_unat)
qed

lemma target_words_exist:
  assumes "representable v" "0 \<le> v" "v < 2 ^ 256"
  shows "\<exists>w3 r3 w2 r2 w1 r1 w0. to_u64 (ddiv (Finite v) kTwoTo192) = Some w3
    \<and> dsub (Finite v) (dmul (of_u64 w3) kTwoTo192) = Finite r3
    \<and> to_u64 (ddiv (Finite r3) kTwoTo128) = Some w2
    \<and> dsub (Finite r3) (dmul (of_u64 w2) kTwoTo128) = Finite r2
    \<and> to_u64 (ddiv (Finite r2) kTwoTo64) = Some w1
    \<and> dsub (Finite r2) (dmul (of_u64 w1) kTwoTo64) = Finite r1
    \<and> to_u64 (Finite r1) = Some w0
    \<and> int (wide_value [w0, w1, w2, w3]) = \<lfloor>v\<rfloor>"
  using target_words [OF assms] by (intro exI conjI)

lemma minimum_difficulty: "\<exists>c. kMinimumRepresentableDifficulty = Finite c \<and> 1 / 2 ^ 32 \<le> c"
proof -
  have r: "representable (1 / 2 ^ 32)" "representable 1"
    by (rule representableI [of _ 1 "- 32"], simp_all add: power_int_def power_one_over)
      (rule representableI [of _ 1 0], simp_all)
  have "1 / 2 ^ 32 \<le> round_value (24 / 10 ^ 11)" "round_value (24 / 10 ^ 11) \<le> 1"
    using round_value_mono [of "1 / 2 ^ 32" "24 / 10 ^ 11"] round_value_mono [of "24 / 10 ^ 11" 1]
      representable_round_value [OF r(1)] representable_round_value [OF r(2)] by simp_all
  then show ?thesis
    unfolding kMinimumRepresentableDifficulty_def round64_def by (simp add: abs_if)
qed

lemma quotient_in_range:
  assumes "dless kMinimumRepresentableDifficulty difficulty"
  shows "\<exists>v. ddiv kDifficultyOneTarget difficulty = Finite v \<and> representable v \<and> 0 \<le> v \<and> v < 2 ^ 256"
proof (cases difficulty)
  case (Finite y)
  obtain c where c: "kMinimumRepresentableDifficulty = Finite c" "1 / 2 ^ 32 \<le> c"
    using minimum_difficulty by blast
  then have y: "1 / 2 ^ 32 \<le> y" using assms Finite by (simp only: c(1) dless.simps)
  have r: "representable (0xffff * 2 ^ 240)" by (rule representableI [of _ "0xffff" 240]) (simp_all add: power_int_def)
  define x where "x = 0xffff * 2 ^ 208 / y"
  have "x \<le> 0xffff * 2 ^ 240"
    using y by (simp add: x_def divide_le_eq)
  then have "0 \<le> round_value x" "round_value x \<le> 0xffff * 2 ^ 240"
    using round_value_nonneg [of x] y round_value_mono [of x "0xffff * 2 ^ 240"] representable_round_value [OF r]
    by (simp_all add: x_def)
  moreover have "(0xffff * 2 ^ 240 :: rat) < 2 ^ 256" "(2 :: rat) ^ 256 < 2 ^ 1024" by simp_all
  ultimately have b: "0 \<le> round_value x" "round_value x < 2 ^ 256" "\<bar>round_value x\<bar> < 2 ^ 1024" by linarith+
  have "ddiv kDifficultyOneTarget difficulty = Finite (round_value x)"
    using Finite y b(3) by (simp add: difficulty_constants x_def round64_def)
  then show ?thesis using b round_value_representable by blast
next
  case (Infinity s)
  then show ?thesis using assms by (simp add: difficulty_constants)
next
  case NaN
  moreover have "\<not> dless k NaN" for k by (cases k) simp_all
  ultimately show ?thesis using assms by simp
qed

lemma target_from_difficulty_value:
  "\<exists>t. target_from_difficulty difficulty = Some t \<and>
    (if dless kMinimumRepresentableDifficulty difficulty
     then \<exists>v. ddiv kDifficultyOneTarget difficulty = Finite v \<and> int (uint256_value t) = \<lfloor>v\<rfloor>
     else uint256_value t = 2 ^ 256 - 1)"
proof (cases "dless kMinimumRepresentableDifficulty difficulty")
  case True
  obtain v where v: "ddiv kDifficultyOneTarget difficulty = Finite v" "representable v" "0 \<le> v" "v < 2 ^ 256"
    using quotient_in_range [OF True] by blast
  obtain w3 r3 w2 r2 w1 r1 w0 where w: "to_u64 (ddiv (Finite v) kTwoTo192) = Some w3"
    "dsub (Finite v) (dmul (of_u64 w3) kTwoTo192) = Finite r3"
    "to_u64 (ddiv (Finite r3) kTwoTo128) = Some w2" "dsub (Finite r3) (dmul (of_u64 w2) kTwoTo128) = Finite r2"
    "to_u64 (ddiv (Finite r2) kTwoTo64) = Some w1" "dsub (Finite r2) (dmul (of_u64 w1) kTwoTo64) = Finite r1"
    "to_u64 (Finite r1) = Some w0" "int (wide_value [w0, w1, w2, w3]) = \<lfloor>v\<rfloor>"
    using target_words_exist [OF v(2-4)] by blast
  have "target_from_difficulty difficulty
      = Some (uint256_of_bytes (write_le64 w0 @ write_le64 w1 @ write_le64 w2 @ write_le64 w3))"
    unfolding target_from_difficulty_def Let_def v(1) w(1-7) option.case using True by simp
  then show ?thesis
    using True v(1) w(8) by (simp add: uint256_value_of_bytes le_value_words del: wide_value.simps)
next
  case False
  have "le_value (replicate n 0xff) + 1 = 256 ^ n" for n
  proof (induction n)
    case (Suc n)
    show ?case unfolding power_Suc Suc.IH [symmetric] by simp
  qed simp
  from this [of 32] show ?thesis
    using False by (simp add: target_from_difficulty_def uint256_value_of_bytes)
qed

lemma target_from_difficulty_defined: "target_from_difficulty difficulty \<noteq> None"
  using target_from_difficulty_value [of difficulty] by auto

text \<open>C22: the target of a difficulty is always computed (no undefined conversion): below the smallest
  representable difficulty, and for a difficulty that is not a number, it is the largest target; otherwise
  it is the integer part of the quotient of the difficulty-one target by the difficulty, rounded once.\<close>

theorem target_from_difficulty_correct:
  "\<exists>t. target_from_difficulty difficulty = Some t \<and>
    (if dless kMinimumRepresentableDifficulty difficulty
     then \<exists>v. ddiv kDifficultyOneTarget difficulty = Finite v \<and> int (uint256_value t) = \<lfloor>v\<rfloor>
     else uint256_value t = 2 ^ 256 - 1)"
  by (rule target_from_difficulty_value)

end
