(* ===== verification/Json.thy ===== *)
theory Json
  imports Float64
begin

text \<open>
  The dynamic JSON value of the sources (\<^verbatim>\<open>glz::generic\<close>: null, number, string, boolean, array or object) and
  the observers they use on it. Parsing text to a value and printing a value are functions of the Glaze
  library and are parameters wherever a component uses them. An object is its list of members in key order,
  as the ordered map behind it iterates.
\<close>

datatype json =
    JNull
  | JNumber double
  | JString string
  | JBool bool
  | JArray "json list"
  | JObject "(string \<times> json) list"

fun is_object :: "json \<Rightarrow> bool" where
  "is_object (JObject _) \<longleftrightarrow> True"
| "is_object _ \<longleftrightarrow> False"

fun json_get :: "json \<Rightarrow> string \<Rightarrow> json option" where
  "json_get (JObject members) key = map_of members key"
| "json_get _ key = None"

definition json_contains :: "json \<Rightarrow> string \<Rightarrow> bool" where
  "json_contains j key \<longleftrightarrow> json_get j key \<noteq> None"

text \<open>\<^verbatim>\<open>std::to_string\<close> of an unsigned integer and the \<^verbatim>\<open>{:08x}\<close> format of a 32-bit one.\<close>

function to_decimal_loop :: "nat \<Rightarrow> string \<Rightarrow> string" where
  "to_decimal_loop n acc =
    (let acc = char_of (48 + n mod 10) # acc in if n < 10 then acc else to_decimal_loop (n div 10) acc)"
  by pat_completeness auto
termination by (relation "measure fst") auto

declare to_decimal_loop.simps [simp del]

definition to_decimal :: "nat \<Rightarrow> string" where
  "to_decimal n = to_decimal_loop n []"

definition is_digit :: "char \<Rightarrow> bool" where
  "is_digit c \<longleftrightarrow> (of_char c :: nat) \<in> {48..57}"

fun decimal_value :: "nat \<Rightarrow> string \<Rightarrow> nat" where
  "decimal_value v [] = v"
| "decimal_value v (c # cs) = decimal_value (10 * v + (of_char c - 48)) cs"

lemma decimal_value_append: "decimal_value v (xs @ ys) = decimal_value (decimal_value v xs) ys"
  by (induction xs arbitrary: v) auto

lemma of_char_digit [simp]: "n < 208 \<Longrightarrow> (of_char (char_of (48 + n :: nat)) :: nat) = 48 + n"
  by (simp add: of_char_of)

lemma to_decimal_loop_correct:
  "\<exists>ds. to_decimal_loop n acc = ds @ acc \<and> ds \<noteq> [] \<and> list_all is_digit ds \<and> decimal_value 0 ds = n"
proof (induction n acc rule: to_decimal_loop.induct)
  case (1 n acc)
  let ?c = "char_of (48 + n mod 10) :: char"
  have c: "(of_char ?c :: nat) = 48 + n mod 10" by (rule of_char_digit) simp
  have d: "is_digit ?c" unfolding is_digit_def c by (simp add: less_Suc_eq_le [symmetric])
  show ?case
  proof (cases "n < 10")
    case True
    then show ?thesis
      using c d True by (intro exI [of _ "[?c]"]) (simp add: to_decimal_loop.simps [of n])
  next
    case False
    then obtain ds where "to_decimal_loop (n div 10) (?c # acc) = ds @ ?c # acc" "list_all is_digit ds"
      "decimal_value 0 ds = n div 10"
      using 1 by auto
    then show ?thesis
      using c False by (intro exI [of _ "ds @ [?c]"]) (simp add: to_decimal_loop.simps [of n] d decimal_value_append)
  qed
qed

lemma to_decimal_correct:
  "to_decimal n \<noteq> []" "list_all is_digit (to_decimal n)" "decimal_value 0 (to_decimal n) = n"
  using to_decimal_loop_correct [of n "[]"] by (auto simp: to_decimal_def)

lemma to_decimal_inject: "to_decimal m = to_decimal n \<longleftrightarrow> m = n"
  using to_decimal_correct(3) by metis

end
