(* ===== verification/Block_Template.thy ===== *)
theory Block_Template
  imports Coinbase Hex Json Merkle
begin

text \<open>
  \<^verbatim>\<open>src/src/bitcoin/block_template.cpp\<close>: a block template from a \<^verbatim>\<open>getblocktemplate\<close> reply. Reading the reply text
  into the typed envelope and printing an error value are functions of the JSON library and are parameters of
  \<open>from_gbt\<close>; the checks on the fields, the transaction list and the merkle branch are modelled in full.
\<close>

record BlockTemplate =
  bt_height :: int
  bt_version :: u32
  bt_curtime :: u32
  bt_bits :: u32
  bt_bits_hex :: string
  bt_coinbase_value :: u64
  bt_previousblockhash :: string
  bt_coinbase_script_sig_prefix :: bytes
  bt_coinbase_version :: "u32 option"
  bt_coinbase_sequence :: u32
  bt_coinbase_lock_time :: u32
  bt_coinbase_witness :: "bytes option"
  bt_coinbase_required_outputs :: "CoinbaseOutput list"
  bt_txn_count :: u32
  bt_txn_data :: bytes
  bt_merkle_branch_internal :: "Hash256 list"

definition BlockTemplate_init :: BlockTemplate where
  "BlockTemplate_init =
    \<lparr>bt_height = 0, bt_version = 0, bt_curtime = 0, bt_bits = 0, bt_bits_hex = [], bt_coinbase_value = 0,
     bt_previousblockhash = [], bt_coinbase_script_sig_prefix = [], bt_coinbase_version = None,
     bt_coinbase_sequence = 0xffffffff, bt_coinbase_lock_time = 0, bt_coinbase_witness = None,
     bt_coinbase_required_outputs = [], bt_txn_count = 0, bt_txn_data = [], bt_merkle_branch_internal = []\<rparr>"

record GbtTransaction =
  tx_data :: "string option"
  tx_txid :: "string option"
  tx_hash :: "string option"

record GbtReply =
  gbt_height :: "int option"
  gbt_version :: "int option"
  gbt_curtime :: "int option"
  gbt_bits :: "string option"
  gbt_coinbasevalue :: "u64 option"
  gbt_previousblockhash :: "string option"
  gbt_rules :: "json list option"
  gbt_default_witness_commitment :: "string option"
  gbt_transactions :: "GbtTransaction list option"

record GbtEnvelope =
  env_result :: "GbtReply option"
  env_error :: json

definition parse_txid :: "bool \<Rightarrow> string option \<Rightarrow> string option \<Rightarrow> Hash256 result" where
  "parse_txid segwit_aware txid hash =
    bindE
      (case txid of
         Some id_hex \<Rightarrow> Inr id_hex
       | None \<Rightarrow>
           if segwit_aware then
             Inl (Invalid_argument ''segwit template transaction missing txid (refusing wtxid fallback)'')
           else case hash of
             Some id_hex \<Rightarrow> Inr id_hex
           | None \<Rightarrow> Inl (Invalid_argument ''template transaction has neither txid nor hash''))
      (\<lambda>id_hex. case from_hex_into zero_hash id_hex of
         (txid_internal, ok) \<Rightarrow>
           if \<not> ok then Inl (Invalid_argument ''template txid is not a 32-byte hex string'')
           else Inr (rev txid_internal))"

definition check_mandatory_rule :: "string \<Rightarrow> unit result" where
  "check_mandatory_rule name =
    (if name \<noteq> [] \<and> hd name = CHR ''!'' \<and> name \<noteq> ''!segwit''
     then Inl (Invalid_argument (''unsupported mandatory template rule: '' @ name)) else Inr ())"

definition require_header_u32 :: "int \<Rightarrow> string \<Rightarrow> u32 result" where
  "require_header_u32 value field =
    (if value < 0 \<or> value > 0xffffffff
     then Inl (Invalid_argument (''getblocktemplate '' @ field @ '' out of uint32 range''))
     else Inr (word_of_int value))"

text \<open>The number of an error object becomes an integer by truncation, undefined out of the 64-bit range.\<close>

definition rpc_error_code :: "json \<Rightarrow> int option result" where
  "rpc_error_code error =
    (case json_get error ''code'' of
       Some (JNumber code) \<Rightarrow>
         (case to_i64 code of Some n \<Rightarrow> Inr (Some n) | None \<Rightarrow> Inl (Undefined ''int64_t(code)''))
     | _ \<Rightarrow> Inr None)"

definition require_field :: "'a option \<Rightarrow> string \<Rightarrow> 'a result" where
  "require_field field name =
    (case field of
       None \<Rightarrow> Inl (Invalid_argument (''getblocktemplate missing field: '' @ name))
     | Some value \<Rightarrow> Inr value)"

fun check_rules :: "json list \<Rightarrow> unit result" where
  "check_rules [] = Inr ()"
| "check_rules (JString rule # rules) = bindE (check_mandatory_rule rule) (\<lambda>_. check_rules rules)"
| "check_rules (_ # rules) = check_rules rules"

fun transactions_loop :: "bool \<Rightarrow> bytes \<Rightarrow> Hash256 list \<Rightarrow> GbtTransaction list \<Rightarrow> (bytes \<times> Hash256 list) result" where
  "transactions_loop segwit_aware txn_data txids [] = Inr (txn_data, txids)"
| "transactions_loop segwit_aware txn_data txids (tx # txs) =
    bindE (require_field (tx_data tx) ''transaction data'') (\<lambda>data.
    bindE (from_hex_append txn_data data) (\<lambda>txn_data.
    bindE (parse_txid segwit_aware (tx_txid tx) (tx_hash tx)) (\<lambda>txid.
      transactions_loop segwit_aware txn_data (txids @ [txid]) txs)))"

definition with_commitment :: "string option \<Rightarrow> BlockTemplate \<Rightarrow> BlockTemplate result" where
  "with_commitment commitment bt =
    (case commitment of
       None \<Rightarrow> Inr bt
     | Some hex \<Rightarrow>
         if hex = [] then Inr bt
         else bindE (from_hex hex) (\<lambda>script. Inr (bt
           \<lparr>bt_coinbase_witness := Some (replicate 32 0),
            bt_coinbase_required_outputs :=
              bt_coinbase_required_outputs bt @ [\<lparr>out_value = 0, out_script = script\<rparr>]\<rparr>)))"

definition with_transactions :: "bool \<Rightarrow> GbtTransaction list option \<Rightarrow> BlockTemplate \<Rightarrow> BlockTemplate result" where
  "with_transactions segwit_aware transactions bt =
    (case transactions of
       None \<Rightarrow> Inr bt
     | Some transactions \<Rightarrow>
         if length transactions > 0xffffffff
         then Inl (Invalid_argument ''getblocktemplate has too many transactions'')
         else
           bindE (mapE (\<lambda>tx. require_field (tx_data tx) ''transaction data'') transactions) (\<lambda>_.
           bindE (transactions_loop segwit_aware (bt_txn_data bt) [] transactions) (\<lambda>(txn_data, txids).
             Inr (bt
               \<lparr>bt_txn_count := word_of_nat (length transactions), bt_txn_data := txn_data,
                bt_merkle_branch_internal := merkle_branch txids\<rparr>))))"

definition template_of_reply :: "GbtReply \<Rightarrow> BlockTemplate result" where
  "template_of_reply reply =
    bindE (require_field (gbt_height reply) ''height'') (\<lambda>height.
    bindE (require_field (gbt_version reply) ''version'') (\<lambda>version.
    bindE (require_header_u32 version ''version'') (\<lambda>version.
    bindE (require_field (gbt_curtime reply) ''curtime'') (\<lambda>curtime.
    bindE (require_header_u32 curtime ''curtime'') (\<lambda>curtime.
    bindE (require_field (gbt_bits reply) ''bits'') (\<lambda>bits_hex.
    bindE (parse_hex_u32 bits_hex) (\<lambda>bits.
    bindE (require_field (gbt_coinbasevalue reply) ''coinbasevalue'') (\<lambda>coinbase_value.
    bindE (require_field (gbt_previousblockhash reply) ''previousblockhash'') (\<lambda>previousblockhash.
    bindE (serialize_height height) (\<lambda>prefix.
    bindE (case gbt_rules reply of None \<Rightarrow> Inr () | Some rules \<Rightarrow> check_rules rules) (\<lambda>_.
    bindE (with_commitment (gbt_default_witness_commitment reply)
      (BlockTemplate_init
        \<lparr>bt_height := height, bt_version := version, bt_curtime := curtime, bt_bits_hex := bits_hex, bt_bits := bits,
         bt_coinbase_value := coinbase_value, bt_previousblockhash := previousblockhash,
         bt_coinbase_script_sig_prefix := prefix\<rparr>)) (\<lambda>bt.
      with_transactions (gbt_default_witness_commitment reply \<noteq> None) (gbt_transactions reply) bt))))))))))))"

definition from_gbt :: "(string \<Rightarrow> string + GbtEnvelope) \<Rightarrow> (json \<Rightarrow> string option) \<Rightarrow> string \<Rightarrow> BlockTemplate result" where
  "from_gbt glz_read glz_write_json response_json =
    (case glz_read response_json of
       Inl error \<Rightarrow> Inl (Invalid_argument (''getblocktemplate reply is not valid JSON: '' @ error))
     | Inr envelope \<Rightarrow>
         if env_error envelope \<noteq> JNull then
           bindE (rpc_error_code (env_error envelope)) (\<lambda>code.
             Inl (Rpc_error (case glz_write_json (env_error envelope) of
               Some message \<Rightarrow> message | None \<Rightarrow> ''getblocktemplate error'') code))
         else case env_result envelope of
           None \<Rightarrow> Inl (Invalid_argument ''getblocktemplate reply has no result'')
         | Some reply \<Rightarrow> template_of_reply reply)"

section \<open>What an accepted reply gives\<close>

definition reply_transactions :: "GbtReply \<Rightarrow> GbtTransaction list" where
  "reply_transactions reply = (case gbt_transactions reply of None \<Rightarrow> [] | Some txs \<Rightarrow> txs)"

text \<open>The identifier a transaction is entered with: its \<^verbatim>\<open>txid\<close>; the \<^verbatim>\<open>hash\<close> field, which is the witness hash,
  stands in only for a template without segwit.\<close>

definition names_txid :: "bool \<Rightarrow> GbtTransaction \<Rightarrow> Hash256 \<Rightarrow> bool" where
  "names_txid segwit_aware tx txid \<longleftrightarrow> length txid = 32 \<and>
    (\<exists>hex. (tx_txid tx = Some hex \<or> tx_txid tx = None \<and> \<not> segwit_aware \<and> tx_hash tx = Some hex)
       \<and> from_hex hex = Inr (rev txid))"

definition has_data :: "GbtTransaction \<Rightarrow> bytes \<Rightarrow> bool" where
  "has_data tx data \<longleftrightarrow> (\<exists>hex. tx_data tx = Some hex \<and> from_hex hex = Inr data)"

definition template_transactions :: "GbtReply \<Rightarrow> BlockTemplate \<Rightarrow> Hash256 list \<Rightarrow> bytes list \<Rightarrow> bool" where
  "template_transactions reply bt txids datas \<longleftrightarrow>
    list_all2 has_data (reply_transactions reply) datas
    \<and> list_all2 (names_txid (gbt_default_witness_commitment reply \<noteq> None)) (reply_transactions reply) txids
    \<and> unat (bt_txn_count bt) = length txids \<and> bt_txn_data bt = concat datas
    \<and> bt_merkle_branch_internal bt = merkle_branch txids"

lemma from_hex_append_eq:
  "from_hex_append out hex = Inr res \<longleftrightarrow> (\<exists>bs. from_hex hex = Inr bs \<and> res = out @ bs)"
proof -
  have eq: "from_hex_append acc hex = Inr r \<longleftrightarrow> even (length hex) \<and> hex_loop acc hex = Some r" for acc r
    by (auto simp: from_hex_append_def odd_iff_mod_2_eq_one split: option.splits)
  show ?thesis
    unfolding from_hex_def eq using hex_loop_Some_iff [of hex out res] hex_loop_Some_iff [of hex "[]"] by auto
qed

lemma from_hex_into_ok:
  assumes "from_hex_into out hex = (bs, True)"
  shows "from_hex hex = Inr bs" "length bs = length out"
proof -
  have len: "length hex = 2 * length out" using assms by (auto simp: from_hex_into_def split: if_splits)
  then have "hex_loop [] hex = Some bs"
    using assms hex_into_loop_eq [of hex out "[]"] by (auto simp: from_hex_into_def split: option.splits)
  then show "from_hex hex = Inr bs" using len by (simp add: from_hex_def from_hex_append_def)
  then show "length bs = length out" using len from_hex_length by fastforce
qed

lemma parse_txid_names:
  "parse_txid segwit_aware (tx_txid tx) (tx_hash tx) = Inr txid \<Longrightarrow> names_txid segwit_aware tx txid"
  by (auto simp: parse_txid_def names_txid_def zero_hash_def result_simps split: option.splits if_splits prod.splits
      dest: from_hex_into_ok)

lemma transactions_loop_ok:
  assumes "transactions_loop segwit_aware txn_data txids txs = Inr (data', txids')"
  shows "\<exists>datas new. data' = txn_data @ concat datas \<and> txids' = txids @ new
    \<and> list_all2 has_data txs datas \<and> list_all2 (names_txid segwit_aware) txs new"
  using assms
proof (induction txs arbitrary: txn_data txids)
  case (Cons tx txs)
  obtain data txid where step: "has_data tx data" "names_txid segwit_aware tx txid"
    "transactions_loop segwit_aware (txn_data @ data) (txids @ [txid]) txs = Inr (data', txids')"
    using Cons.prems
    by (auto simp: result_simps require_field_def from_hex_append_eq has_data_def intro!: parse_txid_names split: option.splits)
  obtain datas new where "data' = (txn_data @ data) @ concat datas" "txids' = (txids @ [txid]) @ new"
    "list_all2 has_data txs datas" "list_all2 (names_txid segwit_aware) txs new"
    using Cons.IH [OF step(3)] by blast
  then show ?case using step(1,2) by (intro exI [of _ "data # datas"] exI [of _ "txid # new"]) simp
qed simp

lemma with_transactions_ok:
  assumes "with_transactions (gbt_default_witness_commitment reply \<noteq> None) (gbt_transactions reply) bt = Inr bt'"
    and "bt_txn_data bt = []" "bt_txn_count bt = 0" "bt_merkle_branch_internal bt = []"
  shows "\<exists>txids datas. template_transactions reply bt' txids datas"
proof (cases "gbt_transactions reply")
  case None
  then show ?thesis
    using assms by (auto simp: with_transactions_def template_transactions_def reply_transactions_def merkle_branch_def
      merkle_branch_loop.simps)
next
  case (Some txs)
  obtain data txids where run: "transactions_loop (gbt_default_witness_commitment reply \<noteq> None) [] [] txs = Inr (data, txids)"
    and bt': "bt' = bt\<lparr>bt_txn_count := word_of_nat (length txs), bt_txn_data := data, bt_merkle_branch_internal := merkle_branch txids\<rparr>"
    and small: "length txs \<le> 0xffffffff"
    using assms(1,2) Some by (auto simp: with_transactions_def result_simps split: if_splits)
  obtain datas where *: "data = concat datas" "list_all2 has_data txs datas"
    "list_all2 (names_txid (gbt_default_witness_commitment reply \<noteq> None)) txs txids"
    using transactions_loop_ok [OF run] by auto
  moreover have "unat (word_of_nat (length txs) :: u32) = length txids"
    using small list_all2_lengthD [OF *(3)] by (simp add: unat_of_nat take_bit_nat_eq_self)
  ultimately show ?thesis
    using Some by (auto simp: template_transactions_def reply_transactions_def bt')
qed

text \<open>The fields a template takes over unchanged and the rules it obeys.\<close>

definition template_fields :: "GbtReply \<Rightarrow> BlockTemplate \<Rightarrow> bool" where
  "template_fields reply bt \<longleftrightarrow>
    gbt_height reply = Some (bt_height bt)
    \<and> gbt_version reply = Some (uint (bt_version bt)) \<and> gbt_curtime reply = Some (uint (bt_curtime bt))
    \<and> gbt_bits reply = Some (bt_bits_hex bt) \<and> parse_hex_u32 (bt_bits_hex bt) = Inr (bt_bits bt)
    \<and> gbt_coinbasevalue reply = Some (bt_coinbase_value bt)
    \<and> gbt_previousblockhash reply = Some (bt_previousblockhash bt)
    \<and> serialize_height (bt_height bt) = Inr (bt_coinbase_script_sig_prefix bt)
    \<and> bt_coinbase_version bt = None \<and> bt_coinbase_sequence bt = 0xffffffff \<and> bt_coinbase_lock_time bt = 0"

definition template_commitment :: "GbtReply \<Rightarrow> BlockTemplate \<Rightarrow> bool" where
  "template_commitment reply bt \<longleftrightarrow>
    (case gbt_default_witness_commitment reply of
       Some (c # hex) \<Rightarrow> bt_coinbase_witness bt = Some (replicate 32 0)
         \<and> (\<exists>script. from_hex (c # hex) = Inr script \<and> bt_coinbase_required_outputs bt = [\<lparr>out_value = 0, out_script = script\<rparr>])
     | _ \<Rightarrow> bt_coinbase_witness bt = None \<and> bt_coinbase_required_outputs bt = [])"

definition rules_supported :: "json list \<Rightarrow> bool" where
  "rules_supported rules \<longleftrightarrow> list_all (\<lambda>rule. \<forall>name. rule = JString (CHR ''!'' # name) \<longrightarrow> name = ''segwit'') rules"

lemma check_rules_ok: "check_rules rules = Inr () \<longleftrightarrow> rules_supported rules"
proof (induction rules rule: check_rules.induct)
  case (2 rule rules)
  then show ?case by (cases rule) (auto simp: rules_supported_def check_mandatory_rule_def result_simps)
qed (simp_all add: rules_supported_def)

lemma require_header_u32_ok: "require_header_u32 value field = Inr w \<longleftrightarrow> value = uint w"
  using uint_bounded [of w]
  by (auto simp: require_header_u32_def unsigned_of_int take_bit_int_eq_self word_uint_eq_iff)

lemma with_commitment_ok:
  assumes "with_commitment (gbt_default_witness_commitment reply) bt = Inr bt'"
    and "bt_coinbase_witness bt = None" "bt_coinbase_required_outputs bt = []"
  shows "template_commitment reply bt'"
    and "bt' = bt\<lparr>bt_coinbase_witness := bt_coinbase_witness bt', bt_coinbase_required_outputs := bt_coinbase_required_outputs bt'\<rparr>"
  using assms
  by (auto simp: with_commitment_def template_commitment_def result_simps split: option.splits list.splits if_splits)

lemma template_of_reply_ok:
  assumes "template_of_reply reply = Inr bt"
  shows "template_fields reply bt" "template_commitment reply bt" "rules_supported (case gbt_rules reply of None \<Rightarrow> [] | Some rules \<Rightarrow> rules)"
    and "\<exists>txids datas. template_transactions reply bt txids datas"
proof -
  obtain height version curtime bits_hex bits cv prev push bt0 where f:
    "gbt_height reply = Some height" "gbt_version reply = Some (uint version)" "gbt_curtime reply = Some (uint curtime)"
    "gbt_bits reply = Some bits_hex" "parse_hex_u32 bits_hex = Inr bits" "gbt_coinbasevalue reply = Some cv"
    "gbt_previousblockhash reply = Some prev" "serialize_height height = Inr push"
    and rules: "(case gbt_rules reply of None \<Rightarrow> Inr () | Some rules \<Rightarrow> check_rules rules) = Inr ()"
    and wc: "with_commitment (gbt_default_witness_commitment reply)
      (BlockTemplate_init
        \<lparr>bt_height := height, bt_version := version, bt_curtime := curtime, bt_bits_hex := bits_hex, bt_bits := bits,
         bt_coinbase_value := cv, bt_previousblockhash := prev, bt_coinbase_script_sig_prefix := push\<rparr>) = Inr bt0"
    and wt: "with_transactions (gbt_default_witness_commitment reply \<noteq> None) (gbt_transactions reply) bt0 = Inr bt"
    using assms
    by (auto simp: template_of_reply_def result_simps require_field_def require_header_u32_ok split: option.splits)
  show "rules_supported (case gbt_rules reply of None \<Rightarrow> [] | Some rules \<Rightarrow> rules)"
    using rules by (auto simp: check_rules_ok rules_supported_def split: option.splits)
  note bt0 = with_commitment_ok [OF wc]
  have init: "bt_coinbase_witness BlockTemplate_init = None" "bt_coinbase_required_outputs BlockTemplate_init = []"
    by (simp_all add: BlockTemplate_init_def)
  have same: "bt_txn_data bt0 = []" "bt_txn_count bt0 = 0" "bt_merkle_branch_internal bt0 = []"
    by (subst bt0(2); simp add: init BlockTemplate_init_def)+
  show "\<exists>txids datas. template_transactions reply bt txids datas"
    using with_transactions_ok [OF wt same] .
  have "template_fields reply bt0"
    by (subst bt0(2)) (simp_all add: f template_fields_def BlockTemplate_init_def)
  then show "template_fields reply bt"
    using wt by (auto simp: with_transactions_def template_fields_def result_simps split: option.splits if_splits)
  have "template_commitment reply bt0" using bt0(1) init by simp
  then show "template_commitment reply bt"
    using wt by (auto simp: with_transactions_def template_commitment_def result_simps split: option.splits list.splits if_splits)
qed

lemma template_merkle_root:
  assumes "template_transactions reply bt txids datas" and "length coinbase = 32"
  shows "merkle_root_from_branch coinbase (bt_merkle_branch_internal bt) = merkle_root (coinbase # txids)"
proof -
  have "list_all2 (\<lambda>_ txid. length txid = 32) (reply_transactions reply) txids"
    using assms(1) unfolding template_transactions_def names_txid_def by (elim conjE) (erule list_all2_mono, blast)
  then have "hashes txids" by (auto simp: hashes_def list_all2_conv_all_nth list_all_length)
  then show ?thesis using merkle_branch_root [of coinbase txids] assms by (simp add: template_transactions_def)
qed

lemma from_gbt_reply:
  assumes "from_gbt glz_read glz_write_json response = Inr bt"
  shows "\<exists>reply. glz_read response = Inr \<lparr>env_result = Some reply, env_error = JNull\<rparr> \<and> template_of_reply reply = Inr bt"
proof -
  obtain envelope reply where env: "glz_read response = Inr envelope" "env_error envelope = JNull"
    "env_result envelope = Some reply" "template_of_reply reply = Inr bt"
    using assms by (auto simp: from_gbt_def result_simps split: sum.splits if_splits option.splits)
  then have "glz_read response = Inr \<lparr>env_result = Some reply, env_error = JNull\<rparr>" by (cases envelope) simp
  then show ?thesis using env(4) by blast
qed

lemma template_height_push:
  assumes "template_fields reply bt" "bt_height bt < 2 ^ 63"
  shows "pushed_number (bt_coinbase_script_sig_prefix bt @ rest) = bt_height bt"
proof -
  have push: "serialize_height (bt_height bt) = Inr (bt_coinbase_script_sig_prefix bt)"
    using assms(1) by (simp add: template_fields_def)
  then have "\<not> bt_height bt < 0" by (auto simp: serialize_height_def)
  then show ?thesis using height_push [OF assms(2)] push by auto
qed

text \<open>C12: a template is accepted only from a reply without an error that carries every mandatory field in
  range and no mandatory rule the pool does not know. The template then has the reply's header fields, the push
  of its height, its witness commitment as a required output, and all transactions in order; its branch,
  folded over any coinbase hash, is the merkle root over the transaction identifiers, which for a segwit
  template are never the witness hashes.\<close>

theorem from_gbt_correct:
  assumes "from_gbt glz_read glz_write_json response = Inr bt"
  shows "\<exists>reply txids datas. glz_read response = Inr \<lparr>env_result = Some reply, env_error = JNull\<rparr>
    \<and> template_fields reply bt \<and> template_commitment reply bt
    \<and> rules_supported (case gbt_rules reply of None \<Rightarrow> [] | Some rules \<Rightarrow> rules)
    \<and> template_transactions reply bt txids datas
    \<and> (\<forall>coinbase. length coinbase = 32 \<longrightarrow>
         merkle_root_from_branch coinbase (bt_merkle_branch_internal bt) = merkle_root (coinbase # txids))"
proof -
  obtain reply where reply: "glz_read response = Inr \<lparr>env_result = Some reply, env_error = JNull\<rparr>"
    "template_of_reply reply = Inr bt"
    using from_gbt_reply [OF assms] by blast
  then show ?thesis using template_of_reply_ok [OF reply(2)] template_merkle_root by blast
qed

definition sample_reply :: GbtReply where
  "sample_reply = \<lparr>gbt_height = Some 1, gbt_version = Some 0x20000000, gbt_curtime = Some 1296688602, gbt_bits = Some ''207fffff'',
    gbt_coinbasevalue = Some 5000000000, gbt_previousblockhash = Some (to_hex (replicate 32 0x0f)),
    gbt_rules = Some [JString ''csv'', JString ''!segwit''], gbt_default_witness_commitment = Some (to_hex [0x6a, 0x24]),
    gbt_transactions = Some [\<lparr>tx_data = Some (to_hex [0x02, 0x00]), tx_txid = Some (to_hex (replicate 32 0x11)), tx_hash = None\<rparr>]\<rparr>"

lemma from_hex_into_to_hex: "length bs = length out \<Longrightarrow> from_hex_into out (to_hex bs) = (bs, True)"
  using hex_into_loop_eq [of "to_hex bs" out "[]"] by (simp add: from_hex_into_def mult.commute)

lemma from_hex_append_to_hex: "from_hex_append out (to_hex bs) = Inr (out @ bs)"
  by (simp add: from_hex_append_eq)

lemma parse_sample_bits: "parse_hex_u32 ''207fffff'' = Inr 0x207fffff"
  by code_simp

lemma sample_reply_accepted: "\<exists>bt. template_of_reply sample_reply = Inr bt \<and> bt_coinbase_value bt = 5000000000"
  by (simp add: template_of_reply_def sample_reply_def require_field_def require_header_u32_def parse_sample_bits
      serialize_height_def check_mandatory_rule_def with_commitment_def with_transactions_def from_hex_append_to_hex
      parse_txid_def from_hex_into_to_hex zero_hash_def BlockTemplate_init_def del: to_hex_simps)

theorem from_gbt_correct_witness:
  "\<exists>bt reply txids datas. from_gbt (\<lambda>_. Inr \<lparr>env_result = Some sample_reply, env_error = JNull\<rparr>) (\<lambda>_. None) [] = Inr bt
    \<and> template_transactions reply bt txids datas
    \<and> merkle_root_from_branch (replicate 32 7) (bt_merkle_branch_internal bt) = merkle_root (replicate 32 7 # txids)"
proof -
  obtain bt where bt: "from_gbt (\<lambda>_. Inr \<lparr>env_result = Some sample_reply, env_error = JNull\<rparr>) (\<lambda>_. None) [] = Inr bt"
    using sample_reply_accepted by (auto simp: from_gbt_def)
  then show ?thesis using from_gbt_correct [OF bt] by (metis length_replicate)
qed

end
