(* ===== verification/Job.thy ===== *)
theory Job
  imports Block_Template Difficulty
begin

text \<open>
  \<^verbatim>\<open>src/src/stratum/job.cpp\<close>: one block template as mineable work, and the validation of the shares mined on it,
  for Stratum V1 and for the standard and extended channels of Stratum V2. The theorems follow a share from
  the template to the submitted block.
\<close>

section \<open>Shares and rejections\<close>

datatype ShareReject =
    SR_None
  | InvalidExtranonce2Size
  | MalformedField
  | NtimeOutOfRange
  | MalformedVersionBits
  | VersionRollingNotNegotiated
  | VersionBitsOutsideMask
  | AboveTarget

datatype RejectClass = Stale | Duplicate | Malformed | Ntime | Version | LowDifficulty

record ShareRejection =
  rej_reason :: ShareReject
  rej_difficulty :: double

record ShareResult =
  sr_difficulty :: double
  sr_is_block :: bool
  sr_header :: bytes
  sr_legacy_coinbase :: bytes
  sr_block_hash_chars :: string

record ShareInput =
  si_coinbase2 :: bytes
  si_extranonce1 :: bytes
  si_extranonce2_hex :: string
  si_ntime_hex :: string
  si_nonce_hex :: string
  si_share_target :: uint256
  si_version_bits_hex :: "string option"
  si_version_mask :: u32
  si_now_unix :: int

record StandardWork =
  sw_legacy_coinbase :: bytes
  sw_merkle_root :: Hash256

record ExtendedWork =
  ew_coinbase_tx_prefix :: bytes
  ew_coinbase_tx_suffix :: bytes
  ew_merkle_path :: "Hash256 list"

record StandardShareInput =
  ssi_legacy_coinbase :: bytes
  ssi_merkle_root :: Hash256
  ssi_ntime :: u32
  ssi_nonce :: u32
  ssi_version :: u32
  ssi_version_mask :: u32
  ssi_share_target :: uint256
  ssi_now_unix :: int

record ExtendedShareInput =
  esi_extranonce_prefix :: bytes
  esi_extranonce :: bytes
  esi_extranonce_size :: nat
  esi_ntime :: u32
  esi_nonce :: u32
  esi_version :: u32
  esi_version_mask :: u32
  esi_share_target :: uint256
  esi_now_unix :: int

definition kNtimeSlack :: int where
  "kNtimeSlack = 7200"

definition kNtimeSubmitMargin :: int where
  "kNtimeSubmitMargin = 120"

definition rejected :: "ShareReject \<Rightarrow> ShareRejection + 'a" where
  "rejected reason = Inl \<lparr>rej_reason = reason, rej_difficulty = Finite 0\<rparr>"

definition prevhash_to_stratum :: "string \<Rightarrow> string result" where
  "prevhash_to_stratum display_hex =
    bindE (from_hex display_hex) (\<lambda>bs.
      let internal = reversed bs
      in if length internal \<noteq> 32 then Inl (Invalid_argument ''previousblockhash is not 32 bytes'')
         else Inr (to_hex (concat (map (\<lambda>word. map (\<lambda>byte. internal ! (word + byte)) [3, 2, 1, 0])
           [0, 4, 8, 12, 16, 20, 24, 28]))))"

fun reject_reason :: "ShareReject \<Rightarrow> string" where
  "reject_reason SR_None = ''ok''"
| "reject_reason InvalidExtranonce2Size = ''invalid extranonce2 size''"
| "reject_reason MalformedField = ''malformed share field''"
| "reject_reason NtimeOutOfRange = ''ntime out of range''"
| "reject_reason MalformedVersionBits = ''malformed version bits''"
| "reject_reason VersionRollingNotNegotiated = ''version rolling not negotiated''"
| "reject_reason VersionBitsOutsideMask = ''version bits outside negotiated mask''"
| "reject_reason AboveTarget = ''above target''"

fun reject_class_label :: "RejectClass \<Rightarrow> string" where
  "reject_class_label Stale = ''stale''"
| "reject_class_label Duplicate = ''duplicate''"
| "reject_class_label Malformed = ''malformed''"
| "reject_class_label Ntime = ''ntime''"
| "reject_class_label Version = ''version''"
| "reject_class_label LowDifficulty = ''low_difficulty''"

fun reject_class_of :: "ShareReject \<Rightarrow> RejectClass" where
  "reject_class_of NtimeOutOfRange = Ntime"
| "reject_class_of MalformedVersionBits = Version"
| "reject_class_of VersionRollingNotNegotiated = Version"
| "reject_class_of VersionBitsOutsideMask = Version"
| "reject_class_of AboveTarget = LowDifficulty"
| "reject_class_of SR_None = Malformed"
| "reject_class_of InvalidExtranonce2Size = Malformed"
| "reject_class_of MalformedField = Malformed"

section \<open>The job\<close>

record Job =
  j_job_id :: string
  j_clean :: bool
  j_height :: int
  j_version :: u32
  j_curtime :: u32
  j_bits :: u32
  j_coinbase_value :: u64
  j_network_target :: uint256
  j_prevhash_internal :: bytes
  j_prevhash_stratum :: string
  j_coinbase_sequence :: u32
  j_coinbase_lock_time :: u32
  j_coinbase_witness :: "bytes option"
  j_coinbase_required_outputs :: "CoinbaseOutput list"
  j_tag :: bytes
  j_extranonce_size :: nat
  j_extranonce2_size :: nat
  j_donation_script :: bytes
  j_donation_percent :: double
  j_txn_count :: u32
  j_txn_data :: bytes
  j_merkle_branch :: "Hash256 list"
  j_merkle_branch_hex :: "string list"
  j_coinbase1 :: bytes
  j_coinbase1_hex :: string
  j_version_hex :: string
  j_nbits_hex :: string
  j_ntime_hex :: string
  j_work_signature :: string
  j_publication_sequence :: u64

text \<open>The \<^verbatim>\<open>{:08x}\<close> format of a 32-bit integer: its eight hexadecimal digits.\<close>

definition format_08x :: "u32 \<Rightarrow> string" where
  "format_08x v = to_hex (write_be32 v)"

definition output_signature :: "CoinbaseOutput \<Rightarrow> string" where
  "output_signature output = CHR ''|'' # to_decimal (unat (out_value output)) @ CHR '':'' # to_hex (out_script output)"

definition make_work_signature ::
  "string \<Rightarrow> string \<Rightarrow> string \<Rightarrow> string \<Rightarrow> string \<Rightarrow> bytes \<Rightarrow> u64 \<Rightarrow> u32 \<Rightarrow> u32 \<Rightarrow> bytes option \<Rightarrow> CoinbaseOutput list \<Rightarrow> string list \<Rightarrow> string"
where
  "make_work_signature prevhash_stratum version_hex nbits_hex ntime_hex coinbase1_hex tag coinbase_value
      coinbase_sequence coinbase_lock_time coinbase_witness coinbase_required_outputs merkle_branch_hex =
    prevhash_stratum @ CHR ''|'' # version_hex @ CHR ''|'' # nbits_hex @ CHR ''|'' # ntime_hex
      @ CHR ''|'' # coinbase1_hex @ CHR ''|'' # to_hex tag @ CHR ''|'' # to_decimal (unat coinbase_value)
      @ CHR ''|'' # to_decimal (unat coinbase_sequence) @ CHR ''|'' # to_decimal (unat coinbase_lock_time)
      @ (case coinbase_witness of None \<Rightarrow> [] | Some witness \<Rightarrow> CHR ''|'' # to_hex witness)
      @ concat (map output_signature coinbase_required_outputs)
      @ concat (map (\<lambda>branch. CHR ''|'' # branch) merkle_branch_hex)"

definition make_Job ::
  "string \<Rightarrow> BlockTemplate \<Rightarrow> bytes \<Rightarrow> nat \<Rightarrow> nat \<Rightarrow> u32 \<Rightarrow> bool \<Rightarrow> bytes \<Rightarrow> double \<Rightarrow> Job result"
where
  "make_Job job_id bt tag extranonce1_size extranonce2_size coinbase_version clean donation_script donation_percent =
    bindE (from_hex (bt_previousblockhash bt)) (\<lambda>prevhash.
    bindE (prevhash_to_stratum (bt_previousblockhash bt)) (\<lambda>prevhash_stratum.
    let merkle_branch_hex = map to_hex (bt_merkle_branch_internal bt)
    in if bt_coinbase_script_sig_prefix bt = [] then Inl (Invalid_argument ''coinbase scriptSig prefix is empty'')
    else bindE (build_coinbase1 (bt_coinbase_script_sig_prefix bt) (extranonce1_size + extranonce2_size) tag
      (case bt_coinbase_version bt of None \<Rightarrow> coinbase_version | Some v \<Rightarrow> v)) (\<lambda>coinbase1.
    let coinbase1_hex = to_hex coinbase1;
        version_hex = format_08x (bt_version bt);
        ntime_hex = format_08x (bt_curtime bt)
    in Inr \<lparr>j_job_id = job_id, j_clean = clean, j_height = bt_height bt, j_version = bt_version bt,
      j_curtime = bt_curtime bt, j_bits = bt_bits bt, j_coinbase_value = bt_coinbase_value bt,
      j_network_target = target_from_compact (bt_bits bt), j_prevhash_internal = reversed prevhash,
      j_prevhash_stratum = prevhash_stratum, j_coinbase_sequence = bt_coinbase_sequence bt,
      j_coinbase_lock_time = bt_coinbase_lock_time bt, j_coinbase_witness = bt_coinbase_witness bt,
      j_coinbase_required_outputs = bt_coinbase_required_outputs bt, j_tag = tag,
      j_extranonce_size = extranonce1_size + extranonce2_size, j_extranonce2_size = extranonce2_size,
      j_donation_script = donation_script, j_donation_percent = donation_percent,
      j_txn_count = bt_txn_count bt, j_txn_data = bt_txn_data bt, j_merkle_branch = bt_merkle_branch_internal bt,
      j_merkle_branch_hex = merkle_branch_hex, j_coinbase1 = coinbase1, j_coinbase1_hex = coinbase1_hex,
      j_version_hex = version_hex, j_nbits_hex = bt_bits_hex bt, j_ntime_hex = ntime_hex,
      j_work_signature = make_work_signature prevhash_stratum version_hex (bt_bits_hex bt) ntime_hex coinbase1_hex tag
        (bt_coinbase_value bt) (bt_coinbase_sequence bt) (bt_coinbase_lock_time bt) (bt_coinbase_witness bt)
        (bt_coinbase_required_outputs bt) merkle_branch_hex,
      j_publication_sequence = 0\<rparr>)))"

definition payout_outputs :: "Job \<Rightarrow> bytes \<Rightarrow> CoinbaseOutput list result" where
  "payout_outputs job payout_script =
    (if dless (Finite 0) (j_donation_percent job) \<and> j_donation_script job \<noteq> [] then
       case to_u64 (ddiv (dmul (of_u64 (j_coinbase_value job)) (j_donation_percent job)) (Finite 100)) of
         None \<Rightarrow> Inl (Undefined ''uint64_t(donation)'')
       | Some donation_amount \<Rightarrow> Inr
           [\<lparr>out_value = j_coinbase_value job - donation_amount, out_script = payout_script\<rparr>,
            \<lparr>out_value = donation_amount, out_script = j_donation_script job\<rparr>]
     else Inr [\<lparr>out_value = j_coinbase_value job, out_script = payout_script\<rparr>])"

definition Job_build_coinbase2 :: "Job \<Rightarrow> bytes \<Rightarrow> bytes result" where
  "Job_build_coinbase2 job payout_script =
    bindE (payout_outputs job payout_script) (\<lambda>outputs.
      Inr (build_coinbase2 outputs (j_coinbase_required_outputs job) (j_tag job) (j_coinbase_sequence job)
        (j_coinbase_lock_time job)))"

definition build_standard_work :: "Job \<Rightarrow> bytes \<Rightarrow> bytes \<Rightarrow> StandardWork result" where
  "build_standard_work job payout_script extranonce_prefix =
    (if length extranonce_prefix \<noteq> j_extranonce_size job
     then Inl (Invalid_argument ''SV2 extranonce prefix does not fill the template extranonce'')
     else bindE (Job_build_coinbase2 job payout_script) (\<lambda>coinbase2.
       let legacy_coinbase = j_coinbase1 job @ extranonce_prefix @ coinbase2
       in Inr \<lparr>sw_legacy_coinbase = legacy_coinbase,
            sw_merkle_root = merkle_root_from_branch (sha256d legacy_coinbase) (j_merkle_branch job)\<rparr>))"

definition build_extended_work :: "Job \<Rightarrow> bytes \<Rightarrow> ExtendedWork result" where
  "build_extended_work job payout_script =
    bindE (Job_build_coinbase2 job payout_script) (\<lambda>coinbase2.
      Inr \<lparr>ew_coinbase_tx_prefix = j_coinbase1 job, ew_coinbase_tx_suffix = coinbase2, ew_merkle_path = j_merkle_branch job\<rparr>)"

definition network_difficulty :: "Job \<Rightarrow> double" where
  "network_difficulty job = difficulty_from_target (j_network_target job)"

definition mines_on :: "Job \<Rightarrow> string \<Rightarrow> bool" where
  "mines_on job tip_display_hex =
    (case from_hex tip_display_hex of Inl _ \<Rightarrow> False | Inr bs \<Rightarrow> reversed bs = j_prevhash_internal job)"

definition set_publication_sequence :: "Job \<Rightarrow> u64 \<Rightarrow> Job" where
  "set_publication_sequence job sequence = job\<lparr>j_publication_sequence := sequence\<rparr>"

section \<open>Headers and share validation\<close>

definition kHeaderSize :: nat where "kHeaderSize = 80"
definition kVersionOffset :: nat where "kVersionOffset = 0"
definition kPrevhashOffset :: nat where "kPrevhashOffset = 4"
definition kMerkleOffset :: nat where "kMerkleOffset = 36"
definition kTimeOffset :: nat where "kTimeOffset = 68"
definition kBitsOffset :: nat where "kBitsOffset = 72"
definition kNonceOffset :: nat where "kNonceOffset = 76"

text \<open>The stores into the header array, whose initial content is left unspecified by the source.\<close>

definition fill_header :: "bytes \<Rightarrow> Job \<Rightarrow> Hash256 \<Rightarrow> u32 \<Rightarrow> u32 \<Rightarrow> u32 \<Rightarrow> bytes" where
  "fill_header header job merkle ntime nonce version =
    (let header = put_bytes header kVersionOffset (write_le32 version);
         header = put_bytes header kPrevhashOffset (take 32 (j_prevhash_internal job));
         header = put_bytes header kMerkleOffset (take 32 merkle);
         header = put_bytes header kTimeOffset (write_le32 ntime);
         header = put_bytes header kBitsOffset (write_le32 (j_bits job))
     in put_bytes header kNonceOffset (write_le32 nonce))"

definition build_header :: "Job \<Rightarrow> Hash256 \<Rightarrow> u32 \<Rightarrow> u32 \<Rightarrow> u32 \<Rightarrow> bytes" where
  "build_header job merkle ntime nonce version =
    fill_header (replicate kHeaderSize 0) job merkle ntime nonce version"

definition validate_header ::
  "Job \<Rightarrow> bytes \<Rightarrow> Hash256 \<Rightarrow> u32 \<Rightarrow> u32 \<Rightarrow> u32 \<Rightarrow> uint256 \<Rightarrow> ShareRejection + ShareResult"
where
  "validate_header job legacy_coinbase merkle ntime nonce version share_target =
    (let header = build_header job merkle ntime nonce version;
         block_hash = sha256d header;
         hash_value = uint256_of_bytes block_hash;
         difficulty = difficulty_from_target hash_value;
         is_block = meets_target hash_value (j_network_target job)
     in if \<not> is_block \<and> \<not> meets_target hash_value share_target
        then Inl \<lparr>rej_reason = AboveTarget, rej_difficulty = difficulty\<rparr>
        else Inr \<lparr>sr_difficulty = difficulty, sr_is_block = is_block, sr_header = header,
               sr_legacy_coinbase = legacy_coinbase, sr_block_hash_chars = to_hex_reversed block_hash\<rparr>)"

definition ntime_in_range :: "Job \<Rightarrow> u32 \<Rightarrow> int \<Rightarrow> bool" where
  "ntime_in_range job ntime now_unix \<longleftrightarrow>
    \<not> (uint ntime < uint (j_curtime job) \<or> uint ntime > now_unix + kNtimeSlack - kNtimeSubmitMargin)"

definition roll_version :: "Job \<Rightarrow> string option \<Rightarrow> u32 \<Rightarrow> ShareRejection + u32" where
  "roll_version job version_bits_hex version_mask =
    (case version_bits_hex of
       None \<Rightarrow> Inr (j_version job)
     | Some hex \<Rightarrow>
         (case try_parse_hex_u32 hex of
            None \<Rightarrow> rejected MalformedVersionBits
          | Some rolled \<Rightarrow>
              if version_mask = 0 then
                if rolled \<noteq> 0 then rejected VersionRollingNotNegotiated else Inr (j_version job)
              else if rolled AND NOT version_mask \<noteq> 0 then rejected VersionBitsOutsideMask
              else Inr ((j_version job AND NOT version_mask) OR (rolled AND version_mask))))"

definition validate_share :: "Job \<Rightarrow> ShareInput \<Rightarrow> ShareRejection + ShareResult" where
  "validate_share job input =
    (if length (si_extranonce2_hex input) > j_extranonce2_size job * 2 then rejected InvalidExtranonce2Size
     else case (try_from_hex (si_extranonce2_hex input), try_parse_hex_u32 (si_ntime_hex input),
                try_parse_hex_u32 (si_nonce_hex input)) of
       (Some extranonce2, Some ntime, Some nonce) \<Rightarrow>
         if length extranonce2 \<noteq> j_extranonce2_size job then rejected InvalidExtranonce2Size
         else if \<not> ntime_in_range job ntime (si_now_unix input) then rejected NtimeOutOfRange
         else bindE (roll_version job (si_version_bits_hex input) (si_version_mask input)) (\<lambda>version.
           let coinbase = j_coinbase1 job @ si_extranonce1 input @ extranonce2 @ si_coinbase2 input;
               root = merkle_root_from_branch (sha256d coinbase) (j_merkle_branch job)
           in validate_header job coinbase root ntime nonce version (si_share_target input))
     | _ \<Rightarrow> rejected MalformedField)"

definition validate_standard_share :: "Job \<Rightarrow> StandardShareInput \<Rightarrow> ShareRejection + ShareResult" where
  "validate_standard_share job input =
    (if \<not> ntime_in_range job (ssi_ntime input) (ssi_now_unix input) then rejected NtimeOutOfRange
     else if (ssi_version input AND NOT (ssi_version_mask input)) \<noteq> (j_version job AND NOT (ssi_version_mask input))
     then rejected VersionBitsOutsideMask
     else validate_header job (ssi_legacy_coinbase input) (ssi_merkle_root input) (ssi_ntime input) (ssi_nonce input)
       (ssi_version input) (ssi_share_target input))"

definition validate_extended_share :: "Job \<Rightarrow> ExtendedWork \<Rightarrow> ExtendedShareInput \<Rightarrow> ShareRejection + ShareResult" where
  "validate_extended_share job work input =
    (if length (esi_extranonce input) \<noteq> esi_extranonce_size input
        \<or> length (esi_extranonce_prefix input) > j_extranonce_size job
        \<or> esi_extranonce_size input \<noteq> j_extranonce_size job - length (esi_extranonce_prefix input)
     then rejected InvalidExtranonce2Size
     else let coinbase = ew_coinbase_tx_prefix work @ esi_extranonce_prefix input @ esi_extranonce input @ ew_coinbase_tx_suffix work
       in validate_standard_share job
         \<lparr>ssi_legacy_coinbase = coinbase,
          ssi_merkle_root = merkle_root_from_branch (sha256d coinbase) (ew_merkle_path work),
          ssi_ntime = esi_ntime input, ssi_nonce = esi_nonce input, ssi_version = esi_version input,
          ssi_version_mask = esi_version_mask input, ssi_share_target = esi_share_target input,
          ssi_now_unix = esi_now_unix input\<rparr>)"

definition build_block_hex :: "Job \<Rightarrow> bytes \<Rightarrow> bytes \<Rightarrow> string result" where
  "build_block_hex job legacy_coinbase header =
    bindE (case j_coinbase_witness job of
        Some witness \<Rightarrow> legacy_to_witness_item legacy_coinbase witness
      | None \<Rightarrow> Inr legacy_coinbase)
      (\<lambda>coinbase. Inr (to_hex (header @ encode_varint (ucast (j_txn_count job + 1)) @ coinbase @ j_txn_data job)))"

section \<open>Headers\<close>

text \<open>The 80 bytes of a block header with the given fields.\<close>

definition ser_header :: "u32 \<Rightarrow> bytes \<Rightarrow> Hash256 \<Rightarrow> u32 \<Rightarrow> u32 \<Rightarrow> u32 \<Rightarrow> bytes" where
  "ser_header version prevhash merkle ntime bits nonce =
    write_le32 version @ prevhash @ merkle @ write_le32 ntime @ write_le32 bits @ write_le32 nonce"

lemmas header_offsets = kHeaderSize_def kVersionOffset_def kPrevhashOffset_def kMerkleOffset_def kTimeOffset_def
  kBitsOffset_def kNonceOffset_def

lemma put_bytes_append: "length pre = off \<Longrightarrow> put_bytes (pre @ rest) off bs = pre @ bs @ drop (length bs) rest"
  by (simp add: put_bytes_def)

lemma fill_header_ser:
  assumes "length buf = 80" "length (j_prevhash_internal job) = 32" "length merkle = 32"
  shows "fill_header buf job merkle ntime nonce version =
    ser_header version (j_prevhash_internal job) merkle ntime (j_bits job) nonce"
proof -
  define p where "p = j_prevhash_internal job"
  define v t b n where "v = write_le32 version" and "t = write_le32 ntime" and "b = write_le32 (j_bits job)"
    and "n = write_le32 nonce"
  have len: "length v = 4" "length t = 4" "length b = 4" "length n = 4" "length p = 32"
    using assms(2) by (simp_all add: v_def t_def b_def n_def p_def)
  have "put_bytes buf 0 v = v @ drop 4 buf" by (simp add: put_bytes_def len)
  moreover have "put_bytes (v @ drop 4 buf) 4 p = (v @ p) @ drop 36 buf"
    by (subst put_bytes_append) (simp_all add: len)
  moreover have "put_bytes ((v @ p) @ drop 36 buf) 36 merkle = (v @ p @ merkle) @ drop 68 buf"
    by (subst put_bytes_append) (simp_all add: len assms(3))
  moreover have "put_bytes ((v @ p @ merkle) @ drop 68 buf) 68 t = (v @ p @ merkle @ t) @ drop 72 buf"
    by (subst put_bytes_append) (simp_all add: len assms(3))
  moreover have "put_bytes ((v @ p @ merkle @ t) @ drop 72 buf) 72 b = (v @ p @ merkle @ t @ b) @ drop 76 buf"
    by (subst put_bytes_append) (simp_all add: len assms(3))
  moreover have "put_bytes ((v @ p @ merkle @ t @ b) @ drop 76 buf) 76 n = v @ p @ merkle @ t @ b @ n"
    by (subst put_bytes_append) (simp_all add: len assms(1,3))
  moreover have "take 32 p = p" "take 32 merkle = merkle" using len assms(3) by simp_all
  ultimately show ?thesis
    unfolding fill_header_def Let_def header_offsets ser_header_def v_def [symmetric] t_def [symmetric] b_def [symmetric]
      n_def [symmetric] p_def [symmetric]
    by metis
qed

lemma build_header_ser:
  assumes "length (j_prevhash_internal job) = 32" "length merkle = 32"
  shows "build_header job merkle ntime nonce version =
    ser_header version (j_prevhash_internal job) merkle ntime (j_bits job) nonce"
  unfolding build_header_def using assms by (intro fill_header_ser) (simp_all add: kHeaderSize_def)

lemma length_merkle_root_from_branch:
  "length coinbase = 32 \<Longrightarrow> hashes branch \<Longrightarrow> length (merkle_root_from_branch coinbase branch) = 32"
  unfolding merkle_root_from_branch_def
  by (induction branch arbitrary: coinbase) (simp_all add: hash_pair_sha256d)

section \<open>Construction\<close>

text \<open>What holds of every job the constructor builds.\<close>

definition wf_Job :: "Job \<Rightarrow> bool" where
  "wf_Job job \<longleftrightarrow> length (j_prevhash_internal job) = 32 \<and> j_network_target job = target_from_compact (j_bits job)"

definition job_of_template :: "Job \<Rightarrow> BlockTemplate \<Rightarrow> bytes \<Rightarrow> nat \<Rightarrow> nat \<Rightarrow> u32 \<Rightarrow> bool" where
  "job_of_template job bt tag extranonce1_size extranonce2_size coinbase_version \<longleftrightarrow>
    wf_Job job \<and> from_hex (bt_previousblockhash bt) = Inr (rev (j_prevhash_internal job))
    \<and> j_version job = bt_version bt \<and> j_curtime job = bt_curtime bt \<and> j_bits job = bt_bits bt
    \<and> j_coinbase_value job = bt_coinbase_value bt \<and> j_merkle_branch job = bt_merkle_branch_internal bt
    \<and> j_txn_count job = bt_txn_count bt \<and> j_txn_data job = bt_txn_data bt
    \<and> j_coinbase_witness job = bt_coinbase_witness bt \<and> j_coinbase_required_outputs job = bt_coinbase_required_outputs bt
    \<and> j_coinbase_sequence job = bt_coinbase_sequence bt \<and> j_coinbase_lock_time job = bt_coinbase_lock_time bt
    \<and> j_tag job = tag \<and> j_extranonce_size job = extranonce1_size + extranonce2_size \<and> j_extranonce2_size job = extranonce2_size
    \<and> build_coinbase1 (bt_coinbase_script_sig_prefix bt) (extranonce1_size + extranonce2_size) tag
        (case bt_coinbase_version bt of None \<Rightarrow> coinbase_version | Some v \<Rightarrow> v) = Inr (j_coinbase1 job)"

lemma make_Job_template:
  assumes "make_Job job_id bt tag e1 e2 coinbase_version clean donation_script donation_percent = Inr job"
  shows "job_of_template job bt tag e1 e2 coinbase_version"
    and "j_donation_script job = donation_script" "j_donation_percent job = donation_percent"
  using assms
  by (auto simp: make_Job_def job_of_template_def wf_Job_def prevhash_to_stratum_def Let_def result_simps reversed_rev
      split: if_splits)

section \<open>The payout\<close>

lemma round64_between:
  assumes "representable lo" "representable hi" "lo \<le> x" "x \<le> hi"
  shows "\<exists>y. round64 x = Finite y \<and> lo \<le> y \<and> y \<le> hi"
  using round64_mono [OF assms(3)] round64_mono [OF assms(4)] round64_representable [OF assms(1)]
    round64_representable [OF assms(2)]
  by (cases "round64 x") auto

lemma donation_bounded:
  assumes "0 < p" "p \<le> 100" "n \<le> 2100000000000000"
  shows "\<exists>w. ddiv (dmul (Finite (of_nat n)) (Finite p)) (Finite 100) = Finite w \<and> 0 \<le> w \<and> \<lfloor>w\<rfloor> \<le> int n"
proof -
  define k where "k = (100 * n + 31) div 32"
  have k: "100 * n \<le> 32 * k" "32 * k \<le> 100 * n + 31" by (simp_all add: k_def)
  have z: "representable (of_nat (32 * k))"
    by (rule representableI [of _ "int k" 5]) (use k assms(3) in \<open>simp_all add: power_int_def\<close>)
  have "of_nat n * p \<le> of_nat n * (100 :: rat)" using assms(2) by (intro mult_left_mono) auto
  also have "\<dots> = of_nat (100 * n)" by simp
  also have "\<dots> \<le> of_nat (32 * k)" using k(1) by (rule of_nat_mono)
  finally obtain y where y: "round64 (of_nat n * p) = Finite y" "0 \<le> y" "y \<le> of_nat (32 * k)"
    using round64_between [OF representable_0 z, of "of_nat n * p"] assms(1) by (auto simp: mult_nonneg_nonneg less_imp_le)
  have "y \<le> of_nat (100 * n + 31)" using y(3) of_nat_mono [OF k(2), where 'a = rat] by linarith
  then have "y / 100 \<le> of_nat n + 1 / 2" by simp
  moreover have "representable (of_nat n + 1 / 2)"
    by (rule representableI [of _ "2 * int n + 1" "- 1"]) (use assms(3) in \<open>simp_all add: power_int_def field_simps\<close>)
  ultimately obtain w where w: "round64 (y / 100) = Finite w" "0 \<le> w" "w \<le> of_nat n + 1 / 2"
    using round64_between [OF representable_0, of "of_nat n + 1 / 2" "y / 100"] y(2) by auto
  have "w < of_int (int n + 1)" using w(3) by simp
  then have "\<lfloor>w\<rfloor> < int n + 1" by (simp only: floor_less_iff)
  then show ?thesis using y(1) w by simp
qed

lemma payout_outputs_value:
  assumes "dleq (j_donation_percent job) (Finite 100)" and "unat (j_coinbase_value job) \<le> 2100000000000000"
  shows "\<exists>outputs. payout_outputs job payout_script = Inr outputs \<and> outputs \<noteq> []
    \<and> out_script (hd outputs) = payout_script \<and> length outputs \<le> 2
    \<and> sum_list (map (\<lambda>output. unat (out_value output)) outputs) = unat (j_coinbase_value job)"
proof (cases "dless (Finite 0) (j_donation_percent job) \<and> j_donation_script job \<noteq> []")
  case True
  then obtain p where p: "j_donation_percent job = Finite p" "0 < p" "p \<le> 100"
    using assms(1) by (cases "j_donation_percent job") auto
  let ?n = "unat (j_coinbase_value job)"
  obtain w where w: "ddiv (dmul (Finite (of_nat ?n)) (Finite p)) (Finite 100) = Finite w" "0 \<le> w" "\<lfloor>w\<rfloor> \<le> int ?n"
    using donation_bounded [OF p(2,3) assms(2)] by blast
  have exact: "of_u64 (j_coinbase_value job) = Finite (of_nat ?n)"
    using assms(2) by (simp add: of_u64_def round64_nat del: of_nat_unat)
  define d where "d = nat \<lfloor>w\<rfloor>"
  have d: "d \<le> ?n" "\<lfloor>w\<rfloor> = int d" using w(2,3) by (simp_all add: d_def nat_le_iff)
  have conv: "to_u64 (Finite w) = Some (word_of_nat d)"
    using w(2) d assms(2) by (simp add: rat_trunc_def)
  have u: "unat (word_of_nat d :: u64) = d" using d(1) assms(2) by (simp add: unat_of_nat take_bit_nat_eq_self)
  then have "unat (j_coinbase_value job - word_of_nat d) = ?n - d" using d(1) by (simp add: unat_sub word_le_nat_alt)
  then show ?thesis using True p(1) w(1) exact conv u d(1) by (simp add: payout_outputs_def)
qed (auto simp: payout_outputs_def)

section \<open>Accepted shares\<close>

text \<open>The header and hash a share stands for.\<close>

definition share_header :: "Job \<Rightarrow> bytes \<Rightarrow> u32 \<Rightarrow> u32 \<Rightarrow> u32 \<Rightarrow> bytes" where
  "share_header job coinbase ntime nonce version =
    ser_header version (j_prevhash_internal job) (merkle_root_from_branch (sha256d coinbase) (j_merkle_branch job)) ntime
      (j_bits job) nonce"

definition header_hash :: "bytes \<Rightarrow> uint256" where
  "header_hash header = uint256_of_bytes (sha256d header)"

text \<open>The verdict on a header: refused exactly when it is above both targets.\<close>

definition verdict :: "Job \<Rightarrow> bytes \<Rightarrow> bytes \<Rightarrow> uint256 \<Rightarrow> ShareRejection + ShareResult" where
  "verdict job coinbase header share_target =
    (let hash = header_hash header; difficulty = difficulty_from_target hash
     in if hash \<le> j_network_target job \<or> hash \<le> share_target
        then Inr \<lparr>sr_difficulty = difficulty, sr_is_block = (hash \<le> j_network_target job), sr_header = header,
               sr_legacy_coinbase = coinbase, sr_block_hash_chars = to_display_hex hash\<rparr>
        else Inl \<lparr>rej_reason = AboveTarget, rej_difficulty = difficulty\<rparr>)"

lemma le_bytes_sha256d: "le_bytes (uint256_of_bytes (sha256d bs)) = sha256d bs"
  by (simp add: le_bytes_uint256_of_bytes length_sha256d)

lemma validate_header_verdict:
  assumes "wf_Job job" "length merkle = 32"
  shows "validate_header job coinbase merkle ntime nonce version share_target =
    verdict job coinbase (ser_header version (j_prevhash_internal job) merkle ntime (j_bits job) nonce) share_target"
  using assms
  by (simp add: validate_header_def verdict_def Let_def build_header_ser wf_Job_def header_hash_def meets_target_def to_display_hex_def
      le_bytes_sha256d)

lemma length_share_root: "hashes branch \<Longrightarrow> length (merkle_root_from_branch (sha256d coinbase) branch) = 32"
  by (simp add: length_merkle_root_from_branch length_sha256d)

lemma rejected_not_Inr [simp]: "rejected reason \<noteq> Inr r"
  by (simp add: rejected_def)

lemma roll_version_mask:
  assumes "roll_version job bits vmask = Inr version"
  shows "version AND NOT vmask = j_version job AND NOT vmask"
proof -
  have "((a AND NOT vmask) OR (b AND vmask)) AND NOT vmask = a AND NOT vmask" for a b :: u32
    by (rule bit_eqI) (auto simp: bit_simps)
  then show ?thesis
    using assms by (auto simp: roll_version_def split: option.splits if_splits)
qed


lemma validate_share_Inr:
  assumes "validate_share job input = Inr r" and "wf_Job job" "hashes (j_merkle_branch job)"
  obtains extranonce2 ntime nonce version where
    "try_from_hex (si_extranonce2_hex input) = Some extranonce2" "length extranonce2 = j_extranonce2_size job"
    "try_parse_hex_u32 (si_ntime_hex input) = Some ntime" "ntime_in_range job ntime (si_now_unix input)"
    "try_parse_hex_u32 (si_nonce_hex input) = Some nonce"
    "roll_version job (si_version_bits_hex input) (si_version_mask input) = Inr version"
    "verdict job (j_coinbase1 job @ si_extranonce1 input @ extranonce2 @ si_coinbase2 input)
       (share_header job (j_coinbase1 job @ si_extranonce1 input @ extranonce2 @ si_coinbase2 input) ntime nonce version)
       (si_share_target input) = Inr r"
  using assms
  by (auto simp: validate_share_def result_simps Let_def validate_header_verdict length_share_root share_header_def
      split: if_splits option.splits)

lemma verdict_Inr:
  "verdict job coinbase header share_target = Inr r \<longleftrightarrow>
    (header_hash header \<le> j_network_target job \<or> header_hash header \<le> share_target)
    \<and> r = \<lparr>sr_difficulty = difficulty_from_target (header_hash header),
         sr_is_block = (header_hash header \<le> j_network_target job), sr_header = header,
         sr_legacy_coinbase = coinbase, sr_block_hash_chars = to_display_hex (header_hash header)\<rparr>"
  by (auto simp: verdict_def Let_def)

text \<open>Reading back the eight digits of a 32-bit field.\<close>

lemma hex_u32_loop_byte:
  "hex_u32_loop v (to_hex [b] @ rest) = hex_u32_loop (push_bit 8 v OR ucast b) rest"
proof -
  have mask: "(15 :: u8) = mask 4" by (simp add: mask_eq_exp_minus_1)
  have "push_bit 4 (push_bit 4 v OR ucast (drop_bit 4 b)) OR ucast (b AND 15) = push_bit 8 v OR ucast b"
    unfolding mask by (rule bit_eqI) (auto simp: bit_simps)
  then show ?thesis
    using unat_nibbles [of b] by (simp add: Let_def)
qed

lemma hex_u32_loop_to_hex: "hex_u32_loop v (to_hex bs) = Some (fold (\<lambda>b v. push_bit 8 v OR ucast b) bs v)"
proof (induction bs arbitrary: v)
  case (Cons b bs)
  have "to_hex (b # bs) = to_hex [b] @ to_hex bs" by simp
  then show ?case using Cons hex_u32_loop_byte [of v b "to_hex bs"] by simp
qed (simp add: to_hex_def)

lemma try_parse_format_08x [simp]: "try_parse_hex_u32 (format_08x w) = Some w"
proof -
  have four: "fold (\<lambda>b v. push_bit 8 v OR ucast b) [a, b, c, d] 0 = read_be32 [a, b, c, d]" for a b c d
    by (rule bit_eqI) (auto simp: read_be32_def bit_simps)
  have "length (write_be32 w) = Suc (Suc (Suc (Suc 0)))" by simp
  then obtain a b c d where "write_be32 w = [a, b, c, d]" by (auto simp only: length_Suc_conv length_0_conv)
  then have "fold (\<lambda>b v. push_bit 8 v OR ucast b) (write_be32 w) 0 = w"
    using four [of a b c d] read_write_be32 [of w "[]"] by simp
  moreover have "length (format_08x w) = 8" by (simp add: format_08x_def)
  then have "\<not> (format_08x w = [] \<or> length (format_08x w) > 8)" by auto
  ultimately show ?thesis unfolding try_parse_hex_u32_def by (simp add: format_08x_def hex_u32_loop_to_hex)
qed

section \<open>From template to block\<close>

definition job_coinbase :: "Job \<Rightarrow> BlockTemplate \<Rightarrow> u32 \<Rightarrow> bytes \<Rightarrow> CoinbaseOutput list \<Rightarrow> coinbase_tx" where
  "job_coinbase job bt coinbase_version extranonce outputs =
    coinbase_of (bt_coinbase_script_sig_prefix bt @ extranonce @ j_tag job)
      (case bt_coinbase_version bt of None \<Rightarrow> coinbase_version | Some v \<Rightarrow> v) (bt_coinbase_sequence bt)
      (outputs @ bt_coinbase_required_outputs bt) (bt_coinbase_lock_time bt)"

lemma job_coinbase_ser:
  assumes "job_of_template job bt tag e1 e2 coinbase_version" and "length extranonce = e1 + e2"
    and "payout_outputs job payout_script = Inr outputs" "Job_build_coinbase2 job payout_script = Inr coinbase2"
  shows "j_coinbase1 job @ extranonce @ coinbase2 = ser_legacy (job_coinbase job bt coinbase_version extranonce outputs)"
    and "length (tx_script_sig (job_coinbase job bt coinbase_version extranonce outputs)) \<le> 100"
proof -
  let ?v = "case bt_coinbase_version bt of None \<Rightarrow> coinbase_version | Some v \<Rightarrow> v"
  have c1: "build_coinbase1 (bt_coinbase_script_sig_prefix bt) (length extranonce) (j_tag job) ?v = Inr (j_coinbase1 job)"
    using assms(1,2) by (simp add: job_of_template_def)
  have c2: "coinbase2 = build_coinbase2 outputs (bt_coinbase_required_outputs bt) (j_tag job) (bt_coinbase_sequence bt)
      (bt_coinbase_lock_time bt)"
    using assms(1,3,4) by (simp add: Job_build_coinbase2_def job_of_template_def)
  show "j_coinbase1 job @ extranonce @ coinbase2 = ser_legacy (job_coinbase job bt coinbase_version extranonce outputs)"
    unfolding c2 job_coinbase_def by (rule coinbase_halves [OF c1])
  show "length (tx_script_sig (job_coinbase job bt coinbase_version extranonce outputs)) \<le> 100"
    using c1 by (auto simp: build_coinbase1_def Let_def kMaxScriptSig_def job_coinbase_def coinbase_of_def split: if_splits)
qed

lemma template_branch_hashes: "template_transactions reply bt txids datas \<Longrightarrow> hashes (bt_merkle_branch_internal bt)"
proof -
  assume tt: "template_transactions reply bt txids datas"
  then have "list_all2 (\<lambda>_ txid. length txid = 32) (reply_transactions reply) txids"
    unfolding template_transactions_def names_txid_def by (elim conjE) (erule list_all2_mono, blast)
  then have "hashes txids" by (auto simp: hashes_def list_all2_conv_all_nth list_all_length)
  then show ?thesis
    using tt merkle_branch_hashes [of zero_hash txids] by (simp add: template_transactions_def merkle_branch_def zero_hash_def)
qed

text \<open>The serialized block: header, transaction count, coinbase and the other transactions.\<close>

definition ser_coinbase :: "bytes option \<Rightarrow> coinbase_tx \<Rightarrow> bytes" where
  "ser_coinbase witness tx = (case witness of None \<Rightarrow> ser_legacy tx | Some item \<Rightarrow> ser_witness tx [item])"

definition ser_block :: "bytes \<Rightarrow> bytes list \<Rightarrow> bytes" where
  "ser_block header txs = header @ encode_varint (word_of_nat (length txs)) @ concat txs"

lemma build_block_hex_ser:
  assumes "j_coinbase_witness job = witness" "\<And>item. witness = Some item \<Longrightarrow> length item = 32"
    and "j_txn_data job = concat datas" "unat (j_txn_count job) = length datas" "j_txn_count job \<noteq> 0xffffffff"
  shows "build_block_hex job (ser_legacy tx) header = Inr (to_hex (ser_block header (ser_coinbase witness tx # datas)))"
proof -
  have "1 + j_txn_count job \<noteq> 0"
  proof
    assume "1 + j_txn_count job = 0"
    then have "j_txn_count job = - 1" by (simp add: eq_neg_iff_add_eq_0 add.commute)
    then show False using assms(5) by simp
  qed
  then have "unat (j_txn_count job + 1) = length datas + 1"
    using unatSuc [of "j_txn_count job"] assms(4) by (simp add: add.commute)
  then have "(ucast (j_txn_count job + 1) :: u64) = word_of_nat (length datas + 1)"
    using of_nat_unat [of "j_txn_count job + 1", where 'a = "64 word"] by simp
  then show ?thesis
    using assms(1-3) legacy_to_witness_ser
    by (cases witness) (simp_all add: build_block_hex_def ser_block_def ser_coinbase_def)
qed

text \<open>C1: from the reply of the node to the submitted block. A share that is accepted on a job made from a
  \<^verbatim>\<open>getblocktemplate\<close> reply stands for a block on the template's parent whose coinbase pushes the height, stays
  within the scriptSig limit and pays the job's outputs, whose merkle root covers that coinbase and all
  transactions of the template, and whose time is not before the template's; it is reported as a block exactly
  when its hash meets the network target, and the hex submitted then is the serialization of that block.\<close>

theorem solved_block_correct:
  assumes gbt: "from_gbt glz_read glz_write_json response = Inr bt"
    and job: "make_Job job_id bt tag (length (si_extranonce1 input)) e2 coinbase_version clean donation_script donation_percent = Inr job"
    and outputs: "payout_outputs job payout_script = Inr outputs"
    and c2: "Job_build_coinbase2 job payout_script = Inr (si_coinbase2 input)"
    and share: "validate_share job input = Inr r"
    and bounds: "bt_height bt < 2 ^ 63" "bt_txn_count bt \<noteq> 0xffffffff"
  shows "\<exists>reply txids datas extranonce2 ntime nonce version prevhash tx.
    glz_read response = Inr \<lparr>env_result = Some reply, env_error = JNull\<rparr> \<and> template_transactions reply bt txids datas
    \<and> tx = job_coinbase job bt coinbase_version (si_extranonce1 input @ extranonce2) outputs
    \<and> pushed_number (tx_script_sig tx) = bt_height bt \<and> length (tx_script_sig tx) \<le> 100
    \<and> from_hex (bt_previousblockhash bt) = Inr (rev prevhash) \<and> uint (bt_curtime bt) \<le> uint ntime
    \<and> sr_header r = ser_header version prevhash (merkle_root (sha256d (ser_legacy tx) # txids)) ntime (bt_bits bt) nonce
    \<and> (sr_is_block r \<longleftrightarrow> header_hash (sr_header r) \<le> target_from_compact (bt_bits bt))
    \<and> build_block_hex job (sr_legacy_coinbase r) (sr_header r) =
        Inr (to_hex (ser_block (sr_header r) (ser_coinbase (bt_coinbase_witness bt) tx # datas)))"
proof -
  obtain reply where reply: "glz_read response = Inr \<lparr>env_result = Some reply, env_error = JNull\<rparr>"
    "template_of_reply reply = Inr bt"
    using from_gbt_reply [OF gbt] by blast
  note fields = template_of_reply_ok [OF reply(2)]
  obtain txids datas where tt: "template_transactions reply bt txids datas" using fields(4) by blast
  note jt = make_Job_template(1) [OF job]
  have j: "wf_Job job" "hashes (j_merkle_branch job)" "j_merkle_branch job = bt_merkle_branch_internal bt" "j_bits job = bt_bits bt"
    "j_curtime job = bt_curtime bt" "j_extranonce2_size job = e2"
    using jt template_branch_hashes [OF tt] by (simp_all add: job_of_template_def)
  obtain extranonce2 ntime nonce version where sh: "length extranonce2 = e2" "ntime_in_range job ntime (si_now_unix input)"
    "verdict job (j_coinbase1 job @ si_extranonce1 input @ extranonce2 @ si_coinbase2 input)
       (share_header job (j_coinbase1 job @ si_extranonce1 input @ extranonce2 @ si_coinbase2 input) ntime nonce version)
       (si_share_target input) = Inr r"
    using validate_share_Inr [OF share j(1,2)] j(6) by metis
  define tx where "tx = job_coinbase job bt coinbase_version (si_extranonce1 input @ extranonce2) outputs"
  have coinbase: "j_coinbase1 job @ si_extranonce1 input @ extranonce2 @ si_coinbase2 input = ser_legacy tx"
    "length (tx_script_sig tx) \<le> 100"
    using job_coinbase_ser [OF jt _ outputs c2, of "si_extranonce1 input @ extranonce2"] sh(1) by (simp_all add: tx_def)
  have push: "pushed_number (tx_script_sig tx) = bt_height bt"
    using template_height_push [OF fields(1) bounds(1)] by (simp add: tx_def job_coinbase_def coinbase_of_def)
  have header: "share_header job (ser_legacy tx) ntime nonce version =
      ser_header version (j_prevhash_internal job) (merkle_root (sha256d (ser_legacy tx) # txids)) ntime (bt_bits bt) nonce"
    using template_merkle_root [OF tt, of "sha256d (ser_legacy tx)"] j(3,4) by (simp add: share_header_def length_sha256d)
  note v = sh(3) [unfolded coinbase(1) header verdict_Inr]
  have hex: "build_block_hex job (ser_legacy tx) header =
      Inr (to_hex (ser_block header (ser_coinbase (bt_coinbase_witness bt) tx # datas)))" for header
    using jt tt fields(2) bounds(2)
    by (intro build_block_hex_ser) (auto simp: job_of_template_def template_transactions_def template_commitment_def
        dest!: list_all2_lengthD split: option.splits list.splits)
  have "r = \<lparr>sr_difficulty = sr_difficulty r, sr_is_block = sr_is_block r, sr_header = sr_header r,
      sr_legacy_coinbase = ser_legacy tx, sr_block_hash_chars = sr_block_hash_chars r\<rparr>" using v by simp
  then show ?thesis
    using reply(1) tt push coinbase(2) jt v hex sh(2)
    by (intro exI [of _ reply] exI [of _ txids] exI [of _ datas] exI [of _ extranonce2] exI [of _ ntime] exI [of _ nonce]
        exI [of _ version] exI [of _ "j_prevhash_internal job"] exI [of _ tx])
      (simp add: tx_def job_of_template_def wf_Job_def ntime_in_range_def)
qed

lemma le_value_ff: "le_value (replicate n 0xff) + 1 = 256 ^ n"
  by (induction n) simp_all

lemma uint256_max: "h \<le> uint256_of_bytes (replicate 32 0xff)"
proof -
  have "uint256_value (uint256_of_bytes (replicate 32 0xff)) = le_value (replicate 32 0xff)"
    by (rule uint256_value_of_bytes) simp
  moreover have "(256 :: nat) ^ 32 = 2 ^ 256" by simp
  ultimately have "uint256_value (uint256_of_bytes (replicate 32 0xff)) + 1 = 2 ^ 256"
    using le_value_ff [of 32] by (simp only:)
  then have "uint256_value h \<le> uint256_value (uint256_of_bytes (replicate 32 0xff))"
    using uint256_value_less [of h] by (simp only: Suc_eq_plus1 [symmetric] less_Suc_eq_le [symmetric])
  then show ?thesis by (simp only: uint256_le_iff)
qed

lemma make_Job_exists:
  assumes "from_hex (bt_previousblockhash bt) = Inr bs" "length bs = 32" "bt_coinbase_script_sig_prefix bt \<noteq> []"
    and "length (bt_coinbase_script_sig_prefix bt) + (e1 + e2) + length tag \<le> 100"
  shows "\<exists>job. make_Job job_id bt tag e1 e2 coinbase_version clean donation_script donation_percent = Inr job"
proof -
  obtain c1 where "build_coinbase1 (bt_coinbase_script_sig_prefix bt) (e1 + e2) tag
      (case bt_coinbase_version bt of None \<Rightarrow> coinbase_version | Some v \<Rightarrow> v) = Inr c1"
    using assms(4) by (simp add: build_coinbase1_def kMaxScriptSig_def Let_def)
  moreover obtain ps where "prevhash_to_stratum (bt_previousblockhash bt) = Inr ps"
    using assms(1,2) by (simp add: prevhash_to_stratum_def reversed_rev Let_def)
  ultimately show ?thesis using assms(1,3) by (simp add: make_Job_def Let_def)
qed

lemma validate_share_exists:
  assumes "wf_Job job" "hashes (j_merkle_branch job)" "\<And>h. h \<le> si_share_target input"
    and "try_from_hex (si_extranonce2_hex input) = Some en" "length en = j_extranonce2_size job"
    and "length (si_extranonce2_hex input) = 2 * j_extranonce2_size job"
    and "try_parse_hex_u32 (si_ntime_hex input) = Some ntime" "ntime_in_range job ntime (si_now_unix input)"
    and "try_parse_hex_u32 (si_nonce_hex input) = Some nonce" "si_version_bits_hex input = None"
  shows "\<exists>r. validate_share job input = Inr r"
  using assms
  by (simp add: validate_share_def roll_version_def validate_header_verdict length_share_root verdict_def Let_def)

definition sample_input :: ShareInput where
  "sample_input = \<lparr>si_coinbase2 = build_coinbase2 [\<lparr>out_value = 5000000000, out_script = [0x51]\<rparr>]
      [\<lparr>out_value = 0, out_script = [0x6a, 0x24]\<rparr>] [0x2f] 0xffffffff 0,
    si_extranonce1 = replicate 4 1, si_extranonce2_hex = to_hex (replicate 4 2), si_ntime_hex = format_08x 1296688602,
    si_nonce_hex = format_08x 7, si_share_target = uint256_of_bytes (replicate 32 0xff), si_version_bits_hex = None,
    si_version_mask = 0, si_now_unix = 1296688602\<rparr>"

lemma sample_job_exists:
  assumes "template_of_reply sample_reply = Inr bt"
  shows "\<exists>job. make_Job job_id bt [0x2f] 4 4 1 clean donation_script donation_percent = Inr job"
proof -
  have "bt_previousblockhash bt = to_hex (replicate 32 0x0f)" "bt_coinbase_script_sig_prefix bt = [0x51]"
    using template_of_reply_ok(1) [OF assms]
    by (auto simp: template_fields_def sample_reply_def serialize_height_def simp del: to_hex_simps)
  then show ?thesis
    by (intro make_Job_exists [of bt "replicate 32 0x0f"]) (simp_all del: to_hex_simps)
qed

lemma sample_job:
  assumes "template_of_reply sample_reply = Inr bt"
  shows "\<exists>job r. make_Job ''1'' bt [0x2f] (length (si_extranonce1 sample_input)) 4 1 True [] (Finite 0) = Inr job
    \<and> payout_outputs job [0x51] = Inr [\<lparr>out_value = 5000000000, out_script = [0x51]\<rparr>]
    \<and> Job_build_coinbase2 job [0x51] = Inr (si_coinbase2 sample_input) \<and> validate_share job sample_input = Inr r"
proof -
  note ok = template_of_reply_ok [OF assms]
  have bt: "bt_previousblockhash bt = to_hex (replicate 32 0x0f)" "bt_coinbase_script_sig_prefix bt = [0x51]"
    "bt_coinbase_version bt = None" "bt_coinbase_value bt = 5000000000" "bt_coinbase_sequence bt = 0xffffffff"
    "bt_coinbase_lock_time bt = 0" "uint (bt_curtime bt) = 1296688602"
    using ok(1) by (auto simp: template_fields_def sample_reply_def serialize_height_def simp del: to_hex_simps)
  obtain c hex where hex: "to_hex [0x6a, 0x24] = c # hex" by (cases "to_hex [0x6a, 0x24]") simp_all
  then have "from_hex (c # hex) = Inr [0x6a, 0x24]" using from_hex_to_hex [of "[0x6a, 0x24]"] by (simp only:)
  then have req: "bt_coinbase_required_outputs bt = [\<lparr>out_value = 0, out_script = [0x6a, 0x24]\<rparr>]"
    using ok(2) by (simp add: template_commitment_def sample_reply_def hex del: to_hex_simps)
  obtain job where job: "make_Job ''1'' bt [0x2f] 4 4 1 True [] (Finite 0) = Inr job"
    using sample_job_exists [OF assms] by blast
  note jt = make_Job_template [OF job]
  have j: "j_donation_percent job = Finite 0" "j_coinbase_value job = 5000000000" "wf_Job job" "hashes (j_merkle_branch job)"
    "j_extranonce2_size job = 4" "uint (j_curtime job) = 1296688602"
    using jt bt ok(4) template_branch_hashes by (simp_all add: job_of_template_def) blast
  have out: "payout_outputs job [0x51] = Inr [\<lparr>out_value = 5000000000, out_script = [0x51]\<rparr>]"
    by (simp add: payout_outputs_def j)
  moreover have "Job_build_coinbase2 job [0x51] = Inr (si_coinbase2 sample_input)"
    using jt(1) bt req by (simp add: Job_build_coinbase2_def out sample_input_def job_of_template_def)
  moreover have "\<exists>r. validate_share job sample_input = Inr r"
    using j
    by (intro validate_share_exists [where en = "replicate 4 2" and ntime = 1296688602 and nonce = 7])
      (simp_all add: sample_input_def uint256_max ntime_in_range_def kNtimeSlack_def kNtimeSubmitMargin_def del: to_hex_simps)
  ultimately show ?thesis using job by (auto simp: sample_input_def)
qed


theorem solved_block_correct_witness:
  "\<exists>bt job r reply txids datas ntime nonce version prevhash tx.
    from_gbt (\<lambda>_. Inr \<lparr>env_result = Some sample_reply, env_error = JNull\<rparr>) (\<lambda>_. None) [] = Inr bt
    \<and> make_Job ''1'' bt [0x2f] (length (si_extranonce1 sample_input)) 4 1 True [] (Finite 0) = Inr job
    \<and> validate_share job sample_input = Inr r \<and> template_transactions reply bt txids datas
    \<and> sr_header r = ser_header version prevhash (merkle_root (sha256d (ser_legacy tx) # txids)) ntime (bt_bits bt) nonce
    \<and> build_block_hex job (sr_legacy_coinbase r) (sr_header r) =
        Inr (to_hex (ser_block (sr_header r) (ser_coinbase (bt_coinbase_witness bt) tx # datas)))"
proof -
  obtain bt where bt: "template_of_reply sample_reply = Inr bt" using sample_reply_accepted by blast
  then have gbt: "from_gbt (\<lambda>_. Inr \<lparr>env_result = Some sample_reply, env_error = JNull\<rparr>) (\<lambda>_. None) [] = Inr bt"
    by (simp add: from_gbt_def)
  obtain job r where job: "make_Job ''1'' bt [0x2f] (length (si_extranonce1 sample_input)) 4 1 True [] (Finite 0) = Inr job"
    "payout_outputs job [0x51] = Inr [\<lparr>out_value = 5000000000, out_script = [0x51]\<rparr>]"
    "Job_build_coinbase2 job [0x51] = Inr (si_coinbase2 sample_input)" "validate_share job sample_input = Inr r"
    using sample_job [OF bt] by blast
  have small: "bt_height bt < 2 ^ 63" "bt_txn_count bt \<noteq> 0xffffffff"
    using template_of_reply_ok(1,4) [OF bt]
    by (auto simp: template_fields_def template_transactions_def reply_transactions_def sample_reply_def list_all2_Cons1)
  from solved_block_correct [OF gbt job small] show ?thesis using gbt job by blast
qed

section \<open>The protocols agree\<close>

text \<open>C2: one share has one verdict. For the same extranonce, time, nonce, version and target, the validators
  of a Stratum V1 submission, of an extended channel and of a standard channel whose prefix is the whole
  extranonce accept or refuse alike, with the same header, coinbase and difficulty.\<close>

theorem protocols_agree:
  assumes "build_extended_work job payout_script = Inr work" and "length prefix + length rest = j_extranonce_size job"
    and "length rest = j_extranonce2_size job"
    and "version AND NOT version_mask = j_version job AND NOT version_mask"
  shows "\<exists>standard. build_standard_work job payout_script (prefix @ rest) = Inr standard
    \<and> validate_extended_share job work \<lparr>esi_extranonce_prefix = prefix, esi_extranonce = rest, esi_extranonce_size = length rest,
          esi_ntime = ntime, esi_nonce = nonce, esi_version = version, esi_version_mask = version_mask, esi_share_target = target,
          esi_now_unix = now\<rparr> =
        validate_share job \<lparr>si_coinbase2 = ew_coinbase_tx_suffix work, si_extranonce1 = prefix, si_extranonce2_hex = to_hex rest,
          si_ntime_hex = format_08x ntime, si_nonce_hex = format_08x nonce, si_share_target = target,
          si_version_bits_hex = Some (format_08x (version AND version_mask)), si_version_mask = version_mask, si_now_unix = now\<rparr>
    \<and> validate_standard_share job \<lparr>ssi_legacy_coinbase = sw_legacy_coinbase standard, ssi_merkle_root = sw_merkle_root standard,
          ssi_ntime = ntime, ssi_nonce = nonce, ssi_version = version, ssi_version_mask = version_mask, ssi_share_target = target,
          ssi_now_unix = now\<rparr> =
        validate_extended_share job work \<lparr>esi_extranonce_prefix = prefix, esi_extranonce = rest, esi_extranonce_size = length rest,
          esi_ntime = ntime, esi_nonce = nonce, esi_version = version, esi_version_mask = version_mask, esi_share_target = target,
          esi_now_unix = now\<rparr>"
proof -
  obtain c2 where c2: "Job_build_coinbase2 job payout_script = Inr c2"
    and work: "work = \<lparr>ew_coinbase_tx_prefix = j_coinbase1 job, ew_coinbase_tx_suffix = c2, ew_merkle_path = j_merkle_branch job\<rparr>"
    using assms(1) by (auto simp: build_extended_work_def result_simps)
  have rolled: "roll_version job (Some (format_08x (version AND version_mask))) version_mask = Inr version"
  proof -
    have "(version AND version_mask) AND NOT version_mask = 0" by (rule bit_eqI) (auto simp: bit_simps)
    moreover have "(version AND NOT version_mask) OR (version AND version_mask AND version_mask) = version"
      by (rule bit_eqI) (auto simp: bit_simps)
    ultimately show ?thesis using assms(4) by (cases "version_mask = 0") (simp_all add: roll_version_def)
  qed
  have split: "j_extranonce_size job - length prefix = length rest" "length prefix \<le> j_extranonce_size job"
    using assms(2) by simp_all
  show ?thesis
    using assms(2-4) split rolled
    by (simp add: work c2 build_standard_work_def validate_extended_share_def validate_standard_share_def validate_share_def Let_def
        mult.commute)
qed

theorem protocols_agree_witness:
  "\<exists>job work input. build_extended_work job [0x51] = Inr work
    \<and> validate_extended_share job work \<lparr>esi_extranonce_prefix = replicate 4 1, esi_extranonce = replicate 4 2,
          esi_extranonce_size = length (replicate 4 (2 :: u8)), esi_ntime = 5, esi_nonce = 6, esi_version = j_version job,
          esi_version_mask = 0x1fffe000, esi_share_target = uint256_zero, esi_now_unix = 0\<rparr> = validate_share job input"
proof -
  obtain bt where bt: "template_of_reply sample_reply = Inr bt" using sample_reply_accepted by blast
  obtain job r where job: "make_Job ''1'' bt [0x2f] (length (si_extranonce1 sample_input)) 4 1 True [] (Finite 0) = Inr job"
    "Job_build_coinbase2 job [0x51] = Inr (si_coinbase2 sample_input)"
    using sample_job [OF bt] by blast
  obtain work where work: "build_extended_work job [0x51] = Inr work" using job(2) by (simp add: build_extended_work_def)
  have "length (replicate 4 (1 :: u8)) + length (replicate 4 (2 :: u8)) = j_extranonce_size job"
    "length (replicate 4 (2 :: u8)) = j_extranonce2_size job"
    using make_Job_template(1) [OF job(1)] by (simp_all add: job_of_template_def sample_input_def)
  then show ?thesis using protocols_agree [OF work _ _ refl] work by blast
qed

end
