(* ===== verification/Work_Signature.thy ===== *)
theory Work_Signature
  imports Job
begin

text \<open>
  Two facts on \<^verbatim>\<open>src/src/stratum/job.cpp\<close> that the pool and the miners rely on: the previous hash announced in
  Stratum form determines the one in the header, and the work signature identifies the mining work.
\<close>

section \<open>The announced previous hash\<close>

fun swap_words :: "bytes \<Rightarrow> bytes" where
  "swap_words (a # b # c # d # rest) = d # c # b # a # swap_words rest"
| "swap_words rest = []"

lemma four_dvd_Suc: "4 dvd Suc (Suc (Suc (Suc n))) \<longleftrightarrow> 4 dvd n"
  by presburger

lemma swap_words_involution: "4 dvd length bs \<Longrightarrow> swap_words (swap_words bs) = bs"
  by (induction bs rule: swap_words.induct) (auto simp: four_dvd_Suc dest: dvd_imp_le)

lemma upt_32: "[0..<32] = [0, 1, 2, 3, 4, 5, 6, 7, 8, 9, 10, 11, 12, 13, 14, 15, 16, 17, 18, 19, 20, 21, 22, 23, 24, 25, 26,
    27, 28, 29, 30, 31]"
  by (simp add: upt_rec)

lemma stratum_words:
  assumes "length bs = 32"
  shows "concat (map (\<lambda>word. map (\<lambda>byte. bs ! (word + byte)) [3, 2, 1, 0]) [0, 4, 8, 12, 16, 20, 24, 28]) = swap_words bs"
proof -
  have "bs = map (nth bs) [0..<32]" using assms by (metis map_nth)
  then have "swap_words bs = swap_words (map (nth bs) [0..<32])" by (rule arg_cong)
  then show ?thesis by (simp add: upt_32 numeral_2_eq_2 [symmetric])
qed

lemma prevhash_to_stratum_swap:
  assumes "prevhash_to_stratum display_hex = Inr s" "from_hex display_hex = Inr bs"
  shows "s = to_hex (swap_words (rev bs))" "length bs = 32"
  using assms stratum_words [of "rev bs"] by (auto simp: prevhash_to_stratum_def Let_def reversed_rev split: if_splits)

lemma make_Job_prevhash:
  assumes "make_Job job_id bt tag e1 e2 coinbase_version clean donation_script donation_percent = Inr job"
  shows "j_prevhash_stratum job = to_hex (swap_words (j_prevhash_internal job))" "length (j_prevhash_internal job) = 32"
  using assms prevhash_to_stratum_swap
  by (auto simp: make_Job_def Let_def result_simps reversed_rev split: if_splits dest: prevhash_to_stratum_swap)

text \<open>The previous hash of a job's notification, decoded and read with every four-byte word reversed as a
  miner does, is the previous hash of the header that the pool checks shares against.\<close>

theorem prevhash_notified:
  assumes "make_Job job_id bt tag e1 e2 coinbase_version clean donation_script donation_percent = Inr job"
  shows "\<exists>announced. from_hex (j_prevhash_stratum job) = Inr announced \<and> swap_words announced = j_prevhash_internal job
    \<and> from_hex (bt_previousblockhash bt) = Inr (rev (swap_words announced))"
  using make_Job_prevhash [OF assms] make_Job_template(1) [OF assms]
  by (simp add: swap_words_involution job_of_template_def)

theorem prevhash_notified_witness:
  "\<exists>bt job announced. make_Job ''1'' bt [0x2f] 4 4 1 True [] (Finite 0) = Inr job
    \<and> from_hex (j_prevhash_stratum job) = Inr announced \<and> swap_words announced = j_prevhash_internal job"
proof -
  obtain bt where bt: "template_of_reply sample_reply = Inr bt" using sample_reply_accepted by blast
  obtain job where job: "make_Job ''1'' bt [0x2f] 4 4 1 True [] (Finite 0) = Inr job" using sample_job_exists [OF bt] by blast
  then show ?thesis using prevhash_notified [OF job] by blast
qed

section \<open>The work signature\<close>

definition joined :: "string list \<Rightarrow> string" where
  "joined fs = concat (map (\<lambda>field. CHR ''|'' # field) fs)"

definition unbarred :: "string \<Rightarrow> bool" where
  "unbarred s \<longleftrightarrow> CHR ''|'' \<notin> set s"

lemma takeWhile_joined: "unbarred f \<Longrightarrow> takeWhile (\<lambda>c. c \<noteq> CHR ''|'') (f @ joined fs) = f"
proof -
  assume f: "unbarred f"
  then have "\<forall>c \<in> set f. c \<noteq> CHR ''|''" by (auto simp: unbarred_def)
  then have "takeWhile (\<lambda>c. c \<noteq> CHR ''|'') (f @ joined fs) = f @ takeWhile (\<lambda>c. c \<noteq> CHR ''|'') (joined fs)"
    by (simp add: takeWhile_append2)
  also have "takeWhile (\<lambda>c. c \<noteq> CHR ''|'') (joined fs) = []" by (cases fs) (simp_all add: joined_def)
  finally show ?thesis by simp
qed

lemma joined_inject:
  assumes "f @ joined fs = g @ joined gs" "unbarred f" "unbarred g" "list_all unbarred fs" "list_all unbarred gs"
  shows "f = g" "fs = gs"
proof -
  show "f = g" using assms(1-3) takeWhile_joined by metis
  then have "joined fs = joined gs" using assms(1) by simp
  then show "fs = gs" using assms(4,5)
  proof (induction fs arbitrary: gs)
    case Nil
    then show ?case by (cases gs) (simp_all add: joined_def)
  next
    case (Cons a fs)
    then obtain b gs' where gs: "gs = b # gs'" by (cases gs) (simp_all add: joined_def)
    then have eq: "a @ joined fs = b @ joined gs'" using Cons.prems(1) by (simp add: joined_def)
    then have "a = b"
      using Cons.prems(2,3) gs takeWhile_joined [of a fs] takeWhile_joined [of b gs'] by simp
    then show ?case using Cons gs eq by simp
  qed
qed

lemma hex_chars: "c \<in> set (to_hex bs) \<Longrightarrow> c \<in> set kHexChars"
proof -
  have "length kHexChars = 16" by (simp add: kHexChars_def)
  then have "kHexChars ! unat (drop_bit 4 b) \<in> set kHexChars" "kHexChars ! unat (b AND 15) \<in> set kHexChars" for b :: u8
    using unat_nibbles [of b] nth_mem by metis+
  then show "c \<in> set (to_hex bs) \<Longrightarrow> c \<in> set kHexChars"
    by (auto simp: to_hex_def)
qed

lemma to_hex_clean [simp]: "unbarred (to_hex bs)" "CHR '':'' \<notin> set (to_hex bs)"
  using hex_chars [of "CHR ''|''" bs] hex_chars [of "CHR '':''" bs] by (auto simp: unbarred_def kHexChars_def)

lemma to_decimal_clean [simp]: "unbarred (to_decimal n)" "CHR '':'' \<notin> set (to_decimal n)"
  using to_decimal_correct(2) [of n] by (auto simp: unbarred_def list_all_iff is_digit_def)

lemma to_hex_inject: "to_hex a = to_hex b \<longleftrightarrow> a = b"
  using try_from_hex_to_hex by (metis option.inject)

text \<open>The fields of a signature, with the optional ones told apart by the colon of an output.\<close>

definition output_field :: "CoinbaseOutput \<Rightarrow> string" where
  "output_field output = to_decimal (unat (out_value output)) @ CHR '':'' # to_hex (out_script output)"

lemma output_field_clean [simp]: "unbarred (output_field output)" "CHR '':'' \<in> set (output_field output)"
  using to_decimal_clean(1) [of "unat (out_value output)"] to_hex_clean(1) [of "out_script output"]
  by (auto simp: output_field_def unbarred_def)

lemma output_field_inject: "output_field a = output_field b \<Longrightarrow> a = b"
proof -
  assume eq: "output_field a = output_field b"
  have split: "takeWhile (\<lambda>c. c \<noteq> CHR '':'') (to_decimal n @ CHR '':'' # h) = to_decimal n" for n h
    using to_decimal_clean(2) [of n] by (subst takeWhile_append2) auto
  have "to_decimal (unat (out_value a)) = to_decimal (unat (out_value b))"
    using eq split unfolding output_field_def by metis
  then have "out_value a = out_value b" "out_script a = out_script b"
    using eq by (auto simp: output_field_def to_decimal_inject to_hex_inject word_unat_eq_iff)
  then show "a = b" by (cases a; cases b) simp
qed

definition optional_fields :: "bytes option \<Rightarrow> CoinbaseOutput list \<Rightarrow> Hash256 list \<Rightarrow> string list" where
  "optional_fields witness outputs branch =
    (case witness of None \<Rightarrow> [] | Some item \<Rightarrow> [to_hex item]) @ map output_field outputs @ map to_hex branch"

lemma optional_fields_inject:
  assumes "optional_fields w1 o1 b1 = optional_fields w2 o2 b2" "w1 \<noteq> None \<Longrightarrow> o1 \<noteq> []" "w2 \<noteq> None \<Longrightarrow> o2 \<noteq> []"
  shows "w1 = w2 \<and> o1 = o2 \<and> b1 = b2"
proof -
  let ?colon = "\<lambda>s. CHR '':'' \<in> set s"
  have outs: "filter ?colon (optional_fields w os b) = map output_field os" for w os b
    by (cases w) (simp_all add: optional_fields_def filter_map o_def)
  have before: "takeWhile (\<lambda>s. \<not> ?colon s) (optional_fields w os b) = (case w of None \<Rightarrow> [] | Some item \<Rightarrow> [to_hex item])"
    if "os \<noteq> []" for w os b
    using that by (cases os; cases w) (simp_all add: optional_fields_def)
  have "map output_field o1 = map output_field o2" using outs assms(1) by metis
  then have o: "o1 = o2" using output_field_inject by (metis inj_onI inj_map_eq_map)
  have w: "w1 = w2"
  proof (cases "o1 = []")
    case False
    then have "(case w1 of None \<Rightarrow> [] | Some item \<Rightarrow> [to_hex item]) = (case w2 of None \<Rightarrow> [] | Some item \<Rightarrow> [to_hex item])"
      using before [of o1 w1 b1] before [of o2 w2 b2] o assms(1) by simp
    then show ?thesis by (auto simp: to_hex_inject split: option.splits)
  qed (use assms(2,3) o in \<open>cases w1; cases w2; simp\<close>)
  then have "map to_hex b1 = map to_hex b2" using assms(1) o by (simp add: optional_fields_def)
  then have "b1 = b2" using to_hex_inject by (metis injI inj_map_eq_map)
  then show ?thesis using o w by simp
qed

lemma optional_fields_joined:
  "(case w of None \<Rightarrow> [] | Some witness \<Rightarrow> CHR ''|'' # to_hex witness) @ concat (map output_signature os)
    @ concat (map (\<lambda>branch. CHR ''|'' # branch) (map to_hex b)) = joined (optional_fields w os b)"
  by (cases w) (simp_all add: joined_def optional_fields_def output_signature_def [abs_def] output_field_def o_def)

lemma optional_fields_clean: "list_all unbarred (optional_fields w os b)"
  by (cases w) (auto simp: optional_fields_def list_all_iff)

lemma joined_Cons: "joined (f # fs) = CHR ''|'' # f @ joined fs"
  by (simp add: joined_def)

lemma hex_digits_clean: "try_parse_hex_u32 hex = Some v \<Longrightarrow> unbarred hex"
proof -
  have bar: "kHexTable (CHR ''|'') < 0" by code_simp
  have "hex_u32_loop w hex = Some v \<Longrightarrow> unbarred hex" for w
    using bar by (induction w hex rule: hex_u32_loop.induct) (auto simp: unbarred_def Let_def split: if_splits)
  then show "try_parse_hex_u32 hex = Some v \<Longrightarrow> unbarred hex"
    by (auto simp: try_parse_hex_u32_def split: if_splits)
qed

text \<open>What the signature relies on in a template: the hexadecimal target is that of the header, and a coinbase
  witness comes with the commitment output, as in every template made from a \<^verbatim>\<open>getblocktemplate\<close> reply.\<close>

definition signable :: "BlockTemplate \<Rightarrow> bool" where
  "signable bt \<longleftrightarrow> try_parse_hex_u32 (bt_bits_hex bt) = Some (bt_bits bt)
    \<and> (bt_coinbase_witness bt \<noteq> None \<longrightarrow> bt_coinbase_required_outputs bt \<noteq> [])"

lemma template_signable: "template_of_reply reply = Inr bt \<Longrightarrow> signable bt"
  using template_of_reply_ok(1,2) [of reply bt]
  by (auto simp: signable_def template_fields_def template_commitment_def parse_hex_u32_def split: option.splits list.splits)

definition signature_fields :: "Job \<Rightarrow> string \<Rightarrow> string list" where
  "signature_fields job bits_hex =
    [format_08x (j_version job), bits_hex, format_08x (j_curtime job), to_hex (j_coinbase1 job), to_hex (j_tag job),
      to_decimal (unat (j_coinbase_value job)), to_decimal (unat (j_coinbase_sequence job)),
      to_decimal (unat (j_coinbase_lock_time job))]
    @ optional_fields (j_coinbase_witness job) (j_coinbase_required_outputs job) (j_merkle_branch job)"

lemma make_work_signature_fields:
  "make_work_signature prev v n t c tag cv sq lt w os (map to_hex b) =
    prev @ joined ([v, n, t, c, to_hex tag, to_decimal (unat cv), to_decimal (unat sq), to_decimal (unat lt)] @ optional_fields w os b)"
  unfolding make_work_signature_def optional_fields_joined by (simp add: joined_Cons)

lemma make_Job_signature:
  assumes "make_Job job_id bt tag e1 e2 coinbase_version clean donation_script donation_percent = Inr job"
  shows "j_work_signature job = to_hex (swap_words (j_prevhash_internal job)) @ joined (signature_fields job (bt_bits_hex bt))"
  using assms make_Job_prevhash(1) [OF assms]
  by (auto simp: make_Job_def Let_def result_simps make_work_signature_fields signature_fields_def split: if_splits
      simp del: map_map append.simps)

lemma signature_fields_clean: "unbarred bits_hex \<Longrightarrow> list_all unbarred (signature_fields job bits_hex)"
  by (simp add: signature_fields_def optional_fields_clean format_08x_def)

lemma format_08x_inject: "format_08x a = format_08x b \<longleftrightarrow> a = b"
  using try_parse_format_08x by (metis option.inject)

lemma same_signature:
  assumes "make_Job id1 bt1 tag1 e1 e2 v1 clean1 ds1 dp1 = Inr job1" "make_Job id2 bt2 tag2 f1 f2 v2 clean2 ds2 dp2 = Inr job2"
    and "signable bt1" "signable bt2" and "j_work_signature job1 = j_work_signature job2"
  shows "j_prevhash_internal job1 = j_prevhash_internal job2 \<and> j_version job1 = j_version job2 \<and> j_bits job1 = j_bits job2
    \<and> j_curtime job1 = j_curtime job2 \<and> j_coinbase1 job1 = j_coinbase1 job2 \<and> j_tag job1 = j_tag job2
    \<and> j_coinbase_value job1 = j_coinbase_value job2 \<and> j_coinbase_sequence job1 = j_coinbase_sequence job2
    \<and> j_coinbase_lock_time job1 = j_coinbase_lock_time job2 \<and> j_coinbase_witness job1 = j_coinbase_witness job2
    \<and> j_coinbase_required_outputs job1 = j_coinbase_required_outputs job2 \<and> j_merkle_branch job1 = j_merkle_branch job2"
proof -
  have clean: "unbarred (bt_bits_hex bt1)" "unbarred (bt_bits_hex bt2)"
    using assms(3,4) hex_digits_clean by (auto simp: signable_def)
  note inj = joined_inject [OF assms(5) [unfolded make_Job_signature [OF assms(1)] make_Job_signature [OF assms(2)]]
      to_hex_clean(1) to_hex_clean(1) signature_fields_clean [OF clean(1)] signature_fields_clean [OF clean(2)]]
  have core: "format_08x (j_version job1) = format_08x (j_version job2)" "bt_bits_hex bt1 = bt_bits_hex bt2"
    "format_08x (j_curtime job1) = format_08x (j_curtime job2)" "to_hex (j_coinbase1 job1) = to_hex (j_coinbase1 job2)"
    "to_hex (j_tag job1) = to_hex (j_tag job2)" "to_decimal (unat (j_coinbase_value job1)) = to_decimal (unat (j_coinbase_value job2))"
    "to_decimal (unat (j_coinbase_sequence job1)) = to_decimal (unat (j_coinbase_sequence job2))"
    "to_decimal (unat (j_coinbase_lock_time job1)) = to_decimal (unat (j_coinbase_lock_time job2))"
    and rest: "optional_fields (j_coinbase_witness job1) (j_coinbase_required_outputs job1) (j_merkle_branch job1) =
      optional_fields (j_coinbase_witness job2) (j_coinbase_required_outputs job2) (j_merkle_branch job2)"
    using inj(2) by (simp_all add: signature_fields_def)
  note jt = make_Job_template(1) [OF assms(1)] make_Job_template(1) [OF assms(2)]
  have opt: "j_coinbase_witness job1 = j_coinbase_witness job2 \<and> j_coinbase_required_outputs job1 = j_coinbase_required_outputs job2
      \<and> j_merkle_branch job1 = j_merkle_branch job2"
    using rest assms(3,4) jt by (intro optional_fields_inject) (auto simp: signable_def job_of_template_def)
  have bits: "j_bits job1 = j_bits job2" using core(2) assms(3,4) jt by (simp add: signable_def job_of_template_def)
  have "swap_words (swap_words (j_prevhash_internal job1)) = swap_words (swap_words (j_prevhash_internal job2))"
    using inj(1) by (simp only: to_hex_inject)
  then have "j_prevhash_internal job1 = j_prevhash_internal job2"
    using make_Job_prevhash(2) [OF assms(1)] make_Job_prevhash(2) [OF assms(2)] by (simp add: swap_words_involution)
  then show ?thesis
    using core opt bits by (simp add: to_hex_inject to_decimal_inject format_08x_inject word_unat_eq_iff)
qed



end
