(* ===== verification/Mining_Ipc.thy ===== *)
theory Mining_Ipc
  imports Job
begin

text \<open>
  \<^verbatim>\<open>src/src/bitcoin/mining_ipc_client.cpp\<close>: a block template from the block that the node serves over its Mining
  IPC interface. The parser steps over the node's own coinbase transaction and keeps the rest; it is shown to
  find exactly the transactions of any serialized block.
\<close>

definition kMaxMoney :: u64 where
  "kMaxMoney = 2100000000000000"

record Cursor =
  cur_bytes :: bytes
  cur_offset :: nat

definition Cursor_init :: "bytes \<Rightarrow> Cursor" where
  "Cursor_init bs = \<lparr>cur_bytes = bs, cur_offset = 0\<rparr>"

definition cursor_remaining :: "Cursor \<Rightarrow> nat" where
  "cursor_remaining cursor = length (cur_bytes cursor) - cur_offset cursor"

definition cursor_peek :: "Cursor \<Rightarrow> nat \<Rightarrow> u8 result" where
  "cursor_peek cursor lookahead =
    (if lookahead \<ge> cursor_remaining cursor then Inl (Invalid_argument ''IPC serialization is truncated'')
     else Inr (cur_bytes cursor ! (cur_offset cursor + lookahead)))"

definition cursor_take :: "Cursor \<Rightarrow> nat \<Rightarrow> (bytes \<times> Cursor) result" where
  "cursor_take cursor count =
    (if count > cursor_remaining cursor then Inl (Invalid_argument ''IPC serialization is truncated'')
     else Inr (take count (drop (cur_offset cursor) (cur_bytes cursor)), cursor\<lparr>cur_offset := cur_offset cursor + count\<rparr>))"

definition cursor_skip :: "Cursor \<Rightarrow> nat \<Rightarrow> Cursor result" where
  "cursor_skip cursor count = bindE (cursor_take cursor count) (\<lambda>(_, cursor). Inr cursor)"

definition compact_size :: "Cursor \<Rightarrow> (u64 \<times> Cursor) result" where
  "compact_size cursor =
    bindE (decode_varint (drop (cur_offset cursor) (cur_bytes cursor))) (\<lambda>decoded.
      if (varint_size decoded = 3 \<and> varint_value decoded < 0xfd)
        \<or> (varint_size decoded = 5 \<and> varint_value decoded \<le> 0xffff)
        \<or> (varint_size decoded = 9 \<and> varint_value decoded \<le> 0xffffffff)
      then Inl (Invalid_argument ''IPC serialization contains a non-canonical CompactSize'')
      else Inr (varint_value decoded, cursor\<lparr>cur_offset := cur_offset cursor + varint_size decoded\<rparr>))"

definition skip_compact_bytes :: "Cursor \<Rightarrow> Cursor result" where
  "skip_compact_bytes cursor =
    bindE (compact_size cursor) (\<lambda>(size, cursor).
      if unat size > cursor_remaining cursor
      then Inl (Invalid_argument ''IPC serialization contains a truncated byte array'')
      else cursor_skip cursor (unat size))"

text \<open>The counted loops of \<^verbatim>\<open>skip_transaction\<close>.\<close>

fun skip_inputs :: "nat \<Rightarrow> Cursor \<Rightarrow> Cursor result" where
  "skip_inputs 0 cursor = Inr cursor"
| "skip_inputs (Suc n) cursor =
    bindE (cursor_skip cursor 36) (\<lambda>cursor.
    bindE (skip_compact_bytes cursor) (\<lambda>cursor.
    bindE (cursor_skip cursor 4) (\<lambda>cursor. skip_inputs n cursor)))"

fun skip_outputs :: "nat \<Rightarrow> Cursor \<Rightarrow> Cursor result" where
  "skip_outputs 0 cursor = Inr cursor"
| "skip_outputs (Suc n) cursor =
    bindE (cursor_skip cursor 8) (\<lambda>cursor.
    bindE (skip_compact_bytes cursor) (\<lambda>cursor. skip_outputs n cursor))"

fun skip_items :: "nat \<Rightarrow> Cursor \<Rightarrow> Cursor result" where
  "skip_items 0 cursor = Inr cursor"
| "skip_items (Suc n) cursor = bindE (skip_compact_bytes cursor) (\<lambda>cursor. skip_items n cursor)"

fun skip_witnesses :: "nat \<Rightarrow> Cursor \<Rightarrow> Cursor result" where
  "skip_witnesses 0 cursor = Inr cursor"
| "skip_witnesses (Suc n) cursor =
    bindE (compact_size cursor) (\<lambda>(item_count, cursor).
    bindE (skip_items (unat item_count) cursor) (\<lambda>cursor. skip_witnesses n cursor))"

definition witness_flag :: "Cursor \<Rightarrow> (bool \<times> Cursor) result" where
  "witness_flag cursor =
    bindE (cursor_peek cursor 0) (\<lambda>marker.
      if marker = 0 then
        bindE (cursor_peek cursor 1) (\<lambda>flags.
          if flags \<noteq> 0 then
            if flags \<noteq> 1 then Inl (Invalid_argument ''IPC block transaction has unsupported witness flags'')
            else bindE (cursor_skip cursor 2) (\<lambda>cursor. Inr (True, cursor))
          else Inr (False, cursor))
      else Inr (False, cursor))"

definition skip_transaction :: "Cursor \<Rightarrow> Cursor result" where
  "skip_transaction cursor =
    bindE (cursor_skip cursor 4) (\<lambda>cursor.
    bindE (witness_flag cursor) (\<lambda>(has_witness, cursor).
    bindE (compact_size cursor) (\<lambda>(input_count, cursor).
      if input_count = 0 then Inl (Invalid_argument ''IPC block transaction has no inputs'')
      else
        bindE (skip_inputs (unat input_count) cursor) (\<lambda>cursor.
        bindE (compact_size cursor) (\<lambda>(output_count, cursor).
        bindE (skip_outputs (unat output_count) cursor) (\<lambda>cursor.
        bindE (if has_witness then skip_witnesses (unat input_count) cursor else Inr cursor) (\<lambda>cursor.
          cursor_skip cursor 4)))))))"

definition fill_header_fields :: "BlockTemplate \<Rightarrow> bytes \<Rightarrow> BlockTemplate result" where
  "fill_header_fields bt header =
    (if length header \<noteq> kHeaderSize then Inl (Invalid_argument ''IPC block header must be exactly 80 bytes'')
     else Inr (bt
       \<lparr>bt_version := read_le32 (drop kVersionOffset header), bt_curtime := read_le32 (drop kTimeOffset header),
        bt_bits := read_le32 (drop kBitsOffset header), bt_bits_hex := to_hex_reversed (take 4 (drop kBitsOffset header)),
        bt_previousblockhash := to_hex_reversed (take (kMerkleOffset - kPrevhashOffset) (drop kPrevhashOffset header))\<rparr>))"

definition parse_coinbase_output :: "bytes \<Rightarrow> CoinbaseOutput result" where
  "parse_coinbase_output serialized =
    bindE (cursor_take (Cursor_init serialized) 8) (\<lambda>(value_bytes, cursor).
      let val = read_le64 value_bytes
      in if val > kMaxMoney then Inl (Invalid_argument ''IPC required coinbase output value is out of range'')
      else bindE (compact_size cursor) (\<lambda>(script_size, cursor).
        if unat script_size > cursor_remaining cursor
        then Inl (Invalid_argument ''IPC required coinbase output script is truncated'')
        else bindE (cursor_take cursor (unat script_size)) (\<lambda>(script, cursor).
          if cursor_remaining cursor \<noteq> 0 then Inl (Invalid_argument ''IPC required coinbase output has trailing data'')
          else Inr \<lparr>out_value = val, out_script = script\<rparr>)))"

definition fill_block_fields :: "BlockTemplate \<Rightarrow> bytes \<Rightarrow> BlockTemplate result" where
  "fill_block_fields bt block =
    (if length block \<le> kHeaderSize then Inl (Invalid_argument ''IPC block is missing its transaction count'')
     else bindE (fill_header_fields bt (take kHeaderSize block)) (\<lambda>bt.
       bindE (compact_size (Cursor_init (drop kHeaderSize block))) (\<lambda>(total_transactions, cursor).
         if total_transactions = 0 then Inl (Invalid_argument ''IPC block contains no coinbase transaction'')
         else if total_transactions > 0xffffffff then Inl (Invalid_argument ''IPC block contains too many transactions'')
         else bindE (skip_transaction cursor) (\<lambda>cursor.
           let transaction_data_offset = kHeaderSize + cur_offset cursor
           in Inr (bt\<lparr>bt_txn_count := ucast (total_transactions - 1),
                     bt_txn_data := drop transaction_data_offset block\<rparr>)))))"

section \<open>The cursor as the bytes still ahead\<close>

definition ahead :: "Cursor \<Rightarrow> bytes" where
  "ahead cursor = drop (cur_offset cursor) (cur_bytes cursor)"

text \<open>A parser consumes the serialization \<open>bs\<close> when it succeeds with the rest ahead, wherever it stands.\<close>

definition stands :: "bytes \<Rightarrow> bytes \<Rightarrow> Cursor \<Rightarrow> bool" where
  "stands whole bs cursor \<longleftrightarrow> cur_bytes cursor = whole \<and> cur_offset cursor \<le> length whole \<and> ahead cursor = bs"

lemma stands_init: "stands bs bs (Cursor_init bs)"
  by (simp add: stands_def ahead_def Cursor_init_def)

lemma stands_remaining: "stands whole bs cursor \<Longrightarrow> cursor_remaining cursor = length bs"
  by (auto simp: stands_def ahead_def cursor_remaining_def)

lemma stands_append: "stands whole (xs @ ys) cursor \<Longrightarrow> stands whole ys (cursor\<lparr>cur_offset := cur_offset cursor + length xs\<rparr>)"
proof -
  assume at: "stands whole (xs @ ys) cursor"
  then have "drop (cur_offset cursor) whole = xs @ ys" "cur_bytes cursor = whole" "cur_offset cursor \<le> length whole"
    by (auto simp: stands_def ahead_def)
  then have "drop (cur_offset cursor + length xs) whole = ys" "cur_offset cursor + length xs \<le> length whole"
    using length_drop [of "cur_offset cursor" whole] by (simp_all add: add.commute [of _ "length xs"] flip: drop_drop)
  then show ?thesis using at by (simp add: stands_def ahead_def)
qed

definition consumes :: "(Cursor \<Rightarrow> Cursor result) \<Rightarrow> bytes \<Rightarrow> bool" where
  "consumes p bs \<longleftrightarrow>
    (\<forall>whole rest cursor. stands whole (bs @ rest) cursor \<longrightarrow> (\<exists>cursor'. p cursor = Inr cursor' \<and> stands whole rest cursor'))"

definition reads :: "(Cursor \<Rightarrow> ('a \<times> Cursor) result) \<Rightarrow> bytes \<Rightarrow> 'a \<Rightarrow> bool" where
  "reads p bs v \<longleftrightarrow>
    (\<forall>whole rest cursor. stands whole (bs @ rest) cursor \<longrightarrow> (\<exists>cursor'. p cursor = Inr (v, cursor') \<and> stands whole rest cursor'))"

lemma consumes_Inr: "consumes Inr []"
  by (simp add: consumes_def)

lemma consumes_bind: "consumes p xs \<Longrightarrow> consumes q ys \<Longrightarrow> consumes (\<lambda>cursor. bindE (p cursor) q) (xs @ ys)"
  unfolding consumes_def by (metis append_assoc bindE.simps(2))

lemma reads_bind: "reads p xs v \<Longrightarrow> consumes (q v) ys \<Longrightarrow> consumes (\<lambda>cursor. bindE (p cursor) (\<lambda>(v, cursor). q v cursor)) (xs @ ys)"
  unfolding consumes_def reads_def by (metis append_assoc bindE.simps(2) case_prod_conv)

lemma take_reads: "length xs = n \<Longrightarrow> reads (\<lambda>cursor. cursor_take cursor n) xs xs"
  using stands_append stands_remaining by (fastforce simp: reads_def cursor_take_def stands_def ahead_def)

lemma skip_consumes: "length xs = n \<Longrightarrow> consumes (\<lambda>cursor. cursor_skip cursor n) xs"
  using take_reads [of xs n] by (fastforce simp: reads_def consumes_def cursor_skip_def)

lemma compact_size_reads: "reads compact_size (encode_varint n) n"
proof -
  have canonical: "\<not> ((length (encode_varint n) = 3 \<and> n < 0xfd) \<or> (length (encode_varint n) = 5 \<and> n \<le> 0xffff)
      \<or> (length (encode_varint n) = 9 \<and> n \<le> 0xffffffff))"
    by (auto simp: length_encode_varint word_less_nat_alt word_le_nat_alt split: if_splits)
  show ?thesis
    unfolding reads_def
  proof (intro allI impI)
    fix whole rest cursor
    assume at: "stands whole (encode_varint n @ rest) cursor"
    then have "drop (cur_offset cursor) (cur_bytes cursor) = encode_varint n @ rest" by (auto simp: stands_def ahead_def)
    then show "\<exists>cursor'. compact_size cursor = Inr (n, cursor') \<and> stands whole rest cursor'"
      using canonical stands_append [OF at] by (simp add: compact_size_def decode_encode_varint)
  qed
qed

definition sized :: "'a list \<Rightarrow> bool" where
  "sized xs \<longleftrightarrow> length xs < 2 ^ 64"

lemma unat_sized: "sized xs \<Longrightarrow> unat (word_of_nat (length xs) :: u64) = length xs"
  by (simp add: sized_def unat_of_nat take_bit_nat_eq_self)

lemma skip_compact_bytes_consumes: "sized bs \<Longrightarrow> consumes skip_compact_bytes (ser_bytes bs)"
  unfolding consumes_def
proof (intro allI impI)
  fix whole rest cursor
  assume bs: "sized bs" and at: "stands whole (ser_bytes bs @ rest) cursor"
  obtain c where c: "compact_size cursor = Inr (word_of_nat (length bs), c)" "stands whole (bs @ rest) c"
    using compact_size_reads at unfolding reads_def ser_bytes_def by (metis append_assoc)
  obtain c' where "cursor_skip c (length bs) = Inr c'" "stands whole rest c'"
    using skip_consumes [OF refl] c(2) unfolding consumes_def by blast
  then show "\<exists>cursor'. skip_compact_bytes cursor = Inr cursor' \<and> stands whole rest cursor'"
    using c stands_remaining [OF c(2)] bs by (simp add: skip_compact_bytes_def unat_sized)
qed

section \<open>Transactions\<close>

record tx_input =
  in_prevout :: bytes
  in_script :: bytes
  in_sequence :: u32

record transaction =
  txn_version :: u32
  txn_inputs :: "tx_input list"
  txn_outputs :: "CoinbaseOutput list"
  txn_witness :: "bytes list list option"
  txn_lock_time :: u32

definition ser_input :: "tx_input \<Rightarrow> bytes" where
  "ser_input i = in_prevout i @ ser_bytes (in_script i) @ write_le32 (in_sequence i)"

definition ser_items :: "bytes list \<Rightarrow> bytes" where
  "ser_items items = encode_varint (word_of_nat (length items)) @ concat (map ser_bytes items)"

definition ser_transaction :: "transaction \<Rightarrow> bytes" where
  "ser_transaction tx = write_le32 (txn_version tx) @ (case txn_witness tx of None \<Rightarrow> [] | Some _ \<Rightarrow> [0x00, 0x01])
    @ encode_varint (word_of_nat (length (txn_inputs tx))) @ concat (map ser_input (txn_inputs tx))
    @ encode_varint (word_of_nat (length (txn_outputs tx))) @ concat (map ser_output (txn_outputs tx))
    @ (case txn_witness tx of None \<Rightarrow> [] | Some stacks \<Rightarrow> concat (map ser_items stacks)) @ write_le32 (txn_lock_time tx)"

definition wf_transaction :: "transaction \<Rightarrow> bool" where
  "wf_transaction tx \<longleftrightarrow> txn_inputs tx \<noteq> [] \<and> sized (txn_inputs tx) \<and> sized (txn_outputs tx)
    \<and> list_all (\<lambda>i. length (in_prevout i) = 36 \<and> sized (in_script i)) (txn_inputs tx)
    \<and> list_all (\<lambda>out. sized (out_script out)) (txn_outputs tx)
    \<and> (case txn_witness tx of None \<Rightarrow> True
       | Some stacks \<Rightarrow> length stacks = length (txn_inputs tx) \<and> list_all (\<lambda>items. sized items \<and> list_all sized items) stacks)"

lemma skip_inputs_consumes:
  "list_all (\<lambda>i. length (in_prevout i) = 36 \<and> sized (in_script i)) ins \<Longrightarrow>
    consumes (skip_inputs (length ins)) (concat (map ser_input ins))"
proof (induction ins)
  case (Cons i ins)
  have "consumes (\<lambda>cursor. bindE (cursor_skip cursor 36) (\<lambda>cursor. bindE (skip_compact_bytes cursor) (\<lambda>cursor.
      bindE (cursor_skip cursor 4) (skip_inputs (length ins)))))
    (in_prevout i @ ser_bytes (in_script i) @ write_le32 (in_sequence i) @ concat (map ser_input ins))"
    using Cons by (intro consumes_bind skip_consumes skip_compact_bytes_consumes) simp_all
  then show ?case by (simp add: ser_input_def [of i])
qed (simp add: consumes_def)

lemma skip_outputs_consumes:
  "list_all (\<lambda>out. sized (out_script out)) outs \<Longrightarrow> consumes (skip_outputs (length outs)) (concat (map ser_output outs))"
proof (induction outs)
  case (Cons out outs)
  have "consumes (\<lambda>cursor. bindE (cursor_skip cursor 8) (\<lambda>cursor. bindE (skip_compact_bytes cursor) (skip_outputs (length outs))))
    (write_le64 (out_value out) @ ser_bytes (out_script out) @ concat (map ser_output outs))"
    using Cons by (intro consumes_bind skip_consumes skip_compact_bytes_consumes) simp_all
  then show ?case by (simp add: ser_output_def [of out])
qed (simp add: consumes_def)

lemma skip_items_consumes:
  "list_all sized items \<Longrightarrow> consumes (skip_items (length items)) (concat (map ser_bytes items))"
proof (induction items)
  case (Cons item items)
  have "consumes (\<lambda>cursor. bindE (skip_compact_bytes cursor) (skip_items (length items))) (ser_bytes item @ concat (map ser_bytes items))"
    using Cons by (intro consumes_bind skip_compact_bytes_consumes) simp_all
  then show ?case by simp
qed (simp add: consumes_def)

lemma skip_witnesses_consumes:
  "list_all (\<lambda>items. sized items \<and> list_all sized items) stacks \<Longrightarrow>
    consumes (skip_witnesses (length stacks)) (concat (map ser_items stacks))"
proof (induction stacks)
  case (Cons items stacks)
  have "consumes (\<lambda>cursor. bindE (skip_items (length items) cursor) (skip_witnesses (length stacks)))
      (concat (map ser_bytes items) @ concat (map ser_items stacks))"
    using Cons by (intro consumes_bind skip_items_consumes) simp_all
  then have "consumes (\<lambda>cursor. bindE (compact_size cursor) (\<lambda>(item_count, cursor).
      bindE (skip_items (unat item_count) cursor) (skip_witnesses (length stacks))))
    (encode_varint (word_of_nat (length items)) @ concat (map ser_bytes items) @ concat (map ser_items stacks))"
    using Cons.prems by (intro reads_bind [OF compact_size_reads]) (simp add: unat_sized)
  then show ?case by (simp add: ser_items_def [of items])
qed (simp add: consumes_def)

lemma encode_varint_first: "n \<noteq> 0 \<Longrightarrow> \<exists>b rest. encode_varint n = b # rest \<and> b \<noteq> 0"
proof -
  assume "n \<noteq> 0"
  then have "(ucast n :: u8) \<noteq> 0" if "unat n < 253"
    using that unat_ucast_small [of n, where 'b = 8] by (auto simp flip: unat_0_iff)
  then show ?thesis by (auto simp: encode_varint_cases)
qed

lemma stands_peek: "stands whole bs cursor \<Longrightarrow> k < length bs \<Longrightarrow> cursor_peek cursor k = Inr (bs ! k)"
  using stands_remaining [of whole bs cursor] by (auto simp: cursor_peek_def stands_def ahead_def)

lemma skip_body_consumes:
  assumes "wf_transaction tx"
  shows "consumes (\<lambda>cursor. bindE (compact_size cursor) (\<lambda>(input_count, cursor).
      if input_count = 0 then Inl (Invalid_argument ''IPC block transaction has no inputs'')
      else
        bindE (skip_inputs (unat input_count) cursor) (\<lambda>cursor.
        bindE (compact_size cursor) (\<lambda>(output_count, cursor).
        bindE (skip_outputs (unat output_count) cursor) (\<lambda>cursor.
        bindE (if txn_witness tx \<noteq> None then skip_witnesses (unat input_count) cursor else Inr cursor) (\<lambda>cursor.
          cursor_skip cursor 4))))))
    (encode_varint (word_of_nat (length (txn_inputs tx))) @ concat (map ser_input (txn_inputs tx))
      @ encode_varint (word_of_nat (length (txn_outputs tx))) @ concat (map ser_output (txn_outputs tx))
      @ (case txn_witness tx of None \<Rightarrow> [] | Some stacks \<Rightarrow> concat (map ser_items stacks)) @ write_le32 (txn_lock_time tx))"
proof (rule reads_bind [OF compact_size_reads])
  let ?n = "word_of_nat (length (txn_inputs tx)) :: u64"
  have n: "unat ?n = length (txn_inputs tx)" "?n \<noteq> 0"
    using assms unat_sized [of "txn_inputs tx"] by (auto simp: wf_transaction_def simp flip: unat_0_iff)
  have wit: "consumes (\<lambda>cursor. if txn_witness tx \<noteq> None then skip_witnesses (length (txn_inputs tx)) cursor else Inr cursor)
      (case txn_witness tx of None \<Rightarrow> [] | Some stacks \<Rightarrow> concat (map ser_items stacks))"
    using assms skip_witnesses_consumes consumes_Inr by (auto simp: wf_transaction_def split: option.splits) (metis)
  have outs: "consumes (\<lambda>cursor. bindE (compact_size cursor) (\<lambda>(output_count, cursor). bindE (skip_outputs (unat output_count) cursor) q))
      (encode_varint (word_of_nat (length (txn_outputs tx))) @ concat (map ser_output (txn_outputs tx)) @ ys)"
    if "consumes q ys" for q ys
    using assms that
    by (intro reads_bind [OF compact_size_reads]) (auto intro!: consumes_bind skip_outputs_consumes simp: unat_sized wf_transaction_def)
  show "consumes ((\<lambda>input_count cursor. if input_count = 0 then Inl (Invalid_argument ''IPC block transaction has no inputs'')
      else
        bindE (skip_inputs (unat input_count) cursor) (\<lambda>cursor.
        bindE (compact_size cursor) (\<lambda>(output_count, cursor).
        bindE (skip_outputs (unat output_count) cursor) (\<lambda>cursor.
        bindE (if txn_witness tx \<noteq> None then skip_witnesses (unat input_count) cursor else Inr cursor) (\<lambda>cursor.
          cursor_skip cursor 4))))) ?n)
    (concat (map ser_input (txn_inputs tx))
      @ encode_varint (word_of_nat (length (txn_outputs tx))) @ concat (map ser_output (txn_outputs tx))
      @ (case txn_witness tx of None \<Rightarrow> [] | Some stacks \<Rightarrow> concat (map ser_items stacks)) @ write_le32 (txn_lock_time tx))"
    unfolding n(1) if_not_P [OF n(2)]
    using assms by (intro consumes_bind skip_inputs_consumes outs wit skip_consumes) (auto simp: wf_transaction_def)
qed

lemma witness_flag_reads:
  assumes "wf_transaction tx" "stands whole ((case txn_witness tx of None \<Rightarrow> [] | Some _ \<Rightarrow> [0x00, 0x01])
      @ encode_varint (word_of_nat (length (txn_inputs tx))) @ rest) cursor"
  shows "\<exists>cursor'. witness_flag cursor = Inr (txn_witness tx \<noteq> None, cursor')
    \<and> stands whole (encode_varint (word_of_nat (length (txn_inputs tx))) @ rest) cursor'"
proof (cases "txn_witness tx")
  case None
  have "word_of_nat (length (txn_inputs tx)) \<noteq> (0 :: u64)"
    using assms(1) unat_sized [of "txn_inputs tx"] by (auto simp: wf_transaction_def simp flip: unat_0_iff)
  then obtain b bs where "encode_varint (word_of_nat (length (txn_inputs tx))) = b # bs" "b \<noteq> 0"
    using encode_varint_first by blast
  then show ?thesis using assms(2) None stands_peek [OF assms(2), of 0] by (simp add: witness_flag_def)
next
  case (Some stacks)
  let ?rest = "encode_varint (word_of_nat (length (txn_inputs tx))) @ rest"
  have at: "stands whole ([0x00, 0x01] @ ?rest) cursor" using assms(2) Some by simp
  then obtain c where "cursor_skip cursor 2 = Inr c" "stands whole ?rest c"
    using skip_consumes [of "[0x00, 0x01]" 2] unfolding consumes_def by (metis length_Cons list.size(3) One_nat_def Suc_1)
  then show ?thesis using Some stands_peek [OF at, of 0] stands_peek [OF at, of 1] by (simp add: witness_flag_def)
qed

lemma skip_transaction_consumes: "wf_transaction tx \<Longrightarrow> consumes skip_transaction (ser_transaction tx)"
  unfolding consumes_def
proof (intro allI impI)
  fix whole rest cursor
  assume wf: "wf_transaction tx" and at: "stands whole (ser_transaction tx @ rest) cursor"
  let ?body = "concat (map ser_input (txn_inputs tx))
    @ encode_varint (word_of_nat (length (txn_outputs tx))) @ concat (map ser_output (txn_outputs tx))
    @ (case txn_witness tx of None \<Rightarrow> [] | Some stacks \<Rightarrow> concat (map ser_items stacks)) @ write_le32 (txn_lock_time tx)"
  let ?n = "encode_varint (word_of_nat (length (txn_inputs tx)))"
  let ?flag = "case txn_witness tx of None \<Rightarrow> [] | Some _ \<Rightarrow> [0x00, 0x01 :: u8]"
  have "stands whole (write_le32 (txn_version tx) @ ?flag @ ?n @ ?body @ rest) cursor"
    using at by (simp add: ser_transaction_def)
  then obtain c1 where c1: "cursor_skip cursor 4 = Inr c1" "stands whole (?flag @ ?n @ ?body @ rest) c1"
    using skip_consumes [of "write_le32 (txn_version tx)" 4] unfolding consumes_def by (metis length_write(3))
  obtain c2 where c2: "witness_flag c1 = Inr (txn_witness tx \<noteq> None, c2)" "stands whole (?n @ ?body @ rest) c2"
    using witness_flag_reads [OF wf c1(2)] by blast
  have "stands whole ((?n @ ?body) @ rest) c2" using c2(2) by simp
  then show "\<exists>cursor'. skip_transaction cursor = Inr cursor' \<and> stands whole rest cursor'"
    using skip_body_consumes [OF wf] unfolding consumes_def skip_transaction_def c1(1) bindE.simps(2) c2(1) case_prod_conv by blast
qed

section \<open>Templates and outputs\<close>

text \<open>C13: from the serialization of any block with well-formed transactions the parser takes the version,
  time, target and parent of the header, counts the transactions after the coinbase and keeps exactly their
  bytes; the parent it prints is the display form of the header's previous hash.\<close>

theorem fill_block_fields_correct:
  assumes "length prevhash = 32" "length merkle = 32" "list_all wf_transaction (coinbase # txs)" "length txs < 0xffffffff"
  shows "fill_block_fields bt (ser_block (ser_header version prevhash merkle ntime bits nonce) (map ser_transaction (coinbase # txs))) =
    Inr (bt\<lparr>bt_version := version, bt_curtime := ntime, bt_bits := bits, bt_bits_hex := to_hex (rev (write_le32 bits)),
      bt_previousblockhash := to_hex (rev prevhash), bt_txn_count := word_of_nat (length txs),
      bt_txn_data := concat (map ser_transaction txs)\<rparr>)"
proof -
  define header where "header = ser_header version prevhash merkle ntime bits nonce"
  define n where "n = (word_of_nat (length txs + 1) :: u64)"
  define rest where "rest = concat (map ser_transaction txs)"
  define whole where "whole = encode_varint n @ ser_transaction coinbase @ rest"
  have block: "ser_block header (map ser_transaction (coinbase # txs)) = header @ whole"
    by (simp add: ser_block_def whole_def rest_def n_def)
  have len: "length header = 80" using assms(1,2) by (simp add: header_def ser_header_def)
  have wf: "wf_transaction coinbase" using assms(3) by simp
  have ne: "whole \<noteq> []" using length_encode_varint [of n] by (auto simp: whole_def split: if_splits)
  have n: "unat n = length txs + 1" unfolding n_def unat_of_nat by (rule mod_less) (use assms(4) in simp)
  obtain c1 where c1: "compact_size (Cursor_init whole) = Inr (n, c1)" "stands whole (ser_transaction coinbase @ rest) c1"
    using compact_size_reads [of n] stands_init [of whole] unfolding reads_def whole_def by blast
  obtain c2 where c2: "skip_transaction c1 = Inr c2" "stands whole rest c2"
    using skip_transaction_consumes [of coinbase] wf c1(2) unfolding consumes_def by blast
  have data: "drop (cur_offset c2) whole = rest" using c2(2) by (auto simp: stands_def ahead_def)
  have range: "n \<noteq> 0" "\<not> 0xffffffff < n" using n assms(4) by (auto simp: word_less_nat_alt simp flip: unat_0_iff)
  have "unat (word_of_nat (length txs) :: u64) = length txs"
    unfolding unat_of_nat by (rule mod_less) (use assms(4) in simp)
  then have count: "(ucast (n - 1) :: u32) = word_of_nat (length txs)"
    using of_nat_unat [of "word_of_nat (length txs) :: u64", where 'a = u32] by (simp add: n_def)
  have hdr: "fill_header_fields bt header = Inr (bt\<lparr>bt_version := version, bt_curtime := ntime, bt_bits := bits,
      bt_bits_hex := to_hex (rev (write_le32 bits)), bt_previousblockhash := to_hex (rev prevhash)\<rparr>)"
    using assms(1,2) len
    by (simp add: fill_header_fields_def header_offsets header_def ser_header_def to_hex_reversed_rev)
  show ?thesis
    unfolding header_def [symmetric] block
    using len ne range by (simp add: fill_block_fields_def kHeaderSize_def hdr c1(1) c2(1) data count rest_def)
qed

definition sample_tx :: transaction where
  "sample_tx = \<lparr>txn_version = 2, txn_inputs = [\<lparr>in_prevout = replicate 36 0, in_script = [0x51], in_sequence = 5\<rparr>],
    txn_outputs = [\<lparr>out_value = 7, out_script = [0x6a]\<rparr>], txn_witness = Some [[replicate 32 0]], txn_lock_time = 0\<rparr>"

theorem fill_block_fields_correct_witness:
  "\<exists>bt. fill_block_fields BlockTemplate_init
      (ser_block (ser_header 4 (replicate 32 1) (replicate 32 2) 9 0x207fffff 0) (map ser_transaction [sample_tx, sample_tx])) = Inr bt
    \<and> bt_txn_count bt = 1 \<and> bt_txn_data bt = ser_transaction sample_tx"
proof -
  have wf: "list_all wf_transaction (sample_tx # [sample_tx])"
    by (simp add: sample_tx_def wf_transaction_def sized_def)
  show ?thesis
    using fill_block_fields_correct [OF _ _ wf, where prevhash = "replicate 32 1" and merkle = "replicate 32 2" and bt = BlockTemplate_init]
    by simp
qed

lemma parse_coinbase_output_ser:
  assumes "out_value output \<le> kMaxMoney" "sized (out_script output)"
  shows "parse_coinbase_output (ser_output output) = Inr output"
proof -
  let ?n = "encode_varint (word_of_nat (length (out_script output)))"
  let ?s = "write_le64 (out_value output) @ ?n @ out_script output"
  obtain c1 where c1: "cursor_take (Cursor_init ?s) 8 = Inr (write_le64 (out_value output), c1)" "stands ?s (?n @ out_script output) c1"
    using take_reads [of "write_le64 (out_value output)" 8] stands_init [of ?s] unfolding reads_def by fastforce
  have "stands ?s (?n @ out_script output @ []) c1" using c1(2) by simp
  then obtain c2 where c2: "compact_size c1 = Inr (word_of_nat (length (out_script output)), c2)" "stands ?s (out_script output @ []) c2"
    using compact_size_reads unfolding reads_def by blast
  obtain c3 where c3: "cursor_take c2 (length (out_script output)) = Inr (out_script output, c3)" "stands ?s [] c3"
    using take_reads [OF refl] c2(2) unfolding reads_def by blast
  show ?thesis
    using c1(1) c2(1) c3(1) stands_remaining [OF c2(2)] stands_remaining [OF c3(2)] assms read_write_le64 [of "out_value output" "[]"]
    by (simp add: ser_output_def ser_bytes_def parse_coinbase_output_def unat_sized Let_def not_less [symmetric])
qed

lemma parse_coinbase_output_fields:
  assumes "parse_coinbase_output serialized = Inr output"
  obtains v where "8 \<le> length serialized" "read_le64 (take 8 serialized) \<le> kMaxMoney" "decode_varint (drop 8 serialized) = Inr v"
    "\<not> (varint_size v = 3 \<and> varint_value v < 0xfd)" "\<not> (varint_size v = 5 \<and> varint_value v \<le> 0xffff)"
    "\<not> (varint_size v = 9 \<and> varint_value v \<le> 0xffffffff)"
    "unat (varint_value v) = length serialized - (8 + varint_size v)"
    "output = \<lparr>out_value = read_le64 (take 8 serialized), out_script = take (unat (varint_value v)) (drop (8 + varint_size v) serialized)\<rparr>"
proof -
  have c: "cursor_take (Cursor_init serialized) 8 = Inr (take 8 serialized, \<lparr>cur_bytes = serialized, cur_offset = 8\<rparr>)" "8 \<le> length serialized"
    using assms by (auto simp: parse_coinbase_output_def cursor_take_def cursor_remaining_def Cursor_init_def split: if_splits)
  obtain n c2 where n: "compact_size \<lparr>cur_bytes = serialized, cur_offset = 8\<rparr> = Inr (n, c2)"
    and small: "read_le64 (take 8 serialized) \<le> kMaxMoney"
    and rest: "(if unat n > cursor_remaining c2 then Inl (Invalid_argument ''IPC required coinbase output script is truncated'')
      else bindE (cursor_take c2 (unat n)) (\<lambda>(script, cursor).
        if cursor_remaining cursor \<noteq> 0 then Inl (Invalid_argument ''IPC required coinbase output has trailing data'')
        else Inr \<lparr>out_value = read_le64 (take 8 serialized), out_script = script\<rparr>)) = Inr output"
    using assms c(1) by (auto simp: parse_coinbase_output_def Let_def bindE_eq_Inr not_less simp del: if_eq_Inr split: if_split_asm)
  obtain v where v: "decode_varint (drop 8 serialized) = Inr v" "n = varint_value v"
      "c2 = \<lparr>cur_bytes = serialized, cur_offset = 8 + varint_size v\<rparr>"
      "\<not> (varint_size v = 3 \<and> varint_value v < 0xfd)" "\<not> (varint_size v = 5 \<and> varint_value v \<le> 0xffff)"
      "\<not> (varint_size v = 9 \<and> varint_value v \<le> 0xffffffff)"
    using n by (auto simp: compact_size_def bindE_eq_Inr split: if_split_asm)
  show thesis
    using rest by (intro that [OF c(2) small v(1,4-6)])
      (auto simp: v(2,3) cursor_take_def cursor_remaining_def split: if_split_asm)
qed

text \<open>A required coinbase output is accepted exactly when the bytes are the serialization of an output
  whose value is within the money supply: no shorter, longer or non-canonical form is taken.\<close>

theorem parse_coinbase_output_exact:
  "parse_coinbase_output serialized = Inr output \<longleftrightarrow>
    serialized = ser_output output \<and> out_value output \<le> kMaxMoney \<and> length (out_script output) < 2 ^ 64"
proof
  assume parse: "parse_coinbase_output serialized = Inr output"
  obtain v where long: "8 \<le> length serialized" and small: "read_le64 (take 8 serialized) \<le> kMaxMoney"
    and v: "decode_varint (drop 8 serialized) = Inr v"
      "\<not> (varint_size v = 3 \<and> varint_value v < 0xfd)" "\<not> (varint_size v = 5 \<and> varint_value v \<le> 0xffff)"
      "\<not> (varint_size v = 9 \<and> varint_value v \<le> 0xffffffff)"
    and script: "unat (varint_value v) = length serialized - (8 + varint_size v)"
      "output = \<lparr>out_value = read_le64 (take 8 serialized), out_script = take (unat (varint_value v)) (drop (8 + varint_size v) serialized)\<rparr>"
    using parse_coinbase_output_fields [OF parse] by blast
  have "take 8 serialized = write_le64 (out_value output)" using long by (simp add: script(2) write_read_le64)
  moreover have "drop (varint_size v) (drop 8 serialized) = out_script output" using script by (simp add: add.commute)
  then have "drop 8 serialized = encode_varint (varint_value v) @ out_script output"
    using decode_varint_canonical [OF v] by (simp only:)
  ultimately have ser: "serialized = write_le64 (out_value output) @ encode_varint (varint_value v) @ out_script output"
    by (metis append_take_drop_id)
  have len: "length (out_script output) = unat (varint_value v)" using script by simp
  then have word: "word_of_nat (length (out_script output)) = varint_value v" by simp
  have "out_value output \<le> kMaxMoney" using small by (simp add: script(2))
  moreover have "length (out_script output) < 2 ^ 64" unfolding len by simp
  moreover have "serialized = ser_output output" unfolding ser_output_def ser_bytes_def word by (rule ser)
  ultimately show "serialized = ser_output output \<and> out_value output \<le> kMaxMoney \<and> length (out_script output) < 2 ^ 64"
    by blast
qed (use parse_coinbase_output_ser in \<open>simp add: sized_def\<close>)

end
