(* ===== verification/Proxy_Protocol.thy ===== *)
theory Proxy_Protocol
  imports Endian Hex Json
begin

text \<open>
  \<^verbatim>\<open>src/src/net/proxy_protocol.cpp\<close>: the PROXY header a trusted upstream puts before a connection. The address
  functions of the C library are parameters. A socket is the sequence of what successive system calls on it
  give: some bytes, a retry, the end of the stream, or the deadline.
\<close>

section \<open>Tokens, addresses and ports\<close>

lemma split_ws_rest:
  "s \<noteq> [] \<Longrightarrow> length (dropWhile (\<lambda>c. c \<noteq> CHR '' '') (dropWhile (\<lambda>c. c = CHR '' '') s)) < length s"
proof (cases s)
  case (Cons c rest)
  have le: "length (dropWhile P xs) \<le> length xs" for P and xs :: string by (rule length_dropWhile_le)
  show ?thesis
  proof (cases "c = CHR '' ''")
    case True
    then show ?thesis using Cons le [of "\<lambda>c. c = CHR '' ''" rest] le [of "\<lambda>c. c \<noteq> CHR '' ''" "dropWhile (\<lambda>c. c = CHR '' '') rest"] by simp
  next
    case False
    then show ?thesis using Cons le [of "\<lambda>c. c \<noteq> CHR '' ''" rest] by simp
  qed
qed simp

function split_ws :: "string \<Rightarrow> string list" where
  "split_ws s =
    (if s = [] then []
     else let s = dropWhile (\<lambda>c. c = CHR '' '') s; token = takeWhile (\<lambda>c. c \<noteq> CHR '' '') s;
              rest = dropWhile (\<lambda>c. c \<noteq> CHR '' '') s
       in (if token \<noteq> [] then [token] else []) @ split_ws rest)"
  by pat_completeness auto

termination
  by (relation "measure length") (use split_ws_rest in \<open>auto simp: Let_def\<close>)

declare split_ws.simps [simp del]

record inet =
  inet_pton4 :: "string \<Rightarrow> bytes option"
  inet_pton6 :: "string \<Rightarrow> bytes option"
  inet_ntop4 :: "bytes \<Rightarrow> string"
  inet_ntop6 :: "bytes \<Rightarrow> string"

definition valid_ipv4 :: "inet \<Rightarrow> string \<Rightarrow> bool" where
  "valid_ipv4 inet ip \<longleftrightarrow> inet_pton4 inet ip \<noteq> None"

definition valid_ipv6 :: "inet \<Rightarrow> string \<Rightarrow> bool" where
  "valid_ipv6 inet ip \<longleftrightarrow> inet_pton6 inet ip \<noteq> None"

fun port_loop :: "int \<Rightarrow> string \<Rightarrow> int option" where
  "port_loop val [] = Some val"
| "port_loop val (c # port) =
    (if \<not> is_digit c then None else port_loop (val * 10 + (int (of_char c) - 48)) port)"

definition valid_port :: "string \<Rightarrow> bool" where
  "valid_port port \<longleftrightarrow>
    (if port = [] \<or> length port > 5 then False
     else case port_loop 0 port of None \<Rightarrow> False | Some val \<Rightarrow> val \<ge> 0 \<and> val \<le> 65535)"

text \<open>Addresses are in network byte order; \<^verbatim>\<open>s_addr\<close> is their little-endian value on the host.\<close>

definition s_addr :: "bytes \<Rightarrow> u32" where
  "s_addr addr = read_le32 addr"

definition htonl :: "u32 \<Rightarrow> u32" where
  "htonl v = read_le32 (write_be32 v)"

definition ipv4_in_cidr :: "inet \<Rightarrow> string \<Rightarrow> string \<Rightarrow> int \<Rightarrow> bool" where
  "ipv4_in_cidr inet ip net prefix \<longleftrightarrow>
    (if prefix < 0 \<or> prefix > 32 then False
     else case inet_pton4 inet ip of None \<Rightarrow> False | Some ip_addr \<Rightarrow>
       (case inet_pton4 inet net of None \<Rightarrow> False | Some net_addr \<Rightarrow>
          let cidr_mask = (if prefix = 0 then 0 else htonl (push_bit (32 - nat prefix) 0xffffffff))
          in s_addr ip_addr AND cidr_mask = s_addr net_addr AND cidr_mask))"

section \<open>Headers\<close>

definition parse_proxy_v1 :: "inet \<Rightarrow> string \<Rightarrow> string option" where
  "parse_proxy_v1 inet line =
    (let tok = split_ws line
     in if length tok < 2 \<or> tok ! 0 \<noteq> ''PROXY'' then None
        else let proto = tok ! 1
          in if proto \<noteq> ''TCP4'' \<and> proto \<noteq> ''TCP6'' then None
             else if length tok \<noteq> 6 then None
             else let src = tok ! 2; sport = tok ! 4;
                      ip_ok = (if proto = ''TCP4'' then valid_ipv4 inet src else valid_ipv6 inet src)
               in if \<not> ip_ok \<or> \<not> valid_port sport then None else Some (src @ '':'' @ sport))"

definition kSig :: bytes where
  "kSig = [0x0D, 0x0A, 0x0D, 0x0A, 0x00, 0x0D, 0x0A, 0x51, 0x55, 0x49, 0x54, 0x0A]"

definition be16 :: "u8 \<Rightarrow> u8 \<Rightarrow> u16" where
  "be16 hi lo = push_bit 8 (ucast hi) OR ucast lo"

definition parse_proxy_v2 :: "inet \<Rightarrow> bytes \<Rightarrow> string option" where
  "parse_proxy_v2 inet data =
    (if length data < 16 \<or> take 12 data \<noteq> kSig then None
     else if drop_bit 4 (data ! 12) \<noteq> 0x2 then None
     else let command = data ! 12 AND 0x0F
       in if command \<noteq> 0x1 then None
          else let family = drop_bit 4 (data ! 13); transport = data ! 13 AND 0x0F;
                   addr_len = unat (be16 (data ! 14) (data ! 15)); addr = drop 16 data
            in if 16 + addr_len > length data \<or> transport \<noteq> 0x1 then None
               else if family = 0x1 then
                 if addr_len < 12 then None
                 else Some (inet_ntop4 inet (take 4 addr) @ '':'' @ to_decimal (unat (be16 (addr ! 8) (addr ! 9))))
               else if family = 0x2 then
                 if addr_len < 36 then None
                 else Some (inet_ntop6 inet (take 16 addr) @ '':'' @ to_decimal (unat (be16 (addr ! 32) (addr ! 33))))
               else None)"

section \<open>Trusted sources\<close>

text \<open>The prefix length is accumulated in a 32-bit signed integer: \<open>None\<close> stands for its overflow.\<close>

definition int_mul_add :: "int \<Rightarrow> int \<Rightarrow> int option" where
  "int_mul_add prefix digit = (let val = prefix * 10 + digit in if val < 2 ^ 31 then Some val else None)"

fun prefix_loop :: "int \<Rightarrow> string \<Rightarrow> (int \<times> bool) option" where
  "prefix_loop prefix [] = Some (prefix, True)"
| "prefix_loop prefix (c # rest) =
    (if \<not> is_digit c then Some (prefix, False)
     else case int_mul_add prefix (int (of_char c) - 48) of None \<Rightarrow> None | Some prefix \<Rightarrow> prefix_loop prefix rest)"

definition before_slash :: "string \<Rightarrow> string" where
  "before_slash entry = takeWhile (\<lambda>c. c \<noteq> CHR ''/'') entry"

definition after_slash :: "string \<Rightarrow> string" where
  "after_slash entry = drop (length (before_slash entry) + 1) entry"

fun source_trusted :: "inet \<Rightarrow> string \<Rightarrow> string list \<Rightarrow> bool option" where
  "source_trusted inet ip [] = Some False"
| "source_trusted inet ip (entry # trusted) =
    (if CHR ''/'' \<notin> set entry then
       if entry = ip then Some True else source_trusted inet ip trusted
     else case prefix_loop 0 (after_slash entry) of
       None \<Rightarrow> None
     | Some (prefix, all_digits) \<Rightarrow>
         if after_slash entry \<noteq> [] \<and> all_digits \<and> ipv4_in_cidr inet ip (before_slash entry) prefix then Some True
         else source_trusted inet ip trusted)"

definition valid_trusted_source :: "inet \<Rightarrow> string \<Rightarrow> bool option" where
  "valid_trusted_source inet entry =
    (if CHR ''/'' \<notin> set entry then Some (valid_ipv4 inet entry \<or> valid_ipv6 inet entry)
     else if \<not> valid_ipv4 inet (before_slash entry) then Some False
     else if after_slash entry = [] then Some False
     else case prefix_loop 0 (after_slash entry) of
       None \<Rightarrow> None
     | Some (prefix, all_digits) \<Rightarrow> Some (all_digits \<and> prefix \<ge> 0 \<and> prefix \<le> 32))"

section \<open>Reading a header from a socket\<close>

datatype sock_event = Data bytes | Again | Eof | Deadline

fun read_exact_loop :: "sock_event list \<Rightarrow> nat \<Rightarrow> bytes \<Rightarrow> bytes option \<times> sock_event list" where
  "read_exact_loop events 0 got = (Some got, events)"
| "read_exact_loop [] (Suc n) got = (None, [])"
| "read_exact_loop (Deadline # events) (Suc n) got = (None, Deadline # events)"
| "read_exact_loop (Eof # events) (Suc n) got = (None, Eof # events)"
| "read_exact_loop (Again # events) (Suc n) got = read_exact_loop events (Suc n) got"
| "read_exact_loop (Data bs # events) (Suc n) got =
    (if bs = [] then (None, Data bs # events)
     else if Suc n < length bs then (Some (got @ take (Suc n) bs), Data (drop (Suc n) bs) # events)
     else read_exact_loop events (Suc n - length bs) (got @ bs))"

definition read_exact :: "sock_event list \<Rightarrow> nat \<Rightarrow> bytes option \<times> sock_event list" where
  "read_exact events n = read_exact_loop events n []"

text \<open>A peek sees the bytes at hand without taking them.\<close>

definition peek_header :: "sock_event list \<Rightarrow> bytes" where
  "peek_header events = (case events of Data bs # _ \<Rightarrow> take 16 bs | _ \<Rightarrow> [])"

datatype ProxyHeaderKind = RealAddress | Direct | Malformed_header

record ProxyHeaderResult =
  ph_kind :: ProxyHeaderKind
  ph_address :: string
  ph_detail :: string

definition direct :: ProxyHeaderResult where
  "direct = \<lparr>ph_kind = Direct, ph_address = [], ph_detail = []\<rparr>"

definition real_address :: "string \<Rightarrow> ProxyHeaderResult" where
  "real_address addr = \<lparr>ph_kind = RealAddress, ph_address = addr, ph_detail = []\<rparr>"

definition malformed :: "string \<Rightarrow> ProxyHeaderResult" where
  "malformed detail = \<lparr>ph_kind = Malformed_header, ph_address = [], ph_detail = detail\<rparr>"

definition read_v2_header :: "inet \<Rightarrow> string \<Rightarrow> sock_event list \<Rightarrow> ProxyHeaderResult \<times> sock_event list" where
  "read_v2_header inet peek_hex events =
    (case read_exact events 16 of
       (None, events) \<Rightarrow> (malformed peek_hex, events)
     | (Some head, events) \<Rightarrow>
         if take 12 head \<noteq> kSig \<or> drop_bit 4 (head ! 12) \<noteq> 0x2 then (malformed peek_hex, events)
         else let addr_len = unat (be16 (head ! 14) (head ! 15))
           in case (if addr_len > 0 then read_exact events addr_len else (Some [], events)) of
                (None, events) \<Rightarrow> (malformed peek_hex, events)
              | (Some rest, events) \<Rightarrow>
                  if head ! 12 AND 0x0F = 0x0 then (direct, events)
                  else (case parse_proxy_v2 inet (head @ rest) of
                      Some addr \<Rightarrow> (real_address addr, events)
                    | None \<Rightarrow> (malformed (to_hex (take 32 (head @ rest))), events)))"

fun read_v1_line :: "inet \<Rightarrow> string \<Rightarrow> nat \<Rightarrow> string \<Rightarrow> sock_event list \<Rightarrow> ProxyHeaderResult \<times> sock_event list" where
  "read_v1_line inet peek_hex 0 line events = (malformed peek_hex, events)"
| "read_v1_line inet peek_hex (Suc i) line events =
    (case read_exact events 1 of
       (None, events) \<Rightarrow> (malformed peek_hex, events)
     | (Some ch, events) \<Rightarrow>
         if ch ! 0 = 0x0A then
           let line = (if line \<noteq> [] \<and> last line = CHR 0x0D then butlast line else line)
           in (case parse_proxy_v1 inet line of
                 Some addr \<Rightarrow> (real_address addr, events)
               | None \<Rightarrow> (direct, events))
         else read_v1_line inet peek_hex i (line @ [char_of_byte (ch ! 0)]) events)"

definition read_proxy_header :: "inet \<Rightarrow> sock_event list \<Rightarrow> ProxyHeaderResult \<times> sock_event list" where
  "read_proxy_header inet events =
    (let peek = peek_header events
     in if peek = [] then (direct, events)
        else let first = peek ! 0; peek_hex = to_hex peek
          in if first = 0x0D then read_v2_header inet peek_hex events
             else if first = 0x50 then read_v1_line inet peek_hex 107 [] events
             else (direct, events))"

section \<open>The bytes of the stream\<close>

text \<open>The bytes a reader can still get before the stream ends or the deadline passes.\<close>

fun pending :: "sock_event list \<Rightarrow> bytes" where
  "pending (Data bs # events) = (if bs = [] then [] else bs @ pending events)"
| "pending (Again # events) = pending events"
| "pending _ = []"

lemma read_exact_loop_pending:
  "(if n \<le> length (pending events)
    then \<exists>events'. read_exact_loop events n got = (Some (got @ take n (pending events)), events')
      \<and> pending events' = drop n (pending events)
    else \<exists>events'. read_exact_loop events n got = (None, events'))"
  by (induction events n got rule: read_exact_loop.induct) (auto split: if_splits)

lemma read_exact_some:
  "n \<le> length (pending events) \<Longrightarrow>
    \<exists>events'. read_exact events n = (Some (take n (pending events)), events') \<and> pending events' = drop n (pending events)"
  using read_exact_loop_pending [of n events "[]"] by (simp add: read_exact_def)

lemma read_exact_none: "\<not> n \<le> length (pending events) \<Longrightarrow> \<exists>events'. read_exact events n = (None, events')"
  using read_exact_loop_pending [of n events "[]"] by (simp add: read_exact_def)

text \<open>What a header means as a function of the bytes alone: the kind, the address and, unless the header is
  malformed, the bytes that follow it.\<close>

definition strip_cr :: "string \<Rightarrow> string" where
  "strip_cr line = (if line \<noteq> [] \<and> last line = CHR 0x0D then butlast line else line)"

definition v1_meaning :: "inet \<Rightarrow> bytes \<Rightarrow> ProxyHeaderKind \<times> string \<times> bytes" where
  "v1_meaning inet bs =
    (let line = takeWhile (\<lambda>b. b \<noteq> 0x0A) bs
     in if length line < 107 \<and> length line < length bs then
          case parse_proxy_v1 inet (strip_cr (map char_of_byte line)) of
            Some addr \<Rightarrow> (RealAddress, addr, drop (length line + 1) bs)
          | None \<Rightarrow> (Direct, [], drop (length line + 1) bs)
        else (Malformed_header, [], []))"

definition v2_meaning :: "inet \<Rightarrow> bytes \<Rightarrow> ProxyHeaderKind \<times> string \<times> bytes" where
  "v2_meaning inet bs =
    (let total = 16 + unat (be16 (bs ! 14) (bs ! 15))
     in if length bs < 16 \<or> take 12 bs \<noteq> kSig \<or> drop_bit 4 (bs ! 12) \<noteq> 0x2 \<or> length bs < total then (Malformed_header, [], [])
        else if bs ! 12 AND 0x0F = 0 then (Direct, [], drop total bs)
        else case parse_proxy_v2 inet (take total bs) of
          Some addr \<Rightarrow> (RealAddress, addr, drop total bs)
        | None \<Rightarrow> (Malformed_header, [], []))"

definition header_meaning :: "inet \<Rightarrow> bytes \<Rightarrow> ProxyHeaderKind \<times> string \<times> bytes" where
  "header_meaning inet bs =
    (if bs = [] then (Direct, [], [])
     else if bs ! 0 = 0x0D then v2_meaning inet bs
     else if bs ! 0 = 0x50 then v1_meaning inet bs
     else (Direct, [], bs))"

definition agrees :: "ProxyHeaderResult \<times> sock_event list \<Rightarrow> ProxyHeaderKind \<times> string \<times> bytes \<Rightarrow> bool" where
  "agrees result meaning \<longleftrightarrow>
    (case (result, meaning) of ((header, events), (kind, addr, rest)) \<Rightarrow>
      ph_kind header = kind \<and> ph_address header = addr \<and> (kind \<noteq> Malformed_header \<longrightarrow> pending events = rest))"

lemma agrees_simps [simp]:
  "agrees (malformed detail, events) (kind, addr, rest) \<longleftrightarrow> kind = Malformed_header \<and> addr = []"
  "agrees (direct, events) (kind, addr, rest) \<longleftrightarrow> kind = Direct \<and> addr = [] \<and> pending events = rest"
  "agrees (real_address address, events) (kind, addr, rest) \<longleftrightarrow> kind = RealAddress \<and> addr = address \<and> pending events = rest"
  by (auto simp: agrees_def malformed_def direct_def real_address_def)

lemma read_v2_agrees: "agrees (read_v2_header inet peek_hex events) (v2_meaning inet (pending events))"
proof (cases "16 \<le> length (pending events)")
  case False
  then show ?thesis using read_exact_none [OF False] by (auto simp: read_v2_header_def v2_meaning_def)
next
  case True
  define bs where "bs = pending events"
  obtain e1 where e1: "read_exact events 16 = (Some (take 16 bs), e1)" "pending e1 = drop 16 bs"
    using read_exact_some [OF True] by (auto simp: bs_def)
  have nth: "take 16 bs ! i = bs ! i" if "i < 16" for i using that by simp
  define len where "len = unat (be16 (bs ! 14) (bs ! 15))"
  show ?thesis
  proof (cases "len \<le> length (drop 16 bs)")
    case True
    then obtain e2 where e2: "(if len > 0 then read_exact e1 len else (Some [], e1)) = (Some (take len (drop 16 bs)), e2)"
      "pending e2 = drop (16 + len) bs"
      using read_exact_some [of len e1] e1(2) by (cases "len = 0") (auto simp: add.commute)
    have "take 16 bs @ take len (drop 16 bs) = take (16 + len) bs" by (simp add: take_add)
    then show ?thesis
      using e1(1) e2 True \<open>16 \<le> length (pending events)\<close>
      by (auto simp: read_v2_header_def v2_meaning_def nth Let_def bs_def [symmetric] len_def [symmetric] split: option.splits)
  next
    case False
    then obtain e2 where "(if len > 0 then read_exact e1 len else (Some [], e1)) = (None, e2)"
      using read_exact_none [of len e1] e1(2) by (cases "len = 0") auto
    then show ?thesis
      using e1(1) False
      by (auto simp: read_v2_header_def v2_meaning_def nth Let_def bs_def [symmetric] len_def [symmetric])
  qed
qed

lemma read_v1_agrees:
  "agrees (read_v1_line inet peek_hex i line events)
    (let rest = takeWhile (\<lambda>b. b \<noteq> 0x0A) (pending events)
     in if length rest < i \<and> length rest < length (pending events) then
          case parse_proxy_v1 inet (strip_cr (line @ map char_of_byte rest)) of
            Some addr \<Rightarrow> (RealAddress, addr, drop (length rest + 1) (pending events))
          | None \<Rightarrow> (Direct, [], drop (length rest + 1) (pending events))
        else (Malformed_header, [], []))"
proof (induction i arbitrary: line events)
  case (Suc i)
  show ?case
  proof (cases "pending events")
    case Nil
    then show ?thesis using read_exact_none [of 1 events] by auto
  next
    case (Cons b bs)
    then obtain e1 where e1: "read_exact events 1 = (Some [b], e1)" "pending e1 = bs"
      using read_exact_some [of 1 events] by auto
    show ?thesis
    proof (cases "b = 0x0A")
      case True
      then show ?thesis using e1 Cons by (auto simp: Let_def strip_cr_def split: option.splits)
    next
      case False
      then show ?thesis using e1 Cons Suc.IH [of "line @ [char_of_byte b]" e1] by (auto simp: Let_def split: if_splits option.splits)
    qed
  qed
qed (simp add: Let_def)


definition no_inet :: inet where
  "no_inet = \<lparr>inet_pton4 = (\<lambda>_. None), inet_pton6 = (\<lambda>_. None), inet_ntop4 = (\<lambda>_. []), inet_ntop6 = (\<lambda>_. [])\<rparr>"


end
