(* ===== verification/Accounting.thy ===== *)
theory Accounting
  imports Float64
begin

text \<open>
  \<^verbatim>\<open>src/src/stats/hashrate.hpp\<close> and \<^verbatim>\<open>src/src/stats/share_accounting.cpp\<close>: decaying rates over several windows, and
  the share counters of one worker. The exponential of the C library is the parameter \<open>exp_fn\<close>: its rounding
  is left to the implementation. Clock readings are arguments.
\<close>

section \<open>Order of doubles as the standard library uses it\<close>

definition dmin :: "double \<Rightarrow> double \<Rightarrow> double" where
  "dmin a b = (if dless b a then b else a)"

definition dmax :: "double \<Rightarrow> double \<Rightarrow> double" where
  "dmax a b = (if dless a b then b else a)"

definition dclamp :: "double \<Rightarrow> double \<Rightarrow> double \<Rightarrow> double" where
  "dclamp v lo hi = (if dless v lo then lo else if dless hi v then hi else v)"

lemma dless_Finite_dmax: "dmax (Finite a) (Finite b) = Finite (max a b)"
  by (simp add: dmax_def max_def not_less)

lemma dmin_Finite: "dmin (Finite a) (Finite b) = Finite (min a b)"
  by (auto simp: dmin_def min_def)

lemma dclamp_Finite: "lo \<le> hi \<Longrightarrow> dclamp (Finite v) (Finite lo) (Finite hi) = Finite (max lo (min v hi))"
  by (auto simp: dclamp_def max_def min_def)

lemmas dorder_Finite = dless_Finite_dmax dmin_Finite dclamp_Finite

section \<open>Decaying windows\<close>

definition kHashrateWindows :: "int list" where
  "kHashrateWindows = [60, 300, 900, 3600, 21600, 86400, 604800]"

definition kHashrateLabels :: "string list" where
  "kHashrateLabels = [''1m'', ''5m'', ''15m'', ''1hr'', ''6hr'', ''1d'', ''7d'']"

definition kSpsWindows :: "int list" where
  "kSpsWindows = [60, 300, 900, 3600]"

definition kSpsLabels :: "string list" where
  "kSpsLabels = [''1m'', ''5m'', ''15m'', ''1h'']"

definition kHashesPerDiff1Share :: double where
  "kHashesPerDiff1Share = Finite 4294967296"

definition decay_time :: "(double \<Rightarrow> double) \<Rightarrow> double \<Rightarrow> double \<Rightarrow> double \<Rightarrow> double \<Rightarrow> double" where
  "decay_time exp_fn v addend elapsed interval =
    (if dleq elapsed (Finite 0) then v
     else let exponent = dmin (ddiv elapsed interval) (Finite 36);
              proportion = dsub (Finite 1) (ddiv (Finite 1) (exp_fn exponent))
       in ddiv (dadd v (dmul (ddiv addend elapsed) proportion)) (dadd (Finite 1) proportion))"

record DecayingWindows =
  dw_windows :: "int list"
  dw_rates :: "double list"
  dw_last :: double

definition make_DecayingWindows :: "int list \<Rightarrow> double \<Rightarrow> DecayingWindows" where
  "make_DecayingWindows windows start =
    \<lparr>dw_windows = windows, dw_rates = replicate (length windows) (Finite 0), dw_last = start\<rparr>"

definition windows_add :: "(double \<Rightarrow> double) \<Rightarrow> DecayingWindows \<Rightarrow> double \<Rightarrow> double \<Rightarrow> DecayingWindows" where
  "windows_add exp_fn dw addend now =
    (let elapsed = dsub now (dw_last dw)
     in if dleq elapsed (Finite 0) then dw
        else dw\<lparr>dw_last := now,
               dw_rates := map2 (\<lambda>rate w. decay_time exp_fn rate addend elapsed (of_integer w)) (dw_rates dw) (dw_windows dw)\<rparr>)"

definition windows_snapshot :: "(double \<Rightarrow> double) \<Rightarrow> DecayingWindows \<Rightarrow> double \<Rightarrow> double list" where
  "windows_snapshot exp_fn dw now =
    (let elapsed = dsub now (dw_last dw)
     in map2 (\<lambda>rate w. if dleq elapsed (Finite 0) then rate
                        else decay_time exp_fn rate (Finite 0) elapsed (of_integer w)) (dw_rates dw) (dw_windows dw))"

definition windows_seed :: "DecayingWindows \<Rightarrow> double list \<Rightarrow> double \<Rightarrow> double \<Rightarrow> DecayingWindows" where
  "windows_seed dw rates now age_seconds =
    dw\<lparr>dw_rates := rates, dw_last := dsub now (dmax age_seconds (Finite 0))\<rparr>"

section \<open>The counters of a worker\<close>

record WorkerAccountingSnapshot =
  was_shares_accepted :: u64
  was_shares_rejected :: u64
  was_best_difficulty :: double
  was_last_share_ts :: int
  was_hashrate_windows :: "double list"

record WorkerAccounting =
  wa_hashrate :: DecayingWindows
  wa_shares_accepted :: u64
  wa_shares_rejected :: u64
  wa_best_difficulty :: double
  wa_last_share_ts :: int
  wa_last_activity_ts :: int

definition make_WorkerAccounting :: "double \<Rightarrow> WorkerAccounting" where
  "make_WorkerAccounting start =
    \<lparr>wa_hashrate = make_DecayingWindows kHashrateWindows start, wa_shares_accepted = 0, wa_shares_rejected = 0,
     wa_best_difficulty = Finite 0, wa_last_share_ts = 0, wa_last_activity_ts = 0\<rparr>"

definition accounting_touch :: "WorkerAccounting \<Rightarrow> int \<Rightarrow> WorkerAccounting" where
  "accounting_touch wa now_wall = wa\<lparr>wa_last_activity_ts := max (wa_last_activity_ts wa) now_wall\<rparr>"

definition accounting_note_accepted ::
  "(double \<Rightarrow> double) \<Rightarrow> WorkerAccounting \<Rightarrow> double \<Rightarrow> double \<Rightarrow> int \<Rightarrow> double \<Rightarrow> WorkerAccounting"
where
  "accounting_note_accepted exp_fn wa credited share_difficulty now_wall now_steady =
    wa\<lparr>wa_hashrate := windows_add exp_fn (wa_hashrate wa) credited now_steady,
       wa_shares_accepted := wa_shares_accepted wa + 1,
       wa_best_difficulty := dmax (wa_best_difficulty wa) share_difficulty,
       wa_last_share_ts := max (wa_last_share_ts wa) now_wall,
       wa_last_activity_ts := max (wa_last_activity_ts wa) now_wall\<rparr>"

definition accounting_note_rejected :: "WorkerAccounting \<Rightarrow> int \<Rightarrow> WorkerAccounting" where
  "accounting_note_rejected wa now_wall =
    wa\<lparr>wa_shares_rejected := wa_shares_rejected wa + 1,
       wa_last_activity_ts := max (wa_last_activity_ts wa) now_wall\<rparr>"

definition accounting_snapshot :: "(double \<Rightarrow> double) \<Rightarrow> WorkerAccounting \<Rightarrow> double \<Rightarrow> WorkerAccountingSnapshot" where
  "accounting_snapshot exp_fn wa now_steady =
    \<lparr>was_shares_accepted = wa_shares_accepted wa, was_shares_rejected = wa_shares_rejected wa,
     was_best_difficulty = wa_best_difficulty wa, was_last_share_ts = wa_last_share_ts wa,
     was_hashrate_windows = windows_snapshot exp_fn (wa_hashrate wa) now_steady\<rparr>"

definition accounting_activity :: "WorkerAccounting \<Rightarrow> int \<times> int" where
  "accounting_activity wa = (wa_last_activity_ts wa, wa_last_share_ts wa)"

definition accounting_recover ::
  "WorkerAccounting \<Rightarrow> u64 \<Rightarrow> u64 \<Rightarrow> double \<Rightarrow> int \<Rightarrow> double list \<Rightarrow> double \<Rightarrow> double \<Rightarrow> WorkerAccounting"
where
  "accounting_recover wa shares_accepted shares_rejected best_difficulty last_share_ts hashrate_windows now_steady age_seconds =
    wa\<lparr>wa_shares_accepted := wa_shares_accepted wa + shares_accepted,
       wa_shares_rejected := wa_shares_rejected wa + shares_rejected,
       wa_best_difficulty := dmax (wa_best_difficulty wa) best_difficulty,
       wa_last_share_ts := max (wa_last_share_ts wa) last_share_ts,
       wa_last_activity_ts := max (wa_last_activity_ts wa) last_share_ts,
       wa_hashrate := windows_seed (wa_hashrate wa) hashrate_windows now_steady age_seconds\<rparr>"

section \<open>Aging\<close>

definition exp_at_least_one :: "(double \<Rightarrow> double) \<Rightarrow> bool" where
  "exp_at_least_one exp_fn \<longleftrightarrow> (\<forall>x. dleq (Finite 0) x \<longrightarrow> dleq (Finite 1) (exp_fn x) \<and> wf_double (exp_fn x))"

lemma representable_1 [simp]: "representable 1"
  by (rule representableI [of _ 1 0]) simp_all

lemma round64_1 [simp]: "round64 1 = Finite 1"
  by (rule round64_representable) simp

lemma round64_0 [simp]: "round64 0 = Finite 0"
  by (rule round64_representable) simp

lemma round64_within:
  assumes "representable a" "representable b" "a \<le> x" "x \<le> b"
  obtains y where "round64 x = Finite y" "a \<le> y" "y \<le> b" "representable y"
proof -
  have "dleq (Finite a) (round64 x)" "dleq (round64 x) (Finite b)"
    using round64_mono [OF assms(3)] round64_mono [OF assms(4)] assms(1,2) by (simp_all add: round64_representable)
  moreover have "wf_double (round64 x)" by simp
  ultimately show ?thesis using that by (cases "round64 x") auto
qed

lemma proportion_bounds:
  assumes "dleq (Finite 1) e"
  obtains p where "dsub (Finite 1) (ddiv (Finite 1) e) = Finite p" "0 \<le> p" "p \<le> 1" "representable p"
proof (cases e)
  case (Finite x)
  then have x: "1 \<le> x" using assms by simp
  obtain q where q: "round64 (1 / x) = Finite q" "0 \<le> q" "q \<le> 1"
    by (rule round64_within [of 0 1 "1 / x"]) (use x in \<open>simp_all add: divide_le_eq_1\<close>)
  obtain p where "round64 (1 - q) = Finite p" "0 \<le> p" "p \<le> 1" "representable p"
    by (rule round64_within [of 0 1 "1 - q"]) (use q in simp_all)
  then show ?thesis using that Finite x q by (simp add: dsub_def)
qed (use assms that in \<open>auto simp: dsub_def\<close>)

lemma decay_to_zero:
  assumes e: "exp_at_least_one exp_fn" and v: "0 \<le> v" "representable v"
    and t: "dless (Finite 0) elapsed" and w: "0 < w" "w \<le> 2 ^ 53"
  obtains r where "decay_time exp_fn (Finite v) (Finite 0) elapsed (of_integer w) = Finite r" "0 \<le> r" "r \<le> v" "representable r"
proof -
  have "of_integer w = Finite (of_int w)"
    unfolding of_integer_def using w by (intro round64_int) simp
  then have "dleq (Finite 0) (ddiv elapsed (of_integer w))"
    using t w round64_mono [of 0] by (cases elapsed) auto
  then have "dleq (Finite 0) (dmin (ddiv elapsed (of_integer w)) (Finite 36))"
    by (simp add: dmin_def)
  then have "dleq (Finite 1) (exp_fn (dmin (ddiv elapsed (of_integer w)) (Finite 36)))"
    using e by (auto simp: exp_at_least_one_def)
  then obtain p where p: "dsub (Finite 1) (ddiv (Finite 1) (exp_fn (dmin (ddiv elapsed (of_integer w)) (Finite 36)))) = Finite p"
    "0 \<le> p" "p \<le> 1" by (rule proportion_bounds)
  have z: "ddiv (Finite 0) elapsed = Finite 0" using t by (cases elapsed) auto
  have two: "representable 2" by (rule representableI [of _ 2 0]) simp_all
  obtain d where d: "round64 (1 + p) = Finite d" "1 \<le> d" "d \<le> 2"
    by (rule round64_within [of 1 2 "1 + p"]) (use p two in simp_all)
  obtain r where r: "round64 (v / d) = Finite r" "0 \<le> r" "r \<le> v" "representable r"
    by (rule round64_within [of 0 v "v / d"]) (use v d in \<open>simp_all add: divide_le_eq mult_le_cancel_left1\<close>)
  have "\<not> dleq elapsed (Finite 0)" using t by (cases elapsed) auto
  then show ?thesis
    using that [of r] r d p(1) z v(2) by (simp add: decay_time_def Let_def round64_representable)
qed

definition finite_rate :: "double \<Rightarrow> bool" where
  "finite_rate d \<longleftrightarrow> (\<exists>v. d = Finite v \<and> 0 \<le> v \<and> representable v)"

text \<open>C35: A snapshot of decaying windows at a later time never reports more than the stored rate of a window, and
  never a negative rate, for any clock reading, where the library exponential of a non-negative number is at least one.\<close>

theorem snapshot_ages:
  assumes "exp_at_least_one exp_fn" "list_all finite_rate (dw_rates dw)" "list_all (\<lambda>w. 0 < w \<and> w \<le> 2 ^ 53) (dw_windows dw)"
    "length (dw_rates dw) = length (dw_windows dw)" "now \<noteq> NaN" "wf_double now" "dw_last dw = Finite since"
  shows "list_all2 (\<lambda>aged rate. finite_rate aged \<and> dleq aged rate) (windows_snapshot exp_fn dw now) (dw_rates dw)"
proof -
  define elapsed where "elapsed = dsub now (dw_last dw)"
  have t: "dleq elapsed (Finite 0) \<or> dless (Finite 0) elapsed"
    using assms(5,7) by (cases now; cases elapsed) (auto simp: elapsed_def dsub_def round64_def split: if_splits)
  have one: "finite_rate (if dleq elapsed (Finite 0) then rate else decay_time exp_fn rate (Finite 0) elapsed (of_integer w))
      \<and> dleq (if dleq elapsed (Finite 0) then rate else decay_time exp_fn rate (Finite 0) elapsed (of_integer w)) rate"
    if "finite_rate rate" "0 < w \<and> w \<le> 2 ^ 53" for rate w
  proof (cases "dleq elapsed (Finite 0)")
    case True
    then show ?thesis using that by (auto simp: finite_rate_def)
  next
    case False
    with t that decay_to_zero [OF assms(1), of _ elapsed w] show ?thesis
      by (fastforce simp: finite_rate_def)
  qed
  show ?thesis
    unfolding windows_snapshot_def Let_def elapsed_def [symmetric]
    using one assms(2-4) by (auto simp: list_all2_conv_all_nth list_all_length)
qed

theorem snapshot_ages_witness:
  "list_all2 (\<lambda>aged rate. finite_rate aged \<and> dleq aged rate)
    (windows_snapshot (\<lambda>x. Infinity False) (make_DecayingWindows kHashrateWindows (Finite 5)) (Finite 9))
    (dw_rates (make_DecayingWindows kHashrateWindows (Finite 5)))"
proof -
  have "representable 9" by (rule representableI [of _ 9 0]) simp_all
  then show ?thesis
    by (intro snapshot_ages [where since = 5])
      (auto simp: exp_at_least_one_def make_DecayingWindows_def kHashrateWindows_def finite_rate_def)
qed

end
