(* ===== verification/Stratum_Message.thy ===== *)
theory Stratum_Message
  imports Json Bech32
begin

text \<open>
  \<^verbatim>\<open>src/src/stratum/message.cpp\<close> and \<^verbatim>\<open>src/src/util/json_number.hpp\<close>: the JSON-RPC framing of Stratum V1. Reading and
  printing JSON are functions of the Glaze library, collected in the record \<open>glaze\<close>. The theorems show that
  the two fast paths (the typed reader and the concatenated lines) agree with the dynamic values they replace.
\<close>

record RequestWire =
  wire_id :: json
  wire_method :: "string option"
  wire_params :: "string list option"

record glaze =
  read_wire :: "string \<Rightarrow> RequestWire option"
  read_doc :: "string \<Rightarrow> json option"
  write_json :: "json \<Rightarrow> string option"
  write_double :: "double \<Rightarrow> string option"

section \<open>Requests\<close>

record StratumError =
  err_code :: int
  err_message :: string

definition ERR_OTHER :: StratumError where
  "ERR_OTHER = \<lparr>err_code = 20, err_message = ''Other/unknown''\<rparr>"
definition ERR_STALE :: StratumError where
  "ERR_STALE = \<lparr>err_code = 21, err_message = ''Job not found / stale''\<rparr>"
definition ERR_DUPLICATE :: StratumError where
  "ERR_DUPLICATE = \<lparr>err_code = 22, err_message = ''Duplicate share''\<rparr>"
definition ERR_LOW_DIFFICULTY :: StratumError where
  "ERR_LOW_DIFFICULTY = \<lparr>err_code = 23, err_message = ''Low difficulty share''\<rparr>"
definition ERR_UNAUTHORIZED :: StratumError where
  "ERR_UNAUTHORIZED = \<lparr>err_code = 24, err_message = ''Unauthorized worker''\<rparr>"
definition ERR_NOT_SUBSCRIBED :: StratumError where
  "ERR_NOT_SUBSCRIBED = \<lparr>err_code = 25, err_message = ''Not subscribed''\<rparr>"

record Request =
  rq_id :: json
  rq_method :: string
  rq_params :: "string list"
  rq_configure_extensions :: "string list"
  rq_configure_version_rolling :: bool
  rq_version_rolling_mask_present :: bool
  rq_version_rolling_mask :: "string option"
  rq_suggested_difficulty :: "double option"

definition Request_init :: Request where
  "Request_init = \<lparr>rq_id = JNull, rq_method = [], rq_params = [], rq_configure_extensions = [],
    rq_configure_version_rolling = False, rq_version_rolling_mask_present = False, rq_version_rolling_mask = None,
    rq_suggested_difficulty = None\<rparr>"

definition kMaxJsonDepth :: int where
  "kMaxJsonDepth = 64"

fun depth_loop :: "int \<Rightarrow> bool \<Rightarrow> bool \<Rightarrow> string \<Rightarrow> bool" where
  "depth_loop depth in_string escaped [] = True"
| "depth_loop depth in_string escaped (c # text) =
    (if in_string then
       if escaped then depth_loop depth True False text
       else if c = CHR 0x5C then depth_loop depth True True text
       else if c = CHR 0x22 then depth_loop depth False escaped text
       else depth_loop depth True escaped text
     else if c = CHR 0x22 then depth_loop depth True escaped text
     else if c = CHR ''{'' \<or> c = CHR ''['' then
       if depth + 1 > kMaxJsonDepth then False else depth_loop (depth + 1) False escaped text
     else if (c = CHR ''}'' \<or> c = CHR '']'') \<and> depth > 0 then depth_loop (depth - 1) False escaped text
     else depth_loop depth False escaped text)"

definition within_depth :: "string \<Rightarrow> bool" where
  "within_depth text = depth_loop 0 False False text"

definition id_wire :: "glaze \<Rightarrow> json \<Rightarrow> string" where
  "id_wire gz request_id = (case write_json gz request_id of Some s \<Rightarrow> s | None \<Rightarrow> ''null'')"

fun isfinite :: "double \<Rightarrow> bool" where
  "isfinite (Finite _) \<longleftrightarrow> True"
| "isfinite _ \<longleftrightarrow> False"

fun normalize_request_id :: "json \<Rightarrow> json \<Rightarrow> json" where
  "normalize_request_id request_id (JString s) = JString s"
| "normalize_request_id request_id (JNumber v) =
    (if isfinite v \<and> deq v (dfloor v) then JNumber v else request_id)"
| "normalize_request_id request_id _ = request_id"

text \<open>
  \<^verbatim>\<open>std::from_chars\<close> of a \<^verbatim>\<open>double\<close>, where the whole text has to match: a decimal number with an optional fraction and
  exponent, rounded to nearest, or infinity or a NaN; a result out of range is an error.
\<close>

definition from_chars_exponent :: "string \<Rightarrow> int option" where
  "from_chars_exponent s =
    (case s of
       [] \<Rightarrow> Some 0
     | e # r \<Rightarrow>
         if e \<noteq> CHR ''e'' \<and> e \<noteq> CHR ''E'' then None
         else let negative = (r \<noteq> [] \<and> hd r = CHR ''-'');
                  ds = (if r \<noteq> [] \<and> (hd r = CHR ''-'' \<or> hd r = CHR ''+'') then tl r else r)
           in if ds = [] \<or> \<not> list_all is_digit ds then None
              else Some (if negative then - int (decimal_value 0 ds) else int (decimal_value 0 ds)))"

definition nan_sequence :: "string \<Rightarrow> bool" where
  "nan_sequence s \<longleftrightarrow> s = [] \<or> (length s \<ge> 2 \<and> hd s = CHR ''('' \<and> last s = CHR '')''
     \<and> list_all (\<lambda>c. is_digit c \<or> is_lower c \<or> is_upper c \<or> c = CHR ''_'') (butlast (tl s)))"

definition from_chars_double :: "string \<Rightarrow> double option" where
  "from_chars_double s =
    (let negative = (s \<noteq> [] \<and> hd s = CHR ''-''); s = (if negative then tl s else s)
     in if map to_lower s = ''inf'' \<or> map to_lower s = ''infinity'' then Some (Infinity negative)
        else if map to_lower (take 3 s) = ''nan'' \<and> nan_sequence (drop 3 s) then Some NaN
        else let whole = takeWhile is_digit s; r = dropWhile is_digit s;
                 point = (r \<noteq> [] \<and> hd r = CHR ''.'');
                 fraction = (if point then takeWhile is_digit (tl r) else []);
                 r = (if point then dropWhile is_digit (tl r) else r)
          in if whole = [] \<and> fraction = [] then None
             else case from_chars_exponent r of
               None \<Rightarrow> None
             | Some e \<Rightarrow>
                 let x = of_nat (decimal_value 0 (whole @ fraction)) * 10 powi (e - int (length fraction))
                 in case round64 (if negative then - x else x) of
                      Finite y \<Rightarrow> if y = 0 \<and> x \<noteq> 0 then None else Some (Finite y)
                    | _ \<Rightarrow> None)"

fun string_or_empty :: "json \<Rightarrow> string" where
  "string_or_empty (JString s) = s"
| "string_or_empty _ = []"

fun json_strings :: "json \<Rightarrow> string list" where
  "json_strings (JArray elements) = concat (map (\<lambda>e. case e of JString name \<Rightarrow> [name] | _ \<Rightarrow> []) elements)"
| "json_strings _ = []"

definition configure_request :: "Request \<Rightarrow> json list \<Rightarrow> Request" where
  "configure_request request params =
    (let request =
       (if params \<noteq> [] then
          request\<lparr>rq_configure_version_rolling := (''version-rolling'' \<in> set (json_strings (hd params))),
            rq_configure_extensions := json_strings (hd params)\<rparr>
        else request)
     in if length params > 1 \<and> is_object (params ! 1) \<and> json_contains (params ! 1) ''version-rolling.mask'' then
          request\<lparr>rq_version_rolling_mask_present := True,
            rq_version_rolling_mask :=
              (case json_get (params ! 1) ''version-rolling.mask'' of Some (JString mask_hex) \<Rightarrow> Some mask_hex | _ \<Rightarrow> None)\<rparr>
        else request)"

definition suggest_request :: "Request \<Rightarrow> json list \<Rightarrow> Request" where
  "suggest_request request params =
    (case params of
       JNumber v # _ \<Rightarrow> request\<lparr>rq_suggested_difficulty := Some v\<rparr>
     | JString s # _ \<Rightarrow>
         (case from_chars_double s of Some v \<Rightarrow> request\<lparr>rq_suggested_difficulty := Some v\<rparr> | None \<Rightarrow> request)
     | _ \<Rightarrow> request)"

definition parse_request_dom :: "glaze \<Rightarrow> string \<Rightarrow> Request option" where
  "parse_request_dom gz line =
    (case read_doc gz line of
       None \<Rightarrow> None
     | Some doc \<Rightarrow>
         if \<not> is_object doc then None
         else case json_get doc ''method'' of
           Some (JString request_method) \<Rightarrow>
             let request = Request_init\<lparr>rq_method := request_method\<rparr>;
                 request = (case json_get doc ''id'' of
                   Some raw_id \<Rightarrow> request\<lparr>rq_id := normalize_request_id (rq_id request) raw_id\<rparr> | None \<Rightarrow> request);
                 params = (case json_get doc ''params'' of Some (JArray elements) \<Rightarrow> Some elements | _ \<Rightarrow> None);
                 request = (case params of
                   Some elements \<Rightarrow> request\<lparr>rq_params := map string_or_empty elements\<rparr> | None \<Rightarrow> request);
                 request = (case params of
                   Some elements \<Rightarrow> if request_method = ''mining.configure'' then configure_request request elements else request
                 | None \<Rightarrow> request)
             in Some (case params of
                   Some elements \<Rightarrow> if request_method = ''mining.suggest_difficulty'' then suggest_request request elements else request
                 | None \<Rightarrow> request)
         | _ \<Rightarrow> None)"

definition parse_request :: "glaze \<Rightarrow> string \<Rightarrow> Request option" where
  "parse_request gz line =
    (if \<not> within_depth line then None
     else case read_wire gz line of
       None \<Rightarrow> parse_request_dom gz line
     | Some wire \<Rightarrow>
         (case wire_method wire of
            None \<Rightarrow> None
          | Some request_method \<Rightarrow>
              if request_method \<noteq> ''mining.configure'' \<and> request_method \<noteq> ''mining.suggest_difficulty'' then
                Some (Request_init\<lparr>rq_method := request_method, rq_id := normalize_request_id JNull (wire_id wire),
                  rq_params := (case wire_params wire of Some params \<Rightarrow> params | None \<Rightarrow> [])\<rparr>)
              else parse_request_dom gz line))"

section \<open>Replies and notifications\<close>

definition make_result :: "json \<Rightarrow> json \<Rightarrow> json" where
  "make_result request_id result = JObject [(''error'', JNull), (''id'', request_id), (''result'', result)]"

definition make_error :: "json \<Rightarrow> StratumError \<Rightarrow> json" where
  "make_error request_id error =
    JObject [(''error'', JArray [JNumber (of_integer (err_code error)), JString (err_message error), JNull]),
      (''id'', request_id), (''result'', JNull)]"

definition make_notification :: "string \<Rightarrow> json \<Rightarrow> json" where
  "make_notification notified_method params =
    JObject [(''id'', JNull), (''method'', JString notified_method), (''params'', params)]"

definition quote :: string where
  "quote = [CHR 0x22]"

definition make_result_line :: "glaze \<Rightarrow> json \<Rightarrow> bool \<Rightarrow> string" where
  "make_result_line gz request_id result =
    ''{'' @ quote @ ''error'' @ quote @ '':null,'' @ quote @ ''id'' @ quote @ '':'' @ id_wire gz request_id
      @ '','' @ quote @ ''result'' @ quote @ (if result then '':true}'' else '':false}'')"

definition make_error_line :: "glaze \<Rightarrow> json \<Rightarrow> StratumError \<Rightarrow> string" where
  "make_error_line gz request_id error =
    ''{'' @ quote @ ''error'' @ quote @ '':['' @ to_decimal (nat (err_code error)) @ '','' @ quote @ err_message error
      @ quote @ '',null],'' @ quote @ ''id'' @ quote @ '':'' @ id_wire gz request_id
      @ '','' @ quote @ ''result'' @ quote @ '':null}''"

fun branches_loop :: "bool \<Rightarrow> string list \<Rightarrow> string" where
  "branches_loop first [] = []"
| "branches_loop first (branch # branches) =
    (if first then [] else '','') @ quote @ branch @ quote @ branches_loop False branches"

definition make_notify_line ::
  "string \<Rightarrow> string \<Rightarrow> string \<Rightarrow> string \<Rightarrow> string list \<Rightarrow> string \<Rightarrow> string \<Rightarrow> string \<Rightarrow> bool \<Rightarrow> string"
where
  "make_notify_line job_id prevhash_stratum coinbase1_hex coinbase2_hex merkle_branch_hex version_hex nbits_hex ntime_hex clean =
    ''{'' @ quote @ ''id'' @ quote @ '':null,'' @ quote @ ''method'' @ quote @ '':'' @ quote @ ''mining.notify'' @ quote
      @ '','' @ quote @ ''params'' @ quote @ '':['' @ quote @ job_id @ quote @ '','' @ quote @ prevhash_stratum @ quote
      @ '','' @ quote @ coinbase1_hex @ quote @ '','' @ quote @ coinbase2_hex @ quote @ '',[''
      @ branches_loop True merkle_branch_hex @ ''],'' @ quote @ version_hex @ quote @ '','' @ quote @ nbits_hex @ quote
      @ '','' @ quote @ ntime_hex @ quote @ (if clean then '',true]}'' else '',false]}'')"

definition format_json_number :: "glaze \<Rightarrow> double \<Rightarrow> string" where
  "format_json_number gz v =
    (let s = (case write_double gz v of Some s \<Rightarrow> s | None \<Rightarrow> ''0'');
         has_exp = list_ex (\<lambda>c. c = CHR ''E'' \<or> c = CHR ''e'') s;
         has_point = list_ex (\<lambda>c. c = CHR ''.'') s;
         s = map (\<lambda>c. if c = CHR ''E'' then CHR ''e'' else c) s
     in if \<not> has_point \<and> \<not> has_exp then s @ ''.0'' else s)"

definition make_set_difficulty_line :: "glaze \<Rightarrow> double \<Rightarrow> string" where
  "make_set_difficulty_line gz difficulty =
    ''{'' @ quote @ ''id'' @ quote @ '':null,'' @ quote @ ''method'' @ quote @ '':'' @ quote @ ''mining.set_difficulty'' @ quote
      @ '','' @ quote @ ''params'' @ quote @ '':['' @ format_json_number gz difficulty @ '']}''"

section \<open>The typed reader and the dynamic one\<close>

text \<open>
  What the typed reader promises: on success the same text reads as an object whose members are the fields,
  an absent or null member being an empty optional.
\<close>

definition typed_reader :: "glaze \<Rightarrow> bool" where
  "typed_reader gz \<longleftrightarrow>
    (\<forall>line wire. read_wire gz line = Some wire \<longrightarrow>
      (\<exists>members. read_doc gz line = Some (JObject members)
        \<and> wire_id wire = (case map_of members ''id'' of Some j \<Rightarrow> j | None \<Rightarrow> JNull)
        \<and> (case wire_method wire of Some s \<Rightarrow> map_of members ''method'' = Some (JString s)
           | None \<Rightarrow> map_of members ''method'' \<in> {None, Some JNull})
        \<and> (case wire_params wire of Some ss \<Rightarrow> map_of members ''params'' = Some (JArray (map JString ss))
           | None \<Rightarrow> map_of members ''params'' \<in> {None, Some JNull})))"

lemma string_or_empty_strings [simp]: "map (string_or_empty \<circ> JString) ss = ss"
  by (induction ss) auto

lemma fast_path_agrees:
  assumes "typed_reader gz" "read_wire gz line = Some wire" "wire_method wire = Some m"
    "m \<noteq> ''mining.configure''" "m \<noteq> ''mining.suggest_difficulty''"
  shows "parse_request_dom gz line =
    Some (Request_init\<lparr>rq_method := m, rq_id := normalize_request_id JNull (wire_id wire),
      rq_params := (case wire_params wire of Some params \<Rightarrow> params | None \<Rightarrow> [])\<rparr>)"
proof -
  obtain members where doc: "read_doc gz line = Some (JObject members)"
    and wid: "wire_id wire = (case map_of members ''id'' of Some j \<Rightarrow> j | None \<Rightarrow> JNull)"
    and m: "map_of members ''method'' = Some (JString m)"
    and ps: "case wire_params wire of Some ss \<Rightarrow> map_of members ''params'' = Some (JArray (map JString ss))
           | None \<Rightarrow> map_of members ''params'' \<in> {None, Some JNull}"
    using assms(1-3) unfolding typed_reader_def by fastforce
  show ?thesis
  proof (cases "wire_params wire")
    case None
    then show ?thesis using doc wid m ps
      by (auto simp: parse_request_dom_def Request_init_def split: option.splits)
  next
    case (Some ss)
    then show ?thesis using doc wid m ps assms(4,5)
      by (auto simp: parse_request_dom_def Request_init_def split: option.splits)
  qed
qed

lemma no_method_rejected:
  assumes "typed_reader gz" "read_wire gz line = Some wire" "wire_method wire = None"
  shows "parse_request_dom gz line = None"
proof -
  obtain members where "read_doc gz line = Some (JObject members)" "map_of members ''method'' \<in> {None, Some JNull}"
    using assms unfolding typed_reader_def by fastforce
  then show ?thesis by (auto simp: parse_request_dom_def)
qed

text \<open>C32: The fast path of the request parser is sound: a line is parsed exactly as the dynamic parser parses it, for
  every line the depth guard lets through, and a line nested deeper is refused.\<close>

theorem parse_request_agrees:
  assumes "typed_reader gz"
  shows "parse_request gz line = (if within_depth line then parse_request_dom gz line else None)"
  using fast_path_agrees [OF assms, of line] no_method_rejected [OF assms, of line]
  by (auto simp: parse_request_def split: option.splits)

definition sample_glaze :: glaze where
  "sample_glaze =
    \<lparr>read_wire = (\<lambda>line. if line = ''[submit]'' then Some \<lparr>wire_id = JNumber (Finite 4), wire_method = Some ''mining.submit'',
       wire_params = Some [''w'', ''1'']\<rparr> else None),
     read_doc = (\<lambda>line. if line = ''[submit]'' then Some (JObject [(''id'', JNumber (Finite 4)), (''method'', JString ''mining.submit''),
       (''params'', JArray [JString ''w'', JString ''1''])]) else None),
     write_json = (\<lambda>_. None), write_double = (\<lambda>_. None)\<rparr>"

theorem parse_request_agrees_witness:
  "parse_request sample_glaze ''[submit]'' = parse_request_dom sample_glaze ''[submit]''
   \<and> parse_request sample_glaze ''[submit]'' \<noteq> None"
proof -
  have t: "typed_reader sample_glaze" by (auto simp: typed_reader_def sample_glaze_def)
  have d: "within_depth ''[submit]''" by (simp add: within_depth_def kMaxJsonDepth_def)
  have "parse_request_dom sample_glaze ''[submit]'' \<noteq> None"
    by (simp add: parse_request_dom_def sample_glaze_def Let_def)
  then show ?thesis using parse_request_agrees [OF t, of "''[submit]''"] d by simp
qed

section \<open>Lines and printed values\<close>

definition plain :: "string \<Rightarrow> bool" where
  "plain s \<longleftrightarrow> list_all (\<lambda>c. 0x20 \<le> (of_char c :: nat) \<and> (of_char c :: nat) < 0x7F \<and> c \<noteq> CHR 0x22 \<and> c \<noteq> CHR 0x5C) s"

fun commas :: "string list \<Rightarrow> string" where
  "commas [] = []"
| "commas [x] = x"
| "commas (x # y # xs) = x @ CHR '','' # commas (y # xs)"

definition member_text :: "string \<times> string \<Rightarrow> string" where
  "member_text m = quote @ fst m @ quote @ CHR '':'' # snd m"

text \<open>What the JSON printer promises for the values the replies are made of.\<close>

definition json_writer :: "(json \<Rightarrow> string option) \<Rightarrow> bool" where
  "json_writer write \<longleftrightarrow>
    write JNull = Some ''null'' \<and> write (JBool True) = Some ''true'' \<and> write (JBool False) = Some ''false''
    \<and> (\<forall>n. n < 2 ^ 53 \<longrightarrow> write (JNumber (Finite (of_nat n))) = Some (to_decimal n))
    \<and> (\<forall>s. plain s \<longrightarrow> write (JString s) = Some (quote @ s @ quote))
    \<and> (\<forall>js ts. map write js = map Some ts \<longrightarrow> write (JArray js) = Some (''['' @ commas ts @ '']''))
    \<and> (\<forall>ms ts. list_all (\<lambda>m. plain (fst m)) ms \<and> map (write \<circ> snd) ms = map Some ts \<longrightarrow>
        write (JObject ms) = Some (''{'' @ commas (map member_text (zip (map fst ms) ts)) @ ''}''))"

lemma json_writerD:
  assumes "json_writer write"
  shows "write JNull = Some ''null''" "write (JBool b) = Some (if b then ''true'' else ''false'')"
    "n < 2 ^ 53 \<Longrightarrow> write (JNumber (Finite (of_nat n))) = Some (to_decimal n)"
    "plain s \<Longrightarrow> write (JString s) = Some (quote @ s @ quote)"
    "map write js = map Some ts \<Longrightarrow> write (JArray js) = Some (''['' @ commas ts @ '']'')"
    "list_all (\<lambda>m. plain (fst m)) ms \<Longrightarrow> map (write \<circ> snd) ms = map Some us \<Longrightarrow>
      write (JObject ms) = Some (''{'' @ commas (map member_text (zip (map fst ms) us)) @ ''}'')"
  using assms by (cases b; auto simp: json_writer_def)+

lemma plain_literals [simp]:
  "plain ''error''" "plain ''id''" "plain ''result''" "plain ''method''" "plain ''params''" "plain ''mining.notify''"
  by (simp_all add: plain_def)

lemma commas_Cons: "commas (x # xs) = x @ (if xs = [] then [] else CHR '','' # commas xs)"
  by (cases xs) simp_all

lemma branches_loop_False:
  "branches_loop False bs = (if bs = [] then [] else CHR '','' # commas (map (\<lambda>b. quote @ b @ quote) bs))"
  by (induction bs) (simp_all add: commas_Cons)

lemma branches_loop_commas: "branches_loop True bs = commas (map (\<lambda>b. quote @ b @ quote) bs)"
  by (cases bs) (simp_all add: commas_Cons branches_loop_False)

definition notify_params ::
  "string \<Rightarrow> string \<Rightarrow> string \<Rightarrow> string \<Rightarrow> string list \<Rightarrow> string \<Rightarrow> string \<Rightarrow> string \<Rightarrow> bool \<Rightarrow> json"
where
  "notify_params job_id prevhash_stratum coinbase1_hex coinbase2_hex merkle_branch_hex version_hex nbits_hex ntime_hex clean =
    JArray [JString job_id, JString prevhash_stratum, JString coinbase1_hex, JString coinbase2_hex,
      JArray (map JString merkle_branch_hex), JString version_hex, JString nbits_hex, JString ntime_hex, JBool clean]"

lemma print_result:
  assumes "json_writer (write_json gz)" "write_json gz request_id = Some t"
  shows "write_json gz (make_result request_id (JBool b)) = Some (make_result_line gz request_id b)"
  using json_writerD(6) [OF assms(1), of "[(''error'', JNull), (''id'', request_id), (''result'', JBool b)]"
      "[''null'', t, if b then ''true'' else ''false'']"] assms(2)
  by (simp add: make_result_def json_writerD(1,2) [OF assms(1)] make_result_line_def id_wire_def member_text_def quote_def)

lemma print_error:
  assumes w: "json_writer (write_json gz)" and t: "write_json gz request_id = Some t"
    and e: "0 \<le> err_code error" "err_code error < 2 ^ 53" "plain (err_message error)"
  shows "write_json gz (make_error request_id error) = Some (make_error_line gz request_id error)"
proof -
  have n: "of_integer (err_code error) = Finite (of_nat (nat (err_code error)))"
    using e round64_int [of "err_code error"] by (simp add: of_integer_def)
  have "nat (err_code error) < 2 ^ 53" using e by (simp add: nat_less_iff)
  from json_writerD(3) [OF w this] json_writerD(4) [OF w e(3)]
  have "write_json gz (JArray [JNumber (of_integer (err_code error)), JString (err_message error), JNull]) =
      Some (''['' @ commas [to_decimal (nat (err_code error)), quote @ err_message error @ quote, ''null''] @ '']'')"
    unfolding n by (intro json_writerD(5) [OF w]) (simp add: json_writerD(1) [OF w])
  then show ?thesis
    using json_writerD(6) [OF w, of "[(''error'', JArray [JNumber (of_integer (err_code error)), JString (err_message error), JNull]),
      (''id'', request_id), (''result'', JNull)]"
        "[''['' @ commas [to_decimal (nat (err_code error)), quote @ err_message error @ quote, ''null''] @ '']'', t, ''null'']"] t
    by (simp add: make_error_def json_writerD(1) [OF w] make_error_line_def id_wire_def member_text_def quote_def)
qed

lemma print_notify:
  assumes w: "json_writer (write_json gz)" and p: "list_all plain ([job_id, prevhash, cb1, cb2, version, nbits, ntime] @ branches)"
  shows "write_json gz (make_notification ''mining.notify'' (notify_params job_id prevhash cb1 cb2 branches version nbits ntime clean)) =
    Some (make_notify_line job_id prevhash cb1 cb2 branches version nbits ntime clean)"
proof -
  note s = json_writerD(4) [OF w]
  have "map (write_json gz) (map JString branches) = map Some (map (\<lambda>b. quote @ b @ quote) branches)"
    using p s by (simp add: list_all_iff)
  then have b: "write_json gz (JArray (map JString branches)) = Some (''['' @ branches_loop True branches @ '']'')"
    unfolding branches_loop_commas by (rule json_writerD(5) [OF w])
  define ps where "ps = ''['' @ commas [quote @ job_id @ quote, quote @ prevhash @ quote, quote @ cb1 @ quote, quote @ cb2 @ quote,
        ''['' @ branches_loop True branches @ '']'', quote @ version @ quote, quote @ nbits @ quote, quote @ ntime @ quote,
        if clean then ''true'' else ''false''] @ '']''"
  have "write_json gz (notify_params job_id prevhash cb1 cb2 branches version nbits ntime clean) = Some ps"
    unfolding notify_params_def ps_def using p s b by (intro json_writerD(5) [OF w]) (simp add: json_writerD(2) [OF w])
  then have "write_json gz (make_notification ''mining.notify'' (notify_params job_id prevhash cb1 cb2 branches version nbits ntime clean)) =
      Some (''{'' @ commas (map member_text (zip [''id'', ''method'', ''params''] [''null'', quote @ ''mining.notify'' @ quote, ps])) @ ''}'')"
    unfolding make_notification_def
    using json_writerD(6) [OF w, of "[(''id'', JNull), (''method'', JString ''mining.notify''),
      (''params'', notify_params job_id prevhash cb1 cb2 branches version nbits ntime clean)]" "[''null'', quote @ ''mining.notify'' @ quote, ps]"]
      s [of "''mining.notify''"] by (simp add: json_writerD(1) [OF w])
  also have "\<dots> = Some (make_notify_line job_id prevhash cb1 cb2 branches version nbits ntime clean)"
    by (simp add: make_notify_line_def member_text_def quote_def ps_def)
  finally show ?thesis .
qed

text \<open>C33: The reply and notification lines that the fast paths concatenate are byte for byte what the JSON printer
  gives for the corresponding values: acknowledgements, the six Stratum errors, and \<^verbatim>\<open>mining.notify\<close> for fields without
  characters that need escaping.\<close>

theorem wire_lines_correct:
  assumes "json_writer (write_json gz)" "write_json gz request_id = Some id_text"
    "list_all plain ([job_id, prevhash, cb1, cb2, version, nbits, ntime] @ branches)"
    "error \<in> {ERR_OTHER, ERR_STALE, ERR_DUPLICATE, ERR_LOW_DIFFICULTY, ERR_UNAUTHORIZED, ERR_NOT_SUBSCRIBED}"
  shows "write_json gz (make_result request_id (JBool b)) = Some (make_result_line gz request_id b)
    \<and> write_json gz (make_error request_id error) = Some (make_error_line gz request_id error)
    \<and> write_json gz (make_notification ''mining.notify''
        (notify_params job_id prevhash cb1 cb2 branches version nbits ntime clean)) =
      Some (make_notify_line job_id prevhash cb1 cb2 branches version nbits ntime clean)"
proof (intro conjI)
  have "0 \<le> err_code error \<and> err_code error < 2 ^ 53 \<and> plain (err_message error)"
    using assms(4) by (auto simp: plain_def ERR_OTHER_def ERR_STALE_def ERR_DUPLICATE_def ERR_LOW_DIFFICULTY_def
        ERR_UNAUTHORIZED_def ERR_NOT_SUBSCRIBED_def)
  then show "write_json gz (make_error request_id error) = Some (make_error_line gz request_id error)"
    using print_error [OF assms(1,2)] by blast
qed (use print_result [OF assms(1,2)] print_notify [OF assms(1,3)] in blast)+

fun print_json :: "json \<Rightarrow> string option" where
  "print_json JNull = Some ''null''"
| "print_json (JBool b) = Some (if b then ''true'' else ''false'')"
| "print_json (JNumber (Finite x)) = Some (to_decimal (nat \<lfloor>x\<rfloor>))"
| "print_json (JNumber _) = None"
| "print_json (JString s) = Some (quote @ s @ quote)"
| "print_json (JArray js) = map_option (\<lambda>ts. ''['' @ commas ts @ '']'') (those (map print_json js))"
| "print_json (JObject ms) =
    map_option (\<lambda>ts. ''{'' @ commas (map member_text (zip (map fst ms) ts)) @ ''}'') (those (map (\<lambda>m. print_json (snd m)) ms))"

lemma those_map_Some: "those (map Some ts) = Some ts"
  by (induction ts) auto

lemma json_writer_print_json: "json_writer print_json"
  by (auto simp: json_writer_def those_map_Some comp_def)

theorem wire_lines_correct_witness:
  "print_json (make_error (JNumber (Finite 1)) ERR_STALE) =
    Some (make_error_line (sample_glaze\<lparr>write_json := print_json\<rparr>) (JNumber (Finite 1)) ERR_STALE)"
  using wire_lines_correct [of "sample_glaze\<lparr>write_json := print_json\<rparr>" "JNumber (Finite 1)" _ "[]" "[]" "[]" "[]" "[]" "[]" "[]" "[]" ERR_STALE]
  by (simp add: json_writer_print_json plain_def)

end
