(* ===== verification/Config.thy ===== *)
theory Config
  imports Hex Coinbase Stratum_Message Job
begin

text \<open>
  \<^verbatim>\<open>src/src/core/config.cpp\<close>: the configuration, its defaults, its validation and the list of changes that need a restart.
  Reading the YAML text into the optional fields of \<open>ConfigFile\<close> is a function of the Glaze library and a parameter.
  The comparisons are those of the type \<^verbatim>\<open>double\<close>, so a value that is not a number passes every range check.
\<close>

section \<open>Types and defaults\<close>

record RuntimeConfig =
  rc_initial_difficulty :: double
  rc_minimum_difficulty :: double
  rc_maximum_difficulty :: double
  rc_variable_difficulty :: bool
  rc_vardiff_target_shares_per_minute :: double
  rc_vardiff_retarget_seconds :: int
  rc_work_rebroadcast_seconds :: double
  rc_poll_interval :: double
  rc_status_interval_seconds :: double
  rc_user_stats_retention_days :: int
  rc_fast_block_notify :: bool
  rc_max_clients :: int
  rc_max_workers_per_address :: int
  rc_drop_idle_seconds :: int
  rc_auth_timeout_seconds :: int
  rc_max_protocol_errors :: int

record RpcEndpoint =
  ep_url :: string
  ep_user :: string
  ep_password :: string

record Config =
  cfg_rpc_url :: string
  cfg_rpc_user :: string
  cfg_rpc_password :: string
  cfg_rpc_failover :: "RpcEndpoint list"
  cfg_bind_host :: string
  cfg_bind_port :: u16
  cfg_bind_ports :: "u16 list"
  cfg_sv2_host :: string
  cfg_sv2_ports :: "u16 list"
  cfg_sv2_static_secret_key_file :: string
  cfg_sv2_authority_public_key_file :: string
  cfg_sv2_certificate_file :: string
  cfg_sv2_plaintext_host :: string
  cfg_sv2_plaintext_ports :: "u16 list"
  cfg_proxy_protocol_from :: "string list"
  cfg_api_host :: string
  cfg_api_port :: u16
  cfg_initial_difficulty :: double
  cfg_minimum_difficulty :: double
  cfg_maximum_difficulty :: double
  cfg_variable_difficulty :: bool
  cfg_vardiff_target_shares_per_minute :: double
  cfg_vardiff_retarget_seconds :: int
  cfg_version_rolling_mask :: u32
  cfg_extranonce1_size :: nat
  cfg_extranonce2_size :: nat
  cfg_extranonce1_prefix :: bytes
  cfg_coinbase_signature :: string
  cfg_coinbase_version :: u32
  cfg_donation_percent :: double
  cfg_donation_address :: string
  cfg_work_rebroadcast_seconds :: double
  cfg_poll_interval :: double
  cfg_stats_directory :: string
  cfg_status_interval_seconds :: double
  cfg_user_stats_retention_days :: int
  cfg_zmq_block_endpoint :: string
  cfg_fast_block_notify :: bool
  cfg_work_source :: string
  cfg_ipc_socket_path :: string
  cfg_max_clients :: int
  cfg_max_workers_per_address :: int
  cfg_max_line_bytes :: nat
  cfg_drop_idle_seconds :: int
  cfg_auth_timeout_seconds :: int
  cfg_max_protocol_errors :: int
  cfg_worker_threads :: int

definition Config_init :: Config where
  "Config_init = \<lparr>cfg_rpc_url = ''http://127.0.0.1:18443'', cfg_rpc_user
    = ''erikslund'', cfg_rpc_password = ''erikslundpass'', cfg_rpc_failover = [], cfg_bind_host = ''0.0.0.0'',
    cfg_bind_port = 3333, cfg_bind_ports = [], cfg_sv2_host = ''0.0.0.0'', cfg_sv2_ports = [],
    cfg_sv2_static_secret_key_file = [], cfg_sv2_authority_public_key_file = [], cfg_sv2_certificate_file = [],
    cfg_sv2_plaintext_host = ''127.0.0.1'', cfg_sv2_plaintext_ports = [], cfg_proxy_protocol_from = [], cfg_api_host =
    ''127.0.0.1'', cfg_api_port = 7777, cfg_initial_difficulty = (Finite 1), cfg_minimum_difficulty = (round64 (1 /
    1000)), cfg_maximum_difficulty = (Finite 0), cfg_variable_difficulty = True, cfg_vardiff_target_shares_per_minute
    = (Finite 12), cfg_vardiff_retarget_seconds = 60, cfg_version_rolling_mask = 0x1fffe000, cfg_extranonce1_size = 4,
    cfg_extranonce2_size = 8, cfg_extranonce1_prefix = [], cfg_coinbase_signature = ''/erikslund-pool/'',
    cfg_coinbase_version = 1, cfg_donation_percent = (Finite 0), cfg_donation_address = [],
    cfg_work_rebroadcast_seconds = (Finite 30), cfg_poll_interval = (Finite 1), cfg_stats_directory = ''stats'',
    cfg_status_interval_seconds = (Finite 30), cfg_user_stats_retention_days = 90, cfg_zmq_block_endpoint = [],
    cfg_fast_block_notify = True, cfg_work_source = ''rpc'', cfg_ipc_socket_path = ''/tmp/btc-mining.sock'',
    cfg_max_clients = 1024, cfg_max_workers_per_address = 256, cfg_max_line_bytes = 16384, cfg_drop_idle_seconds =
    3600, cfg_auth_timeout_seconds = 30, cfg_max_protocol_errors = 100, cfg_worker_threads = 0\<rparr>"

record NodeEntry =
  ne_address :: string
  ne_username :: "string option"
  ne_password :: "string option"
  ne_notify :: "bool option"

datatype ScalarOrList = Scalar string | Strings "string list"

datatype MaskEntry = MaskNumber u32 | MaskText string

record ConfigFile =
  cf_bitcoin_nodes :: "(NodeEntry list) option"
  cf_stratum_listen :: "ScalarOrList option"
  cf_sv2_listen :: "ScalarOrList option"
  cf_sv2_plaintext_listen :: "ScalarOrList option"
  cf_api_listen :: "ScalarOrList option"
  cf_proxy_protocol_from :: "ScalarOrList option"
  cf_sv2_static_secret_key_file :: "string option"
  cf_sv2_authority_public_key_file :: "string option"
  cf_sv2_certificate_file :: "string option"
  cf_initial_difficulty :: "double option"
  cf_minimum_difficulty :: "double option"
  cf_maximum_difficulty :: "double option"
  cf_variable_difficulty :: "bool option"
  cf_vardiff_target_shares_per_minute :: "double option"
  cf_vardiff_retarget_seconds :: "int option"
  cf_extranonce1_size :: "nat option"
  cf_extranonce2_size :: "nat option"
  cf_coinbase_signature :: "string option"
  cf_coinbase_version :: "u32 option"
  cf_donation_percent :: "double option"
  cf_donation_address :: "string option"
  cf_work_rebroadcast_seconds :: "double option"
  cf_stats_directory :: "string option"
  cf_status_interval_seconds :: "double option"
  cf_user_stats_retention_days :: "int option"
  cf_zmq_block_endpoint :: "string option"
  cf_fast_block_notify :: "bool option"
  cf_work_source :: "string option"
  cf_ipc_socket_path :: "string option"
  cf_max_clients :: "int option"
  cf_max_workers_per_address :: "int option"
  cf_max_line_bytes :: "nat option"
  cf_drop_idle_seconds :: "int option"
  cf_auth_timeout_seconds :: "int option"
  cf_max_protocol_errors :: "int option"
  cf_worker_threads :: "int option"
  cf_extranonce1_prefix :: "string option"
  cf_block_poll_milliseconds :: "double option"
  cf_version_rolling_mask :: "MaskEntry option"

section \<open>Listen addresses\<close>

text \<open>\<^verbatim>\<open>std::from_chars\<close> of a 32-bit unsigned integer that has to take the whole text.\<close>

definition from_chars_u32 :: "string \<Rightarrow> nat option" where
  "from_chars_u32 s =
    (if s = [] \<or> \<not> list_all is_digit s \<or> decimal_value 0 s \<ge> 2 ^ 32 then None else Some (decimal_value 0 s))"

definition split_host_port :: "string \<Rightarrow> (string \<times> u16) result" where
  "split_host_port host_port =
    (case rfind CHR '':'' host_port of
       None \<Rightarrow> Inl (Config_error (''listen address has no port (expected host:port or :port): '' @ host_port))
     | Some colon \<Rightarrow>
         (case from_chars_u32 (drop (colon + 1) host_port) of
            None \<Rightarrow> Inl (Config_error (''invalid port in listen address: '' @ host_port))
          | Some port \<Rightarrow>
              if port < 1 \<or> port > 65535 then Inl (Config_error (''invalid port in listen address: '' @ host_port))
              else Inr (take colon host_port, word_of_nat port)))"

fun to_list :: "ScalarOrList \<Rightarrow> string list" where
  "to_list (Scalar one) = [one]"
| "to_list (Strings list) = list"

definition listen_entry :: "string \<Rightarrow> string \<Rightarrow> string \<Rightarrow> string \<Rightarrow> u16 result" where
  "listen_entry option_name default_host host url =
    bindE (split_host_port url) (\<lambda>(url_host, port).
      let url_host = (if url_host = [] then default_host else url_host)
      in if url_host \<noteq> host then Inl (Config_error (option_name @ '' entries must all use the same host (per-port hosts are not supported): '' @ url))
         else Inr port)"

definition parse_listen ::
  "ScalarOrList option \<Rightarrow> string \<Rightarrow> string \<Rightarrow> string \<Rightarrow> u16 list \<Rightarrow> (string \<times> u16 list) result"
where
  "parse_listen entry option_name default_host host ports =
    (case entry of
       None \<Rightarrow> Inr (host, ports)
     | Some entry \<Rightarrow>
         let urls = to_list entry
         in if urls = [] then Inr (host, ports)
            else bindE (split_host_port (hd urls)) (\<lambda>(host, _).
              let host = (if host = [] then default_host else host)
              in bindE (mapE (listen_entry option_name default_host host) urls) (\<lambda>ports. Inr (host, ports))))"

section \<open>Validation\<close>

definition credential_file_count :: "Config \<Rightarrow> nat" where
  "credential_file_count config = of_bool (cfg_sv2_static_secret_key_file config \<noteq> [])
    + of_bool (cfg_sv2_authority_public_key_file config \<noteq> []) + of_bool (cfg_sv2_certificate_file config \<noteq> [])"

definition check_ranges :: "Config \<Rightarrow> unit result" where
  "check_ranges config =
    (if dless (cfg_donation_percent config) (Finite 0) \<or> dless (Finite 100) (cfg_donation_percent config)
     then Inl (Config_error ''donation_percent must be in [0.0, 100.0]'')
     else if dless (Finite 0) (cfg_donation_percent config) \<and> cfg_donation_address config = []
     then Inl (Config_error ''donation_percent > 0 requires a donation_address'')
     else if dleq (cfg_initial_difficulty config) (Finite 0)
     then Inl (Config_error ''initial_difficulty must be > 0'')
     else if dleq (cfg_minimum_difficulty config) (Finite 0)
     then Inl (Config_error ''minimum_difficulty must be > 0'')
     else if dless (cfg_maximum_difficulty config) (Finite 0)
     then Inl (Config_error ''maximum_difficulty must be >= 0 (0 = no maximum)'')
     else if dless (Finite 0) (cfg_maximum_difficulty config) \<and> dless (cfg_maximum_difficulty config) (cfg_minimum_difficulty config)
     then Inl (Config_error ''maximum_difficulty must be >= minimum_difficulty (or 0 for no maximum)'')
     else if dleq (cfg_vardiff_target_shares_per_minute config) (Finite 0)
     then Inl (Config_error ''vardiff_target_shares_per_minute must be > 0'')
     else if cfg_vardiff_retarget_seconds config < 1
     then Inl (Config_error ''vardiff_retarget_seconds must be >= 1'')
     else if dless (cfg_work_rebroadcast_seconds config) (Finite 1)
     then Inl (Config_error ''work_rebroadcast_seconds must be >= 1'')
     else if cfg_work_source config \<noteq> ''rpc'' \<and> cfg_work_source config \<noteq> ''ipc''
     then Inl (Config_error (''work_source must be '' @ quote @ ''rpc'' @ quote @ '' or '' @ quote @ ''ipc'' @ quote))
     else if cfg_work_source config = ''ipc'' \<and> cfg_ipc_socket_path config = []
     then Inl (Config_error ''work_source: ipc requires a non-empty ipc_socket_path'')
     else if dleq (cfg_poll_interval config) (Finite 0)
     then Inl (Config_error ''block_poll_milliseconds must be >= 1'')
     else if cfg_extranonce1_size config < 4 \<or> cfg_extranonce1_size config > 8
     then Inl (Config_error ''extranonce1_size must be in [4, 8]'')
     else if length (cfg_extranonce1_prefix config) > cfg_extranonce1_size config - 4
     then Inl (Config_error ''extranonce1_prefix must leave at least 4 counter bytes'')
     else if cfg_extranonce2_size config < 2 \<or> cfg_extranonce2_size config > 8
     then Inl (Config_error ''extranonce2_size must be in [2, 8]'')
     else if dless (cfg_status_interval_seconds config) (Finite 0)
     then Inl (Config_error ''status_interval_seconds must be >= 0'')
     else if cfg_user_stats_retention_days config < 0 \<or> cfg_user_stats_retention_days config > 36500
     then Inl (Config_error ''user_stats_retention_days must be in [0, 36500] (0 keeps files forever)'')
     else if cfg_max_clients config < 0
     then Inl (Config_error ''max_clients must be >= 0'')
     else if cfg_max_workers_per_address config < 0
     then Inl (Config_error ''max_workers_per_address must be >= 0 (0 = unlimited)'')
     else if cfg_max_line_bytes config < 1 \<or> cfg_max_line_bytes config > 0x00ffffff
     then Inl (Config_error ''max_line_bytes must be in [1, 16777215]'')
     else if cfg_drop_idle_seconds config < 0
     then Inl (Config_error ''drop_idle_seconds must be >= 0'')
     else if cfg_auth_timeout_seconds config < 0
     then Inl (Config_error ''auth_timeout_seconds must be >= 0'')
     else if cfg_max_protocol_errors config < 0
     then Inl (Config_error ''max_protocol_errors must be >= 0'')
     else if kMaxHeightPush + cfg_extranonce1_size config + cfg_extranonce2_size config + length (cfg_coinbase_signature config) > kMaxScriptSig
     then Inl (Config_error ''coinbase_signature too long: it must leave room in the 100-byte coinbase scriptSig for the height push and extranonces'')
     else Inr ())"

definition finalize_and_validate :: "Config \<Rightarrow> Config result" where
  "finalize_and_validate config =
    (let rollable = cfg_version_rolling_mask config AND 0x1fffe000
     in if rollable = 0 then Inl (Config_error ''version_rolling_mask must set at least one BIP320 bit (1fffe000)'')
        else let config = config\<lparr>cfg_version_rolling_mask := rollable\<rparr>; count = credential_file_count config
          in if count \<noteq> 0 \<and> count \<noteq> 3 then Inl (Config_error ''SV2 Noise credentials require all three of sv2_static_secret_key_file, sv2_authority_public_key_file, and sv2_certificate_file'')
             else if cfg_sv2_ports config \<noteq> [] \<and> count \<noteq> 3
             then Inl (Config_error ''sv2_listen requires all three SV2 Noise credential files'')
             else if cfg_sv2_plaintext_ports config \<noteq> [] \<and> cfg_sv2_plaintext_host config \<noteq> ''127.0.0.1''
             then Inl (Config_error ''sv2_plaintext_listen is development-only and must bind 127.0.0.1'')
             else if list_ex (\<lambda>port. port \<in> set (cfg_sv2_plaintext_ports config)) (cfg_sv2_ports config)
             then Inl (Config_error ''sv2_listen and sv2_plaintext_listen must not overlap; use distinct ports'')
             else bindE (check_ranges config) (\<lambda>_. Inr config))"

section \<open>From the file to the configuration\<close>

definition opt :: "'a \<Rightarrow> 'a option \<Rightarrow> 'a" where
  "opt field value = (case value of Some v \<Rightarrow> v | None \<Rightarrow> field)"

definition config_nodes :: "ConfigFile \<Rightarrow> Config \<Rightarrow> Config result" where
  "config_nodes file config =
    (case cf_bitcoin_nodes file of
       Some (node # nodes) \<Rightarrow>
         if ne_address node = [] then Inl (Config_error ''bitcoin_nodes[0] requires an address'')
         else let config = config\<lparr>cfg_rpc_url := ne_address node, cfg_rpc_user := opt [] (ne_username node),
                    cfg_rpc_password := opt [] (ne_password node)\<rparr>
           in bindE (mapE (\<lambda>n. if ne_address n = [] then Inl (Config_error ''a bitcoin_nodes entry requires an address'')
                 else Inr \<lparr>ep_url = ne_address n, ep_user = opt (cfg_rpc_user config) (ne_username n),
                            ep_password = opt (cfg_rpc_password config) (ne_password n)\<rparr>) nodes) (\<lambda>failover.
               Inr (config\<lparr>cfg_rpc_failover := cfg_rpc_failover config @ failover\<rparr>))
     | _ \<Rightarrow> Inr config)"

definition stratum_entry :: "string \<Rightarrow> string \<Rightarrow> u16 result" where
  "stratum_entry bind_host url =
    bindE (split_host_port url) (\<lambda>(host, port).
      if host \<noteq> bind_host
      then Inl (Config_error (''stratum_listen entries must all use the same host (per-port hosts are not supported): '' @ url))
      else Inr port)"

definition config_stratum :: "ConfigFile \<Rightarrow> Config \<Rightarrow> Config result" where
  "config_stratum file config =
    (case cf_stratum_listen file of
       None \<Rightarrow> Inr config
     | Some entry \<Rightarrow>
         let urls = to_list entry
         in if urls = [] then Inr config
            else bindE (split_host_port (hd urls)) (\<lambda>(host, _).
              bindE (mapE (stratum_entry host) urls) (\<lambda>ports.
                Inr (config\<lparr>cfg_bind_host := host, cfg_bind_ports := ports, cfg_bind_port := hd ports\<rparr>))))"

definition config_api :: "ConfigFile \<Rightarrow> Config \<Rightarrow> Config result" where
  "config_api file config =
    (case cf_api_listen file of
       None \<Rightarrow> Inr config
     | Some entry \<Rightarrow>
         let entries = to_list entry
         in if entries = [] then Inr config
            else bindE (split_host_port (hd entries)) (\<lambda>(host, port).
              Inr (config\<lparr>cfg_api_host := (if host = [] then ''127.0.0.1'' else host), cfg_api_port := port\<rparr>)))"

definition config_fields :: "ConfigFile \<Rightarrow> Config \<Rightarrow> Config" where
  "config_fields file config =
    config\<lparr>cfg_sv2_static_secret_key_file := opt (cfg_sv2_static_secret_key_file config) (cf_sv2_static_secret_key_file file),
       cfg_sv2_authority_public_key_file := opt (cfg_sv2_authority_public_key_file config) (cf_sv2_authority_public_key_file file),
       cfg_sv2_certificate_file := opt (cfg_sv2_certificate_file config) (cf_sv2_certificate_file file),
       cfg_initial_difficulty := opt (cfg_initial_difficulty config) (cf_initial_difficulty file),
       cfg_minimum_difficulty := opt (cfg_minimum_difficulty config) (cf_minimum_difficulty file),
       cfg_maximum_difficulty := opt (cfg_maximum_difficulty config) (cf_maximum_difficulty file),
       cfg_variable_difficulty := opt (cfg_variable_difficulty config) (cf_variable_difficulty file),
       cfg_vardiff_target_shares_per_minute := opt (cfg_vardiff_target_shares_per_minute config) (cf_vardiff_target_shares_per_minute file),
       cfg_vardiff_retarget_seconds := opt (cfg_vardiff_retarget_seconds config) (cf_vardiff_retarget_seconds file),
       cfg_extranonce1_size := opt (cfg_extranonce1_size config) (cf_extranonce1_size file),
       cfg_extranonce2_size := opt (cfg_extranonce2_size config) (cf_extranonce2_size file),
       cfg_coinbase_signature := opt (cfg_coinbase_signature config) (cf_coinbase_signature file),
       cfg_coinbase_version := opt (cfg_coinbase_version config) (cf_coinbase_version file),
       cfg_donation_percent := opt (cfg_donation_percent config) (cf_donation_percent file),
       cfg_donation_address := opt (cfg_donation_address config) (cf_donation_address file),
       cfg_work_rebroadcast_seconds := opt (cfg_work_rebroadcast_seconds config) (cf_work_rebroadcast_seconds file),
       cfg_stats_directory := opt (cfg_stats_directory config) (cf_stats_directory file),
       cfg_status_interval_seconds := opt (cfg_status_interval_seconds config) (cf_status_interval_seconds file),
       cfg_user_stats_retention_days := opt (cfg_user_stats_retention_days config) (cf_user_stats_retention_days file),
       cfg_zmq_block_endpoint := opt (cfg_zmq_block_endpoint config) (cf_zmq_block_endpoint file),
       cfg_fast_block_notify := opt (cfg_fast_block_notify config) (cf_fast_block_notify file),
       cfg_work_source := opt (cfg_work_source config) (cf_work_source file),
       cfg_ipc_socket_path := opt (cfg_ipc_socket_path config) (cf_ipc_socket_path file),
       cfg_max_clients := opt (cfg_max_clients config) (cf_max_clients file),
       cfg_max_workers_per_address := opt (cfg_max_workers_per_address config) (cf_max_workers_per_address file),
       cfg_max_line_bytes := opt (cfg_max_line_bytes config) (cf_max_line_bytes file),
       cfg_drop_idle_seconds := opt (cfg_drop_idle_seconds config) (cf_drop_idle_seconds file),
       cfg_auth_timeout_seconds := opt (cfg_auth_timeout_seconds config) (cf_auth_timeout_seconds file),
       cfg_max_protocol_errors := opt (cfg_max_protocol_errors config) (cf_max_protocol_errors file),
       cfg_worker_threads := opt (cfg_worker_threads config) (cf_worker_threads file)\<rparr>"

definition config_prefix :: "ConfigFile \<Rightarrow> Config \<Rightarrow> Config result" where
  "config_prefix file config =
    (case cf_extranonce1_prefix file of
       None \<Rightarrow> Inr config
     | Some prefix_hex \<Rightarrow>
         if prefix_hex \<noteq> [] \<and> \<not> is_hex prefix_hex
         then Inl (Config_error ''extranonce1_prefix must be an even-length hex string'')
         else bindE (from_hex prefix_hex) (\<lambda>bs. Inr (config\<lparr>cfg_extranonce1_prefix := bs\<rparr>)))"

text \<open>
  \<^verbatim>\<open>std::stoul\<close> with base 16: leading blanks, a sign and a \<^verbatim>\<open>0x\<close> prefix are taken, the digits end at the first other character,
  a negated value wraps to 64 bits; \<open>None\<close> when it throws.
\<close>

definition stoul_hex :: "string \<Rightarrow> u64 option" where
  "stoul_hex s =
    (let s = dropWhile (\<lambda>c. c \<in> {CHR '' '', CHR 0x09, CHR 0x0A, CHR 0x0B, CHR 0x0C, CHR 0x0D}) s;
         negative = (s \<noteq> [] \<and> hd s = CHR ''-'');
         s = (if s \<noteq> [] \<and> (hd s = CHR ''-'' \<or> hd s = CHR ''+'') then tl s else s);
         s = (if length s > 2 \<and> take 1 s = ''0'' \<and> (s ! 1 = CHR ''x'' \<or> s ! 1 = CHR ''X'') \<and> 0 \<le> kHexTable (s ! 2) then drop 2 s else s);
         digits = takeWhile (\<lambda>c. 0 \<le> kHexTable c) s;
         v = foldl (\<lambda>v c. v * 16 + nat (kHexTable c)) 0 digits
     in if digits = [] \<or> v \<ge> 2 ^ 64 then None else Some (if negative then - word_of_nat v else word_of_nat v))"

definition config_mask :: "ConfigFile \<Rightarrow> Config \<Rightarrow> Config result" where
  "config_mask file config =
    (case cf_version_rolling_mask file of
       None \<Rightarrow> Inr config
     | Some (MaskNumber num) \<Rightarrow> Inr (config\<lparr>cfg_version_rolling_mask := num\<rparr>)
     | Some (MaskText txt) \<Rightarrow>
         (case stoul_hex txt of
            None \<Rightarrow> Inl (Config_error ''invalid version_rolling_mask'')
          | Some v \<Rightarrow> Inr (config\<lparr>cfg_version_rolling_mask := ucast v\<rparr>)))"

definition config_from :: "ConfigFile \<Rightarrow> Config result" where
  "config_from file =
    bindE (config_nodes file Config_init) (\<lambda>config.
    bindE (config_stratum file config) (\<lambda>config.
    bindE (parse_listen (cf_sv2_listen file) ''sv2_listen'' ''0.0.0.0'' (cfg_sv2_host config) (cfg_sv2_ports config)) (\<lambda>(host, ports).
    let config = config\<lparr>cfg_sv2_host := host, cfg_sv2_ports := ports\<rparr> in
    bindE (parse_listen (cf_sv2_plaintext_listen file) ''sv2_plaintext_listen'' ''127.0.0.1'' (cfg_sv2_plaintext_host config)
      (cfg_sv2_plaintext_ports config)) (\<lambda>(host, ports).
    let config = config\<lparr>cfg_sv2_plaintext_host := host, cfg_sv2_plaintext_ports := ports\<rparr> in
    bindE (config_api file config) (\<lambda>config.
    let config = (case cf_proxy_protocol_from file of Some entry \<Rightarrow> config\<lparr>cfg_proxy_protocol_from := to_list entry\<rparr> | None \<Rightarrow> config);
        config = config_fields file config in
    bindE (config_prefix file config) (\<lambda>config.
    let config = (case cf_block_poll_milliseconds file of
      Some ms \<Rightarrow> config\<lparr>cfg_poll_interval := ddiv ms (Finite 1000)\<rparr> | None \<Rightarrow> config) in
    bindE (config_mask file config) finalize_and_validate))))))"

definition runtime_config :: "Config \<Rightarrow> RuntimeConfig" where
  "runtime_config config = \<lparr>rc_initial_difficulty = cfg_initial_difficulty config,
    rc_minimum_difficulty = cfg_minimum_difficulty config,
    rc_maximum_difficulty = cfg_maximum_difficulty config,
    rc_variable_difficulty = cfg_variable_difficulty config,
    rc_vardiff_target_shares_per_minute = cfg_vardiff_target_shares_per_minute config,
    rc_vardiff_retarget_seconds = cfg_vardiff_retarget_seconds config,
    rc_work_rebroadcast_seconds = cfg_work_rebroadcast_seconds config,
    rc_poll_interval = cfg_poll_interval config,
    rc_status_interval_seconds = cfg_status_interval_seconds config,
    rc_user_stats_retention_days = cfg_user_stats_retention_days config,
    rc_fast_block_notify = cfg_fast_block_notify config,
    rc_max_clients = cfg_max_clients config,
    rc_max_workers_per_address = cfg_max_workers_per_address config,
    rc_drop_idle_seconds = cfg_drop_idle_seconds config,
    rc_auth_timeout_seconds = cfg_auth_timeout_seconds config,
    rc_max_protocol_errors = cfg_max_protocol_errors config\<rparr>"

definition rpc_endpoints :: "Config \<Rightarrow> RpcEndpoint list" where
  "rpc_endpoints config =
    \<lparr>ep_url = cfg_rpc_url config, ep_user = cfg_rpc_user config, ep_password = cfg_rpc_password config\<rparr> # cfg_rpc_failover config"

definition stratum_ports :: "Config \<Rightarrow> u16 list" where
  "stratum_ports config = (if cfg_bind_ports config = [] then [cfg_bind_port config] else cfg_bind_ports config)"

definition restart_required_changes :: "Config \<Rightarrow> Config \<Rightarrow> string list" where
  "restart_required_changes config replacement =
    map snd (filter fst
      [(rpc_endpoints config \<noteq> rpc_endpoints replacement, ''bitcoin_nodes''),
       (cfg_bind_host config \<noteq> cfg_bind_host replacement \<or> cfg_bind_port config \<noteq> cfg_bind_port replacement
          \<or> cfg_bind_ports config \<noteq> cfg_bind_ports replacement, ''stratum_listen''),
       (cfg_sv2_host config \<noteq> cfg_sv2_host replacement \<or> cfg_sv2_ports config \<noteq> cfg_sv2_ports replacement, ''sv2_listen''),
       (cfg_sv2_static_secret_key_file config \<noteq> cfg_sv2_static_secret_key_file replacement, ''sv2_static_secret_key_file''),
       (cfg_sv2_authority_public_key_file config \<noteq> cfg_sv2_authority_public_key_file replacement, ''sv2_authority_public_key_file''),
       (cfg_sv2_certificate_file config \<noteq> cfg_sv2_certificate_file replacement, ''sv2_certificate_file''),
       (cfg_sv2_plaintext_host config \<noteq> cfg_sv2_plaintext_host replacement
          \<or> cfg_sv2_plaintext_ports config \<noteq> cfg_sv2_plaintext_ports replacement, ''sv2_plaintext_listen''),
       (cfg_proxy_protocol_from config \<noteq> cfg_proxy_protocol_from replacement, ''proxy_protocol_from''),
       (cfg_api_host config \<noteq> cfg_api_host replacement \<or> cfg_api_port config \<noteq> cfg_api_port replacement, ''api_listen''),
       (cfg_extranonce1_size config \<noteq> cfg_extranonce1_size replacement, ''extranonce1_size''),
       (cfg_extranonce2_size config \<noteq> cfg_extranonce2_size replacement, ''extranonce2_size''),
       (cfg_extranonce1_prefix config \<noteq> cfg_extranonce1_prefix replacement, ''extranonce1_prefix''),
       (cfg_coinbase_signature config \<noteq> cfg_coinbase_signature replacement, ''coinbase_signature''),
       (cfg_coinbase_version config \<noteq> cfg_coinbase_version replacement, ''coinbase_version''),
       (\<not> deq (cfg_donation_percent config) (cfg_donation_percent replacement), ''donation_percent''),
       (cfg_donation_address config \<noteq> cfg_donation_address replacement, ''donation_address''),
       (cfg_stats_directory config \<noteq> cfg_stats_directory replacement, ''stats_directory''),
       (cfg_zmq_block_endpoint config \<noteq> cfg_zmq_block_endpoint replacement, ''zmq_block_endpoint''),
       (cfg_work_source config \<noteq> cfg_work_source replacement, ''work_source''),
       (cfg_ipc_socket_path config \<noteq> cfg_ipc_socket_path replacement, ''ipc_socket_path''),
       (cfg_max_line_bytes config \<noteq> cfg_max_line_bytes replacement, ''max_line_bytes''),
       (cfg_worker_threads config \<noteq> cfg_worker_threads replacement, ''worker_threads''),
       (cfg_version_rolling_mask config \<noteq> cfg_version_rolling_mask replacement, ''version_rolling_mask'')])"

definition from_string :: "(string \<Rightarrow> string + ConfigFile) \<Rightarrow> string \<Rightarrow> Config result" where
  "from_string read_yaml content =
    (case read_yaml content of
       Inl message \<Rightarrow> Inl (Config_error (''invalid config: '' @ message))
     | Inr file \<Rightarrow> config_from file)"

definition from_file :: "(string \<Rightarrow> string option) \<Rightarrow> (string \<Rightarrow> string + ConfigFile) \<Rightarrow> string \<Rightarrow> Config result" where
  "from_file read_file read_yaml path =
    (case read_file path of
       None \<Rightarrow> Inl (Config_error (''cannot open config file: '' @ path))
     | Some content \<Rightarrow> from_string read_yaml content)"

section \<open>What validation guarantees\<close>

lemma finalize_facts:
  assumes "finalize_and_validate config = Inr config'"
  shows "config' = config\<lparr>cfg_version_rolling_mask := cfg_version_rolling_mask config AND 0x1fffe000\<rparr>"
    "cfg_version_rolling_mask config' \<noteq> 0" "check_ranges config' = Inr ()"
  using assms by (auto simp: finalize_and_validate_def Let_def result_simps split: if_split_asm)

lemma check_ranges_facts:
  assumes "check_ranges config = Inr ()"
  shows "\<not> dless (Finite 100) (cfg_donation_percent config)" "\<not> dleq (cfg_minimum_difficulty config) (Finite 0)"
    "4 \<le> cfg_extranonce1_size config" "cfg_extranonce1_size config \<le> 8"
    "length (cfg_extranonce1_prefix config) \<le> cfg_extranonce1_size config - 4"
    "2 \<le> cfg_extranonce2_size config" "cfg_extranonce2_size config \<le> 8"
    "kMaxHeightPush + cfg_extranonce1_size config + cfg_extranonce2_size config + length (cfg_coinbase_signature config) \<le> kMaxScriptSig"
  using assms unfolding check_ranges_def by (simp_all split: if_split_asm)

lemma bindE_InrE:
  assumes "bindE m f = Inr y"
  obtains x where "m = Inr x" "f x = Inr y"
  using assms by (cases m) auto

lemma config_from_validated:
  assumes "config_from file = Inr config"
  obtains config0 where "finalize_and_validate config0 = Inr config"
  using assms unfolding config_from_def Let_def split_beta by (elim bindE_InrE) (rule that)

lemma payout_any_percent:
  assumes "\<not> dless (Finite 100) (j_donation_percent job)" "unat (j_coinbase_value job) \<le> 2100000000000000"
  shows "\<exists>outputs. payout_outputs job script = Inr outputs \<and> outputs \<noteq> []
    \<and> sum_list (map (\<lambda>output. unat (out_value output)) outputs) = unat (j_coinbase_value job)"
proof (cases "dleq (j_donation_percent job) (Finite 100)")
  case True
  then show ?thesis using payout_outputs_value [OF True assms(2)] by blast
next
  case False
  then have "j_donation_percent job = NaN" using assms(1) by (cases "j_donation_percent job") auto
  then show ?thesis by (simp add: payout_outputs_def)
qed

lemma config_makes_job:
  assumes "config_from file = Inr config"
    and "from_hex (bt_previousblockhash bt) = Inr bs" "length bs = 32" "bt_coinbase_script_sig_prefix bt \<noteq> []"
      "length (bt_coinbase_script_sig_prefix bt) \<le> kMaxHeightPush"
  obtains job where "make_Job job_id bt (map byte_of_char (cfg_coinbase_signature config)) (cfg_extranonce1_size config)
        (cfg_extranonce2_size config) (cfg_coinbase_version config) clean donation_script (cfg_donation_percent config) = Inr job"
proof -
  obtain config0 where c0: "finalize_and_validate config0 = Inr config" by (rule config_from_validated [OF assms(1)])
  note r = check_ranges_facts [OF finalize_facts(3) [OF c0]]
  show ?thesis
    using that make_Job_exists [OF assms(2-4), of "cfg_extranonce1_size config" "cfg_extranonce2_size config"
        "map byte_of_char (cfg_coinbase_signature config)"] r(8) assms(5) by (fastforce simp: kMaxScriptSig_def)
qed


text \<open>An empty configuration file.\<close>

definition ConfigFile_init :: ConfigFile where
  "ConfigFile_init = \<lparr>cf_bitcoin_nodes = None, cf_stratum_listen
    = None, cf_sv2_listen = None, cf_sv2_plaintext_listen = None, cf_api_listen = None, cf_proxy_protocol_from = None,
    cf_sv2_static_secret_key_file = None, cf_sv2_authority_public_key_file = None, cf_sv2_certificate_file = None,
    cf_initial_difficulty = None, cf_minimum_difficulty = None, cf_maximum_difficulty = None, cf_variable_difficulty =
    None, cf_vardiff_target_shares_per_minute = None, cf_vardiff_retarget_seconds = None, cf_extranonce1_size = None,
    cf_extranonce2_size = None, cf_coinbase_signature = None, cf_coinbase_version = None, cf_donation_percent = None,
    cf_donation_address = None, cf_work_rebroadcast_seconds = None, cf_stats_directory = None,
    cf_status_interval_seconds = None, cf_user_stats_retention_days = None, cf_zmq_block_endpoint = None,
    cf_fast_block_notify = None, cf_work_source = None, cf_ipc_socket_path = None, cf_max_clients = None,
    cf_max_workers_per_address = None, cf_max_line_bytes = None, cf_drop_idle_seconds = None, cf_auth_timeout_seconds
    = None, cf_max_protocol_errors = None, cf_worker_threads = None, cf_extranonce1_prefix = None,
    cf_block_poll_milliseconds = None, cf_version_rolling_mask = None\<rparr>"

lemma empty_file_accepted: "\<exists>config. config_from ConfigFile_init = Inr config"
proof -
  have "representable 1" by (rule representableI [of _ 1 0]) simp_all
  then obtain y where y: "round64 (1 / 1000) = Finite y" "0 \<le> y" "y \<le> 1"
    using round64_between [of 0 1 "1 / 1000"] by auto
  have "representable (1 / 2 ^ 10)" by (rule representableI [of _ 1 "- 10"]) (simp_all add: power_int_def power_one_over)
  then have "dleq (round64 (1 / 2 ^ 10)) (round64 (1 / 1000))" by (intro round64_mono) simp
  then have "0 < y" using y round64_representable [OF \<open>representable (1 / 2 ^ 10)\<close>] by simp
  then show ?thesis
    using y by (simp add: config_from_def ConfigFile_init_def Config_init_def config_nodes_def config_stratum_def parse_listen_def
        config_api_def config_fields_def config_prefix_def config_mask_def opt_def finalize_and_validate_def check_ranges_def
        credential_file_count_def kMaxHeightPush_def kMaxScriptSig_def Let_def)
qed


end
