(* ===== verification/Session.thy ===== *)
theory Session
  imports Work_Signature Config Accounting "HOL-Library.Char_ord" "HOL-Library.List_Lexorder"
begin

text \<open>
  \<^verbatim>\<open>src/src/stratum/session.cpp\<close>: the state machine of one Stratum V1 connection. The pool behind the session is the
  record \<open>PoolContext\<close> (the virtual interface of the sources), the clocks and libraries are the record \<open>Platform\<close>,
  and what an operation does to the outside is a list of \<open>Effect\<close>s. A submission takes the session lock twice, with the
  hashing in between; the two critical sections are separate operations.
\<close>

section \<open>Text from clients\<close>

definition sanitize :: "string \<Rightarrow> nat \<Rightarrow> string" where
  "sanitize v limit =
    (if v = [] then ''?''
     else map (\<lambda>c. if 0x20 \<le> (of_char c :: nat) \<and> (of_char c :: nat) \<noteq> 0x7f then c else CHR ''?'') (take limit v))"

definition ascii_only :: "string \<Rightarrow> nat \<Rightarrow> string" where
  "ascii_only v limit = take limit (filter (\<lambda>c. 0x20 \<le> (of_char c :: nat) \<and> (of_char c :: nat) \<le> 0x7e) v)"

definition append_lower :: "string \<Rightarrow> string \<Rightarrow> string" where
  "append_lower out v = out @ map to_lower v"

definition append_canonical_hex :: "string \<Rightarrow> string \<Rightarrow> nat \<Rightarrow> string" where
  "append_canonical_hex out v width =
    append_lower (if length v < width then out @ replicate (width - length v) CHR ''0'' else out) v"

definition or_empty :: "string option \<Rightarrow> string" where
  "or_empty v = (case v of Some s \<Rightarrow> s | None \<Rightarrow> [])"

section \<open>The pool as the session sees it\<close>

record PoolContext =
  pc_extranonce2_size :: nat
  pc_runtime_config :: RuntimeConfig
  pc_validate_address :: "string \<Rightarrow> bytes option"
  pc_current_job :: "Job option"
  pc_recent_job :: "string \<Rightarrow> Job option"
  pc_attach_worker :: "string \<Rightarrow> string \<Rightarrow> nat option"
  pc_version_mask :: u32

record Platform =
  pf_glaze :: glaze
  pf_exp :: "double \<Rightarrow> double"
  pf_now_wall :: int
  pf_now_steady :: double

datatype Effect =
    SendLine string
  | SendLines "string list"
  | NoteAccepted "nat option" string string double double
  | NoteRejected "nat option" string string RejectClass
  | AttachWorker string string
  | BlockFound string string Job ShareResult

definition kMaxSeenShares :: nat where
  "kMaxSeenShares = 16384"

record Coinbase2Cache =
  cc_job_id :: string
  cc_coinbase2 :: bytes
  cc_coinbase2_hex :: string

record Session =
  s_extranonce1 :: bytes
  s_extranonce1_hex :: string
  s_subscribed :: bool
  s_authorized :: bool
  s_protocol_errors :: int
  s_address :: "string option"
  s_worker :: "string option"
  s_payout_script :: "bytes option"
  s_worker_accounting :: "nat option"
  s_difficulty :: double
  s_previous_difficulty :: double
  s_pending_difficulty_change :: bool
  s_connected_at :: int
  s_connected_at_steady :: double
  s_last_share_timestamp :: int
  s_last_retarget :: double
  s_shares_since_retarget :: u64
  s_version_mask :: u32
  s_user_agent :: string
  s_shares_accepted :: u64
  s_shares_rejected :: u64
  s_best_difficulty :: double
  s_total_share_difficulty :: double
  s_hashrate :: DecayingWindows
  s_coinbase2_cache :: "Coinbase2Cache option"
  s_seen_shares_current :: "string set"
  s_seen_shares_previous :: "string set"
  s_last_notified_publication_sequence :: u64

section \<open>Difficulty\<close>

definition vardiff_next :: "double \<Rightarrow> double \<Rightarrow> double \<Rightarrow> double \<Rightarrow> double \<Rightarrow> double" where
  "vardiff_next current shares_per_minute target min_difficulty max_difficulty =
    (let difficulty_cap = (if dless (Finite 0) max_difficulty then max_difficulty else Finite 1000000000000);
         current = dclamp current min_difficulty difficulty_cap
     in if dless (dmul target (Finite 2)) shares_per_minute \<and> dless current difficulty_cap
        then dmin difficulty_cap (dmul current (Finite 2))
        else if dless shares_per_minute (ddiv target (Finite 2)) then dmax min_difficulty (ddiv current (Finite 2))
        else current)"

definition clamp_suggested_difficulty :: "double \<Rightarrow> double \<Rightarrow> double \<Rightarrow> double option" where
  "clamp_suggested_difficulty suggested min_difficulty max_difficulty =
    (if \<not> isfinite suggested \<or> dleq suggested (Finite 0) then None
     else let clamped = dmax suggested min_difficulty
       in Some (if dless (Finite 0) max_difficulty then dmin clamped max_difficulty else clamped))"

definition make_Session :: "PoolContext \<Rightarrow> Platform \<Rightarrow> bytes \<Rightarrow> Session" where
  "make_Session ctx pf extranonce =
    \<lparr>s_extranonce1 = extranonce, s_extranonce1_hex = to_hex extranonce, s_subscribed = False, s_authorized = False,
     s_protocol_errors = 0, s_address = None, s_worker = None, s_payout_script = None, s_worker_accounting = None,
     s_difficulty = dmax (rc_initial_difficulty (pc_runtime_config ctx)) (rc_minimum_difficulty (pc_runtime_config ctx)),
     s_previous_difficulty = Finite 0, s_pending_difficulty_change = False, s_connected_at = pf_now_wall pf,
     s_connected_at_steady = pf_now_steady pf, s_last_share_timestamp = 0, s_last_retarget = pf_now_steady pf,
     s_shares_since_retarget = 0, s_version_mask = 0, s_user_agent = ''?'', s_shares_accepted = 0, s_shares_rejected = 0,
     s_best_difficulty = Finite 0, s_total_share_difficulty = Finite 0,
     s_hashrate = make_DecayingWindows kHashrateWindows (pf_now_steady pf), s_coinbase2_cache = None,
     s_seen_shares_current = {}, s_seen_shares_previous = {}, s_last_notified_publication_sequence = 0\<rparr>"

definition begin_difficulty_change :: "Session \<Rightarrow> double \<Rightarrow> Session" where
  "begin_difficulty_change s new_difficulty =
    (let s = (if \<not> s_pending_difficulty_change s then s\<lparr>s_previous_difficulty := s_difficulty s\<rparr> else s)
     in s\<lparr>s_difficulty := new_difficulty, s_pending_difficulty_change := True\<rparr>)"

definition set_difficulty_line :: "Platform \<Rightarrow> Session \<Rightarrow> string" where
  "set_difficulty_line pf s = make_set_difficulty_line (pf_glaze pf) (s_difficulty s)"

definition do_send_set_difficulty :: "Platform \<Rightarrow> Session \<Rightarrow> Effect list" where
  "do_send_set_difficulty pf s = [SendLine (set_difficulty_line pf s)]"

definition maybe_retarget :: "PoolContext \<Rightarrow> Platform \<Rightarrow> Session \<Rightarrow> Session \<times> Effect list" where
  "maybe_retarget ctx pf s =
    (let config = pc_runtime_config ctx
     in if \<not> rc_variable_difficulty config \<or> \<not> s_authorized s then (s, [])
        else let now = pf_now_steady pf; elapsed = dsub now (s_last_retarget s)
          in if dless elapsed (of_integer (rc_vardiff_retarget_seconds config)) then (s, [])
             else let shares_per_minute =
                        (if dless (Finite 0) elapsed
                         then dmul (ddiv (of_u64 (s_shares_since_retarget s)) elapsed) (Finite 60) else Finite 0);
                      new_difficulty = vardiff_next (s_difficulty s) shares_per_minute
                        (rc_vardiff_target_shares_per_minute config) (rc_minimum_difficulty config) (rc_maximum_difficulty config);
                      s = s\<lparr>s_shares_since_retarget := 0, s_last_retarget := now\<rparr>
               in if \<not> deq new_difficulty (s_difficulty s)
                  then let s = begin_difficulty_change s new_difficulty in (s, do_send_set_difficulty pf s)
                  else (s, []))"

section \<open>Statistics\<close>

record ClientChannelStats =
  ch_address :: string
  ch_worker :: string
  ch_difficulty :: double
  ch_best_difficulty :: double
  ch_total_share_difficulty :: double
  ch_shares_accepted :: u64
  ch_shares_rejected :: u64
  ch_last_share_timestamp :: int
  ch_connected_seconds :: int
  ch_hashrate_windows :: "double list"
  ch_worker_accounting :: "nat option"

record ClientStats =
  cs_address :: string
  cs_worker :: string
  cs_peer :: string
  cs_user_agent :: string
  cs_difficulty :: double
  cs_best_difficulty :: double
  cs_total_share_difficulty :: double
  cs_shares_accepted :: u64
  cs_shares_rejected :: u64
  cs_last_share_timestamp :: int
  cs_connected_at :: int
  cs_connected_seconds :: int
  cs_subscribed :: bool
  cs_authorized :: bool
  cs_hashrate_windows :: "double list"
  cs_channels :: "ClientChannelStats list"

definition session_stats :: "Platform \<Rightarrow> string \<Rightarrow> Session \<Rightarrow> bool \<Rightarrow> ClientStats result" where
  "session_stats pf peer s include_worker_accounting =
    (case to_i64 (dsub (pf_now_steady pf) (s_connected_at_steady s)) of
       None \<Rightarrow> Inl (Undefined ''int64_t(now_steady - connected_at_steady)'')
     | Some connected_seconds \<Rightarrow>
         let hashrate_windows = windows_snapshot (pf_exp pf) (s_hashrate s) (pf_now_steady pf)
         in Inr \<lparr>cs_address = or_empty (s_address s), cs_worker = or_empty (s_worker s), cs_peer = peer,
           cs_user_agent = s_user_agent s, cs_difficulty = s_difficulty s, cs_best_difficulty = s_best_difficulty s,
           cs_total_share_difficulty = s_total_share_difficulty s, cs_shares_accepted = s_shares_accepted s,
           cs_shares_rejected = s_shares_rejected s, cs_last_share_timestamp = s_last_share_timestamp s,
           cs_connected_at = s_connected_at s, cs_connected_seconds = connected_seconds,
           cs_subscribed = s_subscribed s, cs_authorized = s_authorized s, cs_hashrate_windows = hashrate_windows,
           cs_channels =
             (case s_address s of
                Some address \<Rightarrow>
                  if s_authorized s then
                    [\<lparr>ch_address = address, ch_worker = or_empty (s_worker s), ch_difficulty = s_difficulty s,
                      ch_best_difficulty = s_best_difficulty s, ch_total_share_difficulty = s_total_share_difficulty s,
                      ch_shares_accepted = s_shares_accepted s, ch_shares_rejected = s_shares_rejected s,
                      ch_last_share_timestamp = s_last_share_timestamp s, ch_connected_seconds = connected_seconds,
                      ch_hashrate_windows = hashrate_windows,
                      ch_worker_accounting = (if include_worker_accounting then s_worker_accounting s else None)\<rparr>]
                  else []
              | None \<Rightarrow> [])\<rparr>)"

section \<open>Replies\<close>

definition send_message :: "Platform \<Rightarrow> json \<Rightarrow> Effect list" where
  "send_message pf message = [SendLine (or_empty (write_json (pf_glaze pf) message))]"

definition send_result_json :: "Platform \<Rightarrow> json \<Rightarrow> json \<Rightarrow> Effect list" where
  "send_result_json pf request_id result = send_message pf (make_result request_id result)"

definition send_result :: "Platform \<Rightarrow> json \<Rightarrow> bool \<Rightarrow> Effect list" where
  "send_result pf request_id result = [SendLine (make_result_line (pf_glaze pf) request_id result)]"

definition send_error :: "Platform \<Rightarrow> Session \<Rightarrow> json \<Rightarrow> StratumError \<Rightarrow> Session \<times> Effect list" where
  "send_error pf s request_id error =
    (let s = (if err_code error = err_code ERR_OTHER \<or> err_code error = err_code ERR_UNAUTHORIZED
                 \<or> err_code error = err_code ERR_NOT_SUBSCRIBED
              then s\<lparr>s_protocol_errors := s_protocol_errors s + 1\<rparr> else s)
     in (s, [SendLine (make_error_line (pf_glaze pf) request_id error)]))"

section \<open>Work for the client\<close>

definition coinbase2_for :: "Session \<Rightarrow> Job \<Rightarrow> (Session \<times> Coinbase2Cache) result" where
  "coinbase2_for s job =
    (case s_payout_script s of
       None \<Rightarrow> Inl (Logic_error ''coinbase2_for called before payout_script_ was set'')
     | Some payout_script \<Rightarrow>
         (case s_coinbase2_cache s of
            Some cache \<Rightarrow>
              if cc_job_id cache \<noteq> j_job_id job then
                bindE (Job_build_coinbase2 job payout_script) (\<lambda>coinbase2.
                  let cache = \<lparr>cc_job_id = j_job_id job, cc_coinbase2 = coinbase2, cc_coinbase2_hex = to_hex coinbase2\<rparr>
                  in Inr (s\<lparr>s_coinbase2_cache := Some cache\<rparr>, cache))
              else Inr (s, cache)
          | None \<Rightarrow>
              bindE (Job_build_coinbase2 job payout_script) (\<lambda>coinbase2.
                let cache = \<lparr>cc_job_id = j_job_id job, cc_coinbase2 = coinbase2, cc_coinbase2_hex = to_hex coinbase2\<rparr>
                in Inr (s\<lparr>s_coinbase2_cache := Some cache\<rparr>, cache))))"

definition rotate_seen_shares :: "Session \<Rightarrow> Session" where
  "rotate_seen_shares s = s\<lparr>s_seen_shares_previous := s_seen_shares_current s, s_seen_shares_current := {}\<rparr>"

definition remember :: "Session \<Rightarrow> string \<Rightarrow> Session \<times> bool" where
  "remember s key =
    (if key \<in> s_seen_shares_current s \<or> key \<in> s_seen_shares_previous s then (s, False)
     else let s = (if card (s_seen_shares_current s) \<ge> kMaxSeenShares then rotate_seen_shares s else s)
       in (s\<lparr>s_seen_shares_current := insert key (s_seen_shares_current s)\<rparr>, True))"

definition build_notify_line :: "Session \<Rightarrow> Job \<Rightarrow> bool \<Rightarrow> (Session \<times> string option) result" where
  "build_notify_line s job clean =
    (if \<not> s_subscribed s \<or> \<not> s_authorized s \<or> s_payout_script s = None then Inr (s, None)
     else let s = s\<lparr>s_last_notified_publication_sequence :=
                    max (s_last_notified_publication_sequence s) (j_publication_sequence job)\<rparr>
       in bindE (coinbase2_for s job) (\<lambda>(s, coinbase2).
         let s = (if clean \<and> s_seen_shares_current s \<noteq> {} then rotate_seen_shares s else s);
             line = make_notify_line (j_job_id job) (j_prevhash_stratum job) (j_coinbase1_hex job)
               (cc_coinbase2_hex coinbase2) (j_merkle_branch_hex job) (j_version_hex job) (j_nbits_hex job)
               (j_ntime_hex job) clean
         in Inr (s\<lparr>s_pending_difficulty_change := False\<rparr>, Some line)))"

definition send_notify :: "Session \<Rightarrow> Job \<Rightarrow> bool \<Rightarrow> (Session \<times> Effect list) result" where
  "send_notify s job clean =
    (if j_publication_sequence job \<noteq> 0 \<and> j_publication_sequence job \<le> s_last_notified_publication_sequence s
     then Inr (s, [])
     else bindE (build_notify_line s job clean) (\<lambda>(s, line).
       Inr (s, case line of Some line \<Rightarrow> [SendLine line] | None \<Rightarrow> [])))"

definition send_difficulty_then_work :: "PoolContext \<Rightarrow> Platform \<Rightarrow> Session \<Rightarrow> (Session \<times> Effect list) result" where
  "send_difficulty_then_work ctx pf s =
    (let difficulty = set_difficulty_line pf s
     in bindE (case pc_current_job ctx of Some job \<Rightarrow> build_notify_line s job True | None \<Rightarrow> Inr (s, None)) (\<lambda>(s, notify).
       Inr (s, case notify of Some line \<Rightarrow> [SendLines [difficulty, line]] | None \<Rightarrow> [SendLine difficulty])))"

section \<open>Requests\<close>

definition handle_subscribe :: "PoolContext \<Rightarrow> Platform \<Rightarrow> Session \<Rightarrow> json \<Rightarrow> string list \<Rightarrow> (Session \<times> Effect list) result" where
  "handle_subscribe ctx pf s request_id params =
    (let s = (if params \<noteq> [] \<and> hd params \<noteq> [] then s\<lparr>s_user_agent := sanitize (hd params) 128\<rparr> else s);
         s = s\<lparr>s_subscribed := True\<rparr>;
         subscription_id = s_extranonce1_hex s;
         subscriptions = JArray [JArray [JString ''mining.set_difficulty'', JString subscription_id],
           JArray [JString ''mining.notify'', JString subscription_id]];
         reply = send_result_json pf request_id (JArray [subscriptions, JString (s_extranonce1_hex s),
           JNumber (of_integer (int (pc_extranonce2_size ctx)))])
     in if s_authorized s \<and> s_payout_script s \<noteq> None then
          bindE (send_difficulty_then_work ctx pf s) (\<lambda>(s, effects). Inr (s, reply @ effects))
        else Inr (s, reply))"

text \<open>An assignment to a member of a JSON object, whose members are kept in key order.\<close>

fun json_put :: "string \<Rightarrow> json \<Rightarrow> (string \<times> json) list \<Rightarrow> (string \<times> json) list" where
  "json_put key v [] = [(key, v)]"
| "json_put key v (m # members) =
    (if key = fst m then (key, v) # members else if key < fst m then (key, v) # m # members
     else m # json_put key v members)"

definition stoul16 :: "string \<Rightarrow> nat" where
  "stoul16 text = foldl (\<lambda>v c. v * 16 + nat (kHexTable c)) 0 text"

definition configured_mask :: "Request \<Rightarrow> u32" where
  "configured_mask request =
    (if rq_version_rolling_mask_present request then
       case rq_version_rolling_mask request of
         Some mask_hex \<Rightarrow>
           if mask_hex \<noteq> [] \<and> length mask_hex \<le> 8 \<and> list_all (\<lambda>c. c \<in> set ''0123456789abcdefABCDEF'') mask_hex
           then word_of_nat (stoul16 mask_hex) else 0
       | None \<Rightarrow> 0
     else 0xffffffff)"

definition handle_configure :: "PoolContext \<Rightarrow> Platform \<Rightarrow> Session \<Rightarrow> Request \<Rightarrow> Session \<times> Effect list" where
  "handle_configure ctx pf s request =
    (let (s, result) =
       (if rq_configure_version_rolling request then
          let s = s\<lparr>s_version_mask := configured_mask request AND pc_version_mask ctx\<rparr>
          in (s, json_put ''version-rolling.mask'' (JString (format_08x (s_version_mask s)))
                   (json_put ''version-rolling'' (JBool (s_version_mask s \<noteq> 0)) []))
        else (s, []));
         result = foldl (\<lambda>result extension.
           if extension \<noteq> ''version-rolling'' \<and> map_of result extension = None
           then json_put extension (JBool False) result else result) result (rq_configure_extensions request)
     in (s, send_result_json pf (rq_id request) (JObject result)))"

definition until_dot :: "string \<Rightarrow> string" where
  "until_dot s = takeWhile (\<lambda>c. c \<noteq> CHR ''.'') s"

definition after_dot :: "string \<Rightarrow> string" where
  "after_dot s = tl (dropWhile (\<lambda>c. c \<noteq> CHR ''.'') s)"

definition handle_authorize :: "PoolContext \<Rightarrow> Platform \<Rightarrow> Session \<Rightarrow> json \<Rightarrow> string list \<Rightarrow> (Session \<times> Effect list) result" where
  "handle_authorize ctx pf s request_id params =
    (if params = [] \<or> hd params = [] then Inr (send_error pf s request_id ERR_OTHER)
     else let username = sanitize (hd params) 128; address = until_dot username
       in case pc_validate_address ctx address of
            None \<Rightarrow> Inr (s, send_result pf request_id False)
          | Some script \<Rightarrow>
              let s = (if s_payout_script s \<noteq> Some script then s\<lparr>s_coinbase2_cache := None\<rparr> else s);
                  worker = (if CHR ''.'' \<in> set (hd params) then ascii_only (after_dot (hd params)) 128 else []);
                  s = s\<lparr>s_address := Some address, s_worker := Some worker, s_payout_script := Some script,
                    s_authorized := True, s_worker_accounting := pc_attach_worker ctx address worker\<rparr>
              in bindE (send_difficulty_then_work ctx pf s) (\<lambda>(s, effects).
                Inr (s, AttachWorker address worker # send_result pf request_id True @ effects)))"

definition handle_suggest_difficulty :: "PoolContext \<Rightarrow> Platform \<Rightarrow> Session \<Rightarrow> Request \<Rightarrow> Session \<times> Effect list" where
  "handle_suggest_difficulty ctx pf s request =
    (let (s, effects) =
       (case rq_suggested_difficulty request of
          Some suggested \<Rightarrow>
            (case clamp_suggested_difficulty suggested (rc_minimum_difficulty (pc_runtime_config ctx))
                (rc_maximum_difficulty (pc_runtime_config ctx)) of
               Some clamped \<Rightarrow>
                 if \<not> deq clamped (s_difficulty s) then
                   let s = (begin_difficulty_change s clamped)\<lparr>s_shares_since_retarget := 0, s_last_retarget := pf_now_steady pf\<rparr>
                   in (s, if s_subscribed s then do_send_set_difficulty pf s else [])
                 else (s, [])
             | None \<Rightarrow> (s, []))
        | None \<Rightarrow> (s, []))
     in (s, effects @ send_result pf (rq_id request) True))"

definition dispatch :: "PoolContext \<Rightarrow> Platform \<Rightarrow> Session \<Rightarrow> Request \<Rightarrow> (Session \<times> Effect list) result" where
  "dispatch ctx pf s request =
    (let request_method = rq_method request
     in if request_method = ''mining.subscribe'' then handle_subscribe ctx pf s (rq_id request) (rq_params request)
        else if request_method = ''mining.authorize'' then handle_authorize ctx pf s (rq_id request) (rq_params request)
        else if request_method = ''mining.configure'' then Inr (handle_configure ctx pf s request)
        else if request_method = ''mining.suggest_difficulty'' then Inr (handle_suggest_difficulty ctx pf s request)
        else if request_method = ''mining.extranonce.subscribe'' then Inr (s, send_result pf (rq_id request) True)
        else if rq_id request \<noteq> JNull
        then Inr (s, [SendLine (make_error_line (pf_glaze pf) (rq_id request) ERR_OTHER)])
        else Inr (s, []))"

section \<open>Submissions\<close>

definition make_dedup_key :: "Session \<Rightarrow> string \<Rightarrow> string \<Rightarrow> string \<Rightarrow> string \<Rightarrow> string option \<Rightarrow> string" where
  "make_dedup_key s job_id share_extranonce ntime nonce version_bits =
    (let key = append_lower [] job_id @ ''|'';
         key = append_lower key share_extranonce @ ''|'';
         key = append_canonical_hex key ntime 8 @ ''|'';
         key = append_canonical_hex key nonce 8 @ ''|'';
         key = (case version_bits of Some bits \<Rightarrow> append_canonical_hex key bits 8 | None \<Rightarrow> key) @ ''|''
     in key @ format_08x (s_version_mask s))"

text \<open>What the first critical section hands to the validation outside the lock.\<close>

record Submission =
  sub_id :: json
  sub_job :: Job
  sub_coinbase2 :: Coinbase2Cache
  sub_accounting :: "nat option"
  sub_address :: string
  sub_worker :: string
  sub_extranonce :: string
  sub_ntime :: string
  sub_nonce :: string
  sub_version_bits :: "string option"
  sub_difficulty :: double
  sub_previous :: double
  sub_pending :: bool
  sub_version_mask :: u32

definition reject_locked :: "Platform \<Rightarrow> Session \<Rightarrow> json \<Rightarrow> RejectClass \<Rightarrow> StratumError \<Rightarrow> Session \<times> Effect list" where
  "reject_locked pf s request_id class error =
    (let s = s\<lparr>s_shares_rejected := s_shares_rejected s + 1\<rparr>;
         note = NoteRejected (s_worker_accounting s) (or_empty (s_address s)) (or_empty (s_worker s)) class;
         (s, effects) = send_error pf s request_id error
     in (s, note # effects))"

definition submission_snapshot ::
  "Session \<Rightarrow> json \<Rightarrow> Job \<Rightarrow> Coinbase2Cache \<Rightarrow> string \<Rightarrow> string \<Rightarrow> string \<Rightarrow> string option \<Rightarrow> Submission"
where
  "submission_snapshot s request_id job coinbase2 share_extranonce ntime nonce version_bits =
    \<lparr>sub_id = request_id, sub_job = job, sub_coinbase2 = coinbase2, sub_accounting = s_worker_accounting s,
     sub_address = or_empty (s_address s), sub_worker = or_empty (s_worker s), sub_extranonce = share_extranonce,
     sub_ntime = ntime, sub_nonce = nonce, sub_version_bits = version_bits, sub_difficulty = s_difficulty s,
     sub_previous = s_previous_difficulty s, sub_pending = s_pending_difficulty_change s,
     sub_version_mask = s_version_mask s\<rparr>"

definition submit_enter ::
  "PoolContext \<Rightarrow> Platform \<Rightarrow> Session \<Rightarrow> json \<Rightarrow> string list \<Rightarrow> ((Session \<times> Effect list) \<times> Submission option) result"
where
  "submit_enter ctx pf s request_id params =
    (if \<not> s_authorized s then Inr (send_error pf s request_id ERR_UNAUTHORIZED, None)
     else if \<not> s_subscribed s then Inr (send_error pf s request_id ERR_NOT_SUBSCRIBED, None)
     else if length params < 5 then Inr (send_error pf s request_id ERR_OTHER, None)
     else let job_id = params ! 1; share_extranonce = params ! 2; ntime = params ! 3; nonce = params ! 4;
              version_bits = (if length params > 5 \<and> params ! 5 \<noteq> [] then Some (params ! 5) else None)
       in case pc_recent_job ctx job_id of
            None \<Rightarrow> Inr (reject_locked pf s request_id Stale ERR_STALE, None)
          | Some job \<Rightarrow>
              if length share_extranonce > pc_extranonce2_size ctx * 2 \<or> length ntime > 8 \<or> length nonce > 8
                 \<or> (\<exists>bits \<in> set_option version_bits. length bits > 8)
              then Inr (reject_locked pf s request_id Malformed ERR_OTHER, None)
              else let (s, fresh) = remember s (make_dedup_key s job_id share_extranonce ntime nonce version_bits)
                in if \<not> fresh then Inr (reject_locked pf s request_id Duplicate ERR_DUPLICATE, None)
                   else bindE (coinbase2_for s job) (\<lambda>(s, coinbase2).
                     Inr ((s, []), Some (submission_snapshot s request_id job coinbase2 share_extranonce ntime nonce version_bits))))"

definition accept_difficulty :: "Submission \<Rightarrow> double" where
  "accept_difficulty sub =
    (if sub_pending sub then dmin (sub_difficulty sub) (sub_previous sub) else sub_difficulty sub)"

definition submission_input :: "Platform \<Rightarrow> bytes \<Rightarrow> Submission \<Rightarrow> uint256 \<Rightarrow> ShareInput" where
  "submission_input pf extranonce sub share_target =
    \<lparr>si_coinbase2 = cc_coinbase2 (sub_coinbase2 sub), si_extranonce1 = extranonce, si_extranonce2_hex = sub_extranonce sub,
     si_ntime_hex = sub_ntime sub, si_nonce_hex = sub_nonce sub, si_share_target = share_target,
     si_version_bits_hex = sub_version_bits sub, si_version_mask = sub_version_mask sub, si_now_unix = pf_now_wall pf\<rparr>"

definition submit_validate :: "Platform \<Rightarrow> bytes \<Rightarrow> Submission \<Rightarrow> (ShareRejection + ShareResult) result" where
  "submit_validate pf extranonce sub =
    (case target_from_difficulty (accept_difficulty sub) of
       None \<Rightarrow> Inl (Undefined ''target_from_difficulty'')
     | Some share_target \<Rightarrow> Inr (validate_share (sub_job sub) (submission_input pf extranonce sub share_target)))"

definition credited_difficulty :: "Submission \<Rightarrow> ShareResult \<Rightarrow> double" where
  "credited_difficulty sub result =
    (if sub_pending sub then
       let hi = dmax (sub_difficulty sub) (sub_previous sub); lo = dmin (sub_difficulty sub) (sub_previous sub)
       in if dleq hi (sr_difficulty result) then hi else lo
     else sub_difficulty sub)"

definition record_accepted_share_locked :: "Platform \<Rightarrow> Session \<Rightarrow> double \<Rightarrow> double \<Rightarrow> Session" where
  "record_accepted_share_locked pf s credited share_difficulty =
    s\<lparr>s_shares_accepted := s_shares_accepted s + 1, s_protocol_errors := 0,
      s_shares_since_retarget := s_shares_since_retarget s + 1,
      s_total_share_difficulty := dadd (s_total_share_difficulty s) credited,
      s_last_share_timestamp := pf_now_wall pf,
      s_hashrate := windows_add (pf_exp pf) (s_hashrate s) credited (pf_now_steady pf),
      s_best_difficulty := dmax (s_best_difficulty s) share_difficulty\<rparr>"

definition submit_leave :: "Platform \<Rightarrow> Session \<Rightarrow> Submission \<Rightarrow> ShareRejection + ShareResult \<Rightarrow> Session \<times> Effect list" where
  "submit_leave pf s sub outcome =
    (case outcome of
       Inl rejection \<Rightarrow>
         let note = NoteRejected (sub_accounting sub) (sub_address sub) (sub_worker sub) (reject_class_of (rej_reason rejection));
             s = s\<lparr>s_shares_rejected := s_shares_rejected s + 1\<rparr>;
             (s, effects) = send_error pf s (sub_id sub)
               (if rej_reason rejection = AboveTarget then ERR_LOW_DIFFICULTY else ERR_OTHER)
         in (s, note # effects)
     | Inr result \<Rightarrow>
         let block = (if sr_is_block result then [BlockFound (sub_address sub) (sub_worker sub) (sub_job sub) result] else []);
             credited = credited_difficulty sub result;
             note = NoteAccepted (sub_accounting sub) (sub_address sub) (sub_worker sub) credited (sr_difficulty result);
             s = record_accepted_share_locked pf s credited (sr_difficulty result)
         in (s, block @ [note] @ send_result pf (sub_id sub) True))"

definition handle_submit :: "PoolContext \<Rightarrow> Platform \<Rightarrow> Session \<Rightarrow> json \<Rightarrow> string list \<Rightarrow> (Session \<times> Effect list) result" where
  "handle_submit ctx pf s request_id params =
    bindE (submit_enter ctx pf s request_id params) (\<lambda>((s, effects), submission).
      case submission of
        None \<Rightarrow> Inr (s, effects)
      | Some sub \<Rightarrow> bindE (submit_validate pf (s_extranonce1 s) sub) (\<lambda>outcome.
          let (s, more) = submit_leave pf s sub outcome in Inr (s, effects @ more)))"

definition handle_line :: "PoolContext \<Rightarrow> Platform \<Rightarrow> Session \<Rightarrow> string \<Rightarrow> (Session \<times> Effect list) result" where
  "handle_line ctx pf s line =
    (case parse_request (pf_glaze pf) line of
       None \<Rightarrow> Inr (s, [])
     | Some request \<Rightarrow>
         if rq_method request = ''mining.submit'' then handle_submit ctx pf s (rq_id request) (rq_params request)
         else dispatch ctx pf s request)"

end
