(* ===== verification/Session_Safety.thy ===== *)
theory Session_Safety
  imports Session
begin

text \<open>
  What a Stratum V1 session guarantees. The deduplication key identifies a share exactly; difficulty stays within
  the configured range; and over every interleaving of requests, submissions, published jobs and retargets the
  session keeps its invariant, never throws, and reports only blocks that pay the authorized address. The pool is
  the locale \<open>pool_service\<close>; the theory of the pool interprets it.
\<close>

section \<open>Canonical share fields\<close>

lemma kHexTable_to_lower: "kHexTable (to_lower c) = kHexTable c"
proof -
  have "(of_char (char_of (of_char c + 32 :: nat)) :: nat) = of_char c + 32" if "of_char c \<le> (90 :: nat)"
    using that by (simp add: of_char_of)
  then show ?thesis by (auto simp: to_lower_def is_upper_def kHexTable_eq Let_def)
qed

lemma to_lower_hex: "0 \<le> kHexTable c \<Longrightarrow> to_lower c = lower_hex c"
  by (auto simp: to_lower_def is_upper_def kHexTable_eq Let_def lower_hex_def split: if_splits)

lemma lower_hex_idem: "lower_hex (lower_hex c) = lower_hex c"
  by (auto simp: lower_hex_def of_char_of)

lemma hex_u32_loop_digits: "hex_u32_loop v s = Some w \<Longrightarrow> list_all (\<lambda>c. 0 \<le> kHexTable c) s"
  by (induction s arbitrary: v) (auto simp: Let_def split: if_splits)

lemma hex_u32_loop_lower: "hex_u32_loop v (map to_lower s) = hex_u32_loop v s"
  by (induction s arbitrary: v) (auto simp: Let_def kHexTable_to_lower)

lemma hex_u32_loop_zeros: "hex_u32_loop 0 (replicate n CHR ''0'' @ s) = hex_u32_loop 0 s"
proof -
  have "kHexTable CHR ''0'' = 0" by (simp add: kHexTable_eq)
  then show ?thesis by (induction n) (auto simp: Let_def)
qed

lemma append_canonical_eq: "append_canonical_hex out v w = out @ append_canonical_hex [] v w"
  by (simp add: append_canonical_hex_def append_lower_def)

lemma hex_loop_digits: "list_all (\<lambda>c. 0 \<le> kHexTable c) s \<Longrightarrow> hex_loop out s \<noteq> None"
  by (induction out s rule: hex_loop.induct) auto

lemma try_from_hex_digits:
  assumes "list_all (\<lambda>c. 0 \<le> kHexTable c) s" "even (length s)"
  obtains bs where "try_from_hex s = Some bs"
  using hex_loop_digits [OF assms(1), of "[]"] assms(2) by (auto simp: try_from_hex_def even_iff_mod_2_eq_zero)

lemma canonical_hex:
  assumes "try_parse_hex_u32 v = Some x"
  shows "append_canonical_hex [] v 8 = format_08x x"
proof -
  define c where "c = append_canonical_hex [] v 8"
  have v: "length v \<le> 8" "hex_u32_loop 0 v = Some x"
    using assms by (auto simp: try_parse_hex_u32_def split: if_splits)
  have c: "c = replicate (8 - length v) CHR ''0'' @ map to_lower v"
    by (simp add: c_def append_canonical_hex_def append_lower_def)
  have parse: "hex_u32_loop 0 c = Some x" using v(2) by (simp add: c hex_u32_loop_zeros hex_u32_loop_lower)
  have "kHexTable CHR ''0'' = 0" "lower_hex CHR ''0'' = CHR ''0''" by (simp_all add: kHexTable_eq lower_hex_def)
  moreover have "list_all (\<lambda>c. 0 \<le> kHexTable c) v" using hex_u32_loop_digits [OF v(2)] .
  ultimately have low: "map lower_hex c = c"
    by (auto simp: c list_all_iff to_lower_hex lower_hex_idem intro!: map_idI)
  have len: "length c = 8" using v(1) by (simp add: c)
  obtain bs where "try_from_hex c = Some bs"
    using try_from_hex_digits [OF hex_u32_loop_digits [OF parse]] len by auto
  then have bs: "to_hex bs = c" "length bs = 4"
    using low len length_to_hex [of bs] by (auto simp: try_from_hex_Some_iff)
  then have "c = format_08x (read_be32 bs)" by (simp add: format_08x_def write_read_be32)
  moreover from this have "read_be32 bs = x"
    using parse len try_parse_format_08x [of "read_be32 bs"] by (simp add: try_parse_hex_u32_def split: if_splits)
  ultimately show ?thesis by (simp add: c_def)
qed

section \<open>The deduplication key\<close>

lemma make_dedup_key_fields:
  "make_dedup_key s job_id en t n vb = map to_lower job_id @ joined [map to_lower en, append_canonical_hex [] t 8,
    append_canonical_hex [] n 8, (case vb of Some bits \<Rightarrow> append_canonical_hex [] bits 8 | None \<Rightarrow> []), format_08x (s_version_mask s)]"
  by (cases vb) (auto simp: make_dedup_key_def Let_def append_lower_def joined_def append_canonical_eq [of "_ @ _"])

definition pool_job_id :: "string \<Rightarrow> bool" where
  "pool_job_id job_id \<longleftrightarrow> set job_id \<subseteq> set kHexChars"

lemma pool_job_id_lower: "pool_job_id j \<Longrightarrow> map to_lower j = j" "pool_job_id j \<Longrightarrow> unbarred j"
  by (auto simp: pool_job_id_def unbarred_def kHexChars_def to_lower_def is_upper_def intro!: map_idI)

lemma to_lower_try_from_hex: "try_from_hex e = Some eb \<Longrightarrow> map to_lower e = to_hex eb"
  by (auto simp: try_from_hex_Some_iff list_all_iff to_lower_hex)

definition version_field :: "u32 option \<Rightarrow> string" where
  "version_field v = (case v of Some w \<Rightarrow> format_08x w | None \<Rightarrow> [])"

lemma format_08x_clean [simp]: "format_08x w \<noteq> []" "unbarred (format_08x w)"
proof -
  have "length (format_08x w) = 8" by (simp add: format_08x_def)
  then show "format_08x w \<noteq> []" by auto
qed (simp add: format_08x_def)

lemma version_field_simps:
  "unbarred (version_field v)" "version_field v = version_field w \<longleftrightarrow> v = w"
proof -
  show "unbarred (version_field v)" by (cases v) (simp_all add: version_field_def unbarred_def [of "[]"])
  show "version_field v = version_field w \<longleftrightarrow> v = w"
    by (cases v; cases w) (simp_all add: version_field_def format_08x_inject format_08x_clean(1) [symmetric])
qed

lemma dedup_key_decoded:
  assumes "pool_job_id job_id" "try_from_hex en = Some eb" "try_parse_hex_u32 t = Some tv" "try_parse_hex_u32 n = Some nv"
    "rel_option (\<lambda>bits v. try_parse_hex_u32 bits = Some v) vb vv"
  shows "make_dedup_key s job_id en t n vb =
    job_id @ joined [to_hex eb, format_08x tv, format_08x nv, version_field vv, format_08x (s_version_mask s)]"
  using assms unfolding make_dedup_key_fields
  by (auto simp: pool_job_id_lower to_lower_try_from_hex canonical_hex version_field_def option.rel_sel split: option.splits)

text \<open>C9: The deduplication key tells shares apart exactly: for well-formed fields two keys are equal precisely when
  the job, the decoded extranonce, time and nonce, the presence and value of the version bits and the negotiated mask
  are equal, whatever the spelling (case and leading zeros) of the fields.\<close>

theorem dedup_key_exact:
  assumes "pool_job_id j" "try_from_hex en = Some eb" "try_parse_hex_u32 t = Some tv" "try_parse_hex_u32 n = Some nv"
    "rel_option (\<lambda>bits v. try_parse_hex_u32 bits = Some v) vb vv"
    "pool_job_id j'" "try_from_hex en' = Some eb'" "try_parse_hex_u32 t' = Some tv'" "try_parse_hex_u32 n' = Some nv'"
    "rel_option (\<lambda>bits v. try_parse_hex_u32 bits = Some v) vb' vv'"
  shows "make_dedup_key s j en t n vb = make_dedup_key s' j' en' t' n' vb' \<longleftrightarrow>
    j = j' \<and> eb = eb' \<and> tv = tv' \<and> nv = nv' \<and> vv = vv' \<and> s_version_mask s = s_version_mask s'"
proof
  assume "make_dedup_key s j en t n vb = make_dedup_key s' j' en' t' n' vb'"
  then have "j @ joined [to_hex eb, format_08x tv, format_08x nv, version_field vv, format_08x (s_version_mask s)] =
      j' @ joined [to_hex eb', format_08x tv', format_08x nv', version_field vv', format_08x (s_version_mask s')]"
    by (simp add: dedup_key_decoded [OF assms(1-5)] dedup_key_decoded [OF assms(6-10)])
  from joined_inject [OF this] show "j = j' \<and> eb = eb' \<and> tv = tv' \<and> nv = nv' \<and> vv = vv' \<and> s_version_mask s = s_version_mask s'"
    using assms(1,6) by (simp add: pool_job_id_lower version_field_simps to_hex_inject format_08x_inject)
qed (use dedup_key_decoded [OF assms(1-5)] dedup_key_decoded [OF assms(6-10)] in auto)

theorem dedup_key_exact_witness:
  "\<forall>s s'. make_dedup_key s ''00ab0001'' (to_hex [1, 2]) (format_08x 5) (format_08x 7) None =
     make_dedup_key s' ''00ab0001'' (to_hex [1, 2]) (format_08x 5) (format_08x 7) None
   \<longleftrightarrow> s_version_mask s = s_version_mask s'"
proof (intro allI)
  fix s s'
  have j: "pool_job_id ''00ab0001''" by (simp add: pool_job_id_def kHexChars_def)
  note f = try_from_hex_to_hex [of "[1, 2]"] try_parse_format_08x
  show "make_dedup_key s ''00ab0001'' (to_hex [1, 2]) (format_08x 5) (format_08x 7) None =
     make_dedup_key s' ''00ab0001'' (to_hex [1, 2]) (format_08x 5) (format_08x 7) None
   \<longleftrightarrow> s_version_mask s = s_version_mask s'"
    using dedup_key_exact [OF j f(1) f(2) [of 5] f(2) [of 7] option.rel_intros(1) j f(1) f(2) [of 5] f(2) [of 7] option.rel_intros(1), of s s']
    by (simp del: to_hex_simps)
qed

section \<open>Difficulty\<close>

lemma dmin_bounds:
  assumes "representable lo" "representable hi" "lo \<le> hi" "dleq (Finite lo) d"
  obtains r where "dmin (Finite hi) d = Finite r" "lo \<le> r" "r \<le> hi"
proof (cases d)
  case (Finite x)
  then show ?thesis using that [of "min hi x"] assms by (simp add: dmin_Finite)
qed (use assms that in \<open>auto simp: dmin_def\<close>)

text \<open>C34: The next difficulty of the retarget loop is finite and within the configured range, is not lowered when shares
  come at more than twice the target rate, is not raised when they come at less than half of it, and is otherwise the
  current difficulty brought into the range.\<close>

theorem vardiff_next_correct:
  assumes "0 < lo" "representable lo" "0 \<le> m" "representable m" "m = 0 \<or> lo \<le> m" "m = 0 \<longrightarrow> lo \<le> 1000000000000"
    "representable c" "0 < tg" "representable tg"
  defines "cap \<equiv> (if m > 0 then m else 1000000000000)"
  defines "base \<equiv> max lo (min c cap)"
  shows "\<exists>r. vardiff_next (Finite c) rate (Finite tg) (Finite lo) (Finite m) = Finite r \<and> lo \<le> r \<and> r \<le> cap
    \<and> (if dless (dmul (Finite tg) (Finite 2)) rate then base \<le> r
       else if dless rate (ddiv (Finite tg) (Finite 2)) then r \<le> base else r = base)"
proof -
  have cap: "lo \<le> cap" "representable cap" using assms(1-6) by (auto simp: cap_def intro!: representableI [of _ 1000000000000 0])
  have base: "lo \<le> base" "base \<le> cap" "representable base" using cap assms(2,7) by (auto simp: base_def max_def min_def)
  have c: "dclamp (Finite c) (Finite lo) (Finite cap) = Finite base"
    using dclamp_Finite [OF cap(1), of c] by (simp add: base_def)
  have up: "dleq (Finite base) (round64 (base * 2))"
    using round64_mono [of base "base * 2"] base assms(1) by (simp add: round64_representable)
  obtain half where half: "round64 (base / 2) = Finite half" "half \<le> base"
    by (rule round64_within [of 0 base "base / 2"]) (use base assms(1) in auto)
  obtain r where r: "dmin (Finite cap) (round64 (base * 2)) = Finite r" "base \<le> r" "r \<le> cap"
    by (rule dmin_bounds [OF base(3) cap(2) base(2) up])
  have excl: "\<not> dless rate (ddiv (Finite tg) (Finite 2))" if "dless (dmul (Finite tg) (Finite 2)) rate"
  proof -
    obtain q where q: "round64 (tg / 2) = Finite q" "q \<le> tg"
      by (rule round64_within [of 0 tg "tg / 2"]) (use assms(8,9) in auto)
    have "dleq (Finite tg) (round64 (tg * 2))"
      using round64_mono [of tg "tg * 2"] assms(8,9) by (simp add: round64_representable)
    with that q show ?thesis by (cases "round64 (tg * 2)"; cases rate) auto
  qed
  have "(if dless (Finite 0) (Finite m) then Finite m else Finite 1000000000000) = Finite cap"
    using assms(3) by (simp add: cap_def)
  then show ?thesis
    using c r half base cap assms(1) excl
    by (auto simp: vardiff_next_def Let_def dless_Finite_dmax)
qed

theorem vardiff_next_correct_witness:
  "\<exists>r. vardiff_next (Finite 4) (Finite 30) (Finite 12) (Finite 1) (Finite 0) = Finite r \<and> 4 \<le> r"
proof -
  have "representable 4" "representable 12" by (rule representableI [of _ 4 0] representableI [of _ 12 0]; simp)+
  then show ?thesis
    using vardiff_next_correct [of 1 0 4 12 "Finite 30"] round64_nat [of 24] by auto
qed

section \<open>The contract of the pool\<close>

text \<open>
  What a session relies on over its lifetime: every context it reads and every job it is given come from one pool,
  whose jobs are identified by their identifier, can be paid out to any script, and whose address validation does not change.
\<close>

locale pool_service =
  fixes contexts :: "PoolContext set" and jobs :: "Job set" and validate :: "string \<Rightarrow> bytes option"
  assumes validate: "ctx \<in> contexts \<Longrightarrow> pc_validate_address ctx = validate"
    and current: "ctx \<in> contexts \<Longrightarrow> pc_current_job ctx = Some job \<Longrightarrow> job \<in> jobs"
    and recent: "ctx \<in> contexts \<Longrightarrow> pc_recent_job ctx job_id = Some job \<Longrightarrow> job \<in> jobs \<and> j_job_id job = job_id"
    and identified: "job \<in> jobs \<Longrightarrow> job' \<in> jobs \<Longrightarrow> j_job_id job = j_job_id job' \<Longrightarrow> job = job'"
    and payable: "job \<in> jobs \<Longrightarrow> \<exists>cb. Job_build_coinbase2 job script = Inr cb"

definition cache_ok :: "Job set \<Rightarrow> bytes \<Rightarrow> Coinbase2Cache \<Rightarrow> bool" where
  "cache_ok jobs script c \<longleftrightarrow>
    (\<exists>job \<in> jobs. cc_job_id c = j_job_id job \<and> Job_build_coinbase2 job script = Inr (cc_coinbase2 c)
      \<and> cc_coinbase2_hex c = to_hex (cc_coinbase2 c))"

definition account_ok :: "(string \<Rightarrow> bytes option) \<Rightarrow> Session \<Rightarrow> bool" where
  "account_ok validate s \<longleftrightarrow>
    (if s_authorized s then s_worker s \<noteq> None \<and> (\<exists>a script. s_address s = Some a \<and> s_payout_script s = Some script \<and> validate a = Some script)
     else s_address s = None \<and> s_worker s = None \<and> s_payout_script s = None)"

definition seen_ok :: "Session \<Rightarrow> bool" where
  "seen_ok s \<longleftrightarrow> finite (s_seen_shares_current s) \<and> finite (s_seen_shares_previous s)
    \<and> card (s_seen_shares_current s) \<le> kMaxSeenShares \<and> card (s_seen_shares_previous s) \<le> kMaxSeenShares
    \<and> s_seen_shares_current s \<inter> s_seen_shares_previous s = {}"

definition session_ok :: "Job set \<Rightarrow> (string \<Rightarrow> bytes option) \<Rightarrow> bytes \<Rightarrow> Session \<Rightarrow> bool" where
  "session_ok jobs validate en s \<longleftrightarrow>
    s_extranonce1 s = en \<and> s_extranonce1_hex s = to_hex en \<and> account_ok validate s \<and> seen_ok s
    \<and> (\<forall>c. s_coinbase2_cache s = Some c \<longrightarrow> (\<exists>script. s_payout_script s = Some script \<and> cache_ok jobs script c))"

definition submission_ok :: "Job set \<Rightarrow> (string \<Rightarrow> bytes option) \<Rightarrow> Submission \<Rightarrow> bool" where
  "submission_ok jobs validate sub \<longleftrightarrow>
    sub_job sub \<in> jobs \<and> (\<exists>script. validate (sub_address sub) = Some script
      \<and> Job_build_coinbase2 (sub_job sub) script = Inr (cc_coinbase2 (sub_coinbase2 sub)))"

text \<open>What a report of a found block stands for: a share of a known job, checked against the network target, whose coinbase
  pays the address it is reported for.\<close>

definition block_ok :: "Job set \<Rightarrow> (string \<Rightarrow> bytes option) \<Rightarrow> bytes \<Rightarrow> Effect \<Rightarrow> bool" where
  "block_ok jobs validate en effect \<longleftrightarrow>
    (case effect of
       BlockFound address worker job result \<Rightarrow>
         job \<in> jobs \<and> sr_is_block result \<and>
         (\<exists>script cb en2 ntime nonce version share_target.
           validate address = Some script \<and> Job_build_coinbase2 job script = Inr cb \<and> length en2 = j_extranonce2_size job
           \<and> (let coinbase = j_coinbase1 job @ en @ en2 @ cb
              in validate_header job coinbase (merkle_root_from_branch (sha256d coinbase) (j_merkle_branch job))
                   ntime nonce version share_target = Inr result))
     | _ \<Rightarrow> True)"

subsection \<open>Operations that leave the account alone\<close>

definition same_account :: "Session \<Rightarrow> Session \<Rightarrow> bool" where
  "same_account s s' \<longleftrightarrow> s_extranonce1 s' = s_extranonce1 s \<and> s_extranonce1_hex s' = s_extranonce1_hex s
    \<and> s_authorized s' = s_authorized s \<and> s_address s' = s_address s \<and> s_worker s' = s_worker s
    \<and> s_payout_script s' = s_payout_script s"

definition quiet :: "Session \<Rightarrow> Session \<Rightarrow> bool" where
  "quiet s s' \<longleftrightarrow> same_account s s' \<and> s_coinbase2_cache s' = s_coinbase2_cache s
    \<and> s_seen_shares_current s' = s_seen_shares_current s \<and> s_seen_shares_previous s' = s_seen_shares_previous s"

lemma quiet_ok: "quiet s s' \<Longrightarrow> session_ok jobs validate en s \<Longrightarrow> session_ok jobs validate en s'"
  by (auto simp: session_ok_def quiet_def same_account_def account_ok_def seen_ok_def split: if_splits)

lemma quiet_refl [simp]: "quiet s s"
  by (simp add: quiet_def same_account_def)

lemmas quiet_defs = quiet_def same_account_def

lemma quiet_send_error: "quiet s (fst (send_error pf s request_id error))"
  by (simp add: send_error_def Let_def quiet_defs)

lemma quiet_reject_locked: "quiet s (fst (reject_locked pf s request_id class error))"
  by (simp add: reject_locked_def send_error_def Let_def quiet_defs)

lemma quiet_begin_difficulty_change: "quiet s (begin_difficulty_change s d)"
  by (simp add: begin_difficulty_change_def Let_def quiet_defs)

lemma quiet_maybe_retarget: "quiet s (fst (maybe_retarget ctx pf s))"
  by (simp add: maybe_retarget_def begin_difficulty_change_def Let_def quiet_defs)

lemma quiet_handle_configure: "quiet s (fst (handle_configure ctx pf s request))"
  by (simp add: handle_configure_def Let_def quiet_defs split: prod.splits)

lemma quiet_handle_suggest: "quiet s (fst (handle_suggest_difficulty ctx pf s request))"
  by (simp add: handle_suggest_difficulty_def begin_difficulty_change_def Let_def quiet_defs split: prod.splits option.splits)

lemma quiet_submit_leave: "quiet s (fst (submit_leave pf s sub outcome))"
  by (cases outcome) (simp_all add: submit_leave_def send_error_def record_accepted_share_locked_def Let_def quiet_defs)

lemmas quiet_operations = quiet_send_error quiet_reject_locked quiet_begin_difficulty_change quiet_maybe_retarget
  quiet_handle_configure quiet_handle_suggest quiet_submit_leave

subsection \<open>Effects\<close>

fun no_block :: "Effect \<Rightarrow> bool" where
  "no_block (BlockFound _ _ _ _) \<longleftrightarrow> False"
| "no_block _ \<longleftrightarrow> True"

lemma no_block_ok: "no_block e \<Longrightarrow> block_ok jobs validate en e"
  by (cases e) (simp_all add: block_ok_def)

lemma no_block_effects [simp]:
  "list_all no_block (send_message pf m)" "list_all no_block (send_result_json pf i r)" "list_all no_block (send_result pf i b)"
  "list_all no_block (snd (send_error pf s i e))" "list_all no_block (do_send_set_difficulty pf s)"
  "list_all no_block (snd (reject_locked pf s i c e))" "list_all no_block (snd (maybe_retarget ctx pf s))"
  "list_all no_block (snd (handle_configure ctx pf s request))"
  by (auto simp: send_message_def send_result_json_def send_result_def send_error_def do_send_set_difficulty_def
      reject_locked_def maybe_retarget_def handle_configure_def Let_def split: prod.splits)

lemma no_block_suggest [simp]: "list_all no_block (snd (handle_suggest_difficulty ctx pf s request))"
  by (auto simp: handle_suggest_difficulty_def Let_def split: prod.splits option.splits if_splits)

subsection \<open>Preservation\<close>

lemma seen_ok_rotate: "seen_ok s \<Longrightarrow> seen_ok (rotate_seen_shares s)"
  by (auto simp: seen_ok_def rotate_seen_shares_def)

lemma seen_ok_remember: "seen_ok s \<Longrightarrow> seen_ok (fst (remember s key))"
  by (auto simp: seen_ok_def remember_def rotate_seen_shares_def Let_def card_insert_if kMaxSeenShares_def)

lemma session_ok_seen:
  assumes "session_ok jobs validate en s" "same_account s s'" "s_coinbase2_cache s' = s_coinbase2_cache s" "seen_ok s'"
  shows "session_ok jobs validate en s'"
  using assms by (auto simp: session_ok_def same_account_def account_ok_def split: if_splits)

lemma remember_known: "\<not> snd (remember s key) \<Longrightarrow> fst (remember s key) = s"
  by (cases "key \<in> s_seen_shares_current s \<or> key \<in> s_seen_shares_previous s") (simp_all add: remember_def Let_def)

lemma remember_account: "same_account s (fst (remember s key))" "s_coinbase2_cache (fst (remember s key)) = s_coinbase2_cache s"
  by (auto simp: remember_def rotate_seen_shares_def Let_def same_account_def)

subsection \<open>The first critical section of a submission\<close>

definition share_version :: "string list \<Rightarrow> string option" where
  "share_version params = (if length params > 5 \<and> params ! 5 \<noteq> [] then Some (params ! 5) else None)"

definition share_key :: "Session \<Rightarrow> string list \<Rightarrow> string" where
  "share_key s params = make_dedup_key s (params ! 1) (params ! 2) (params ! 3) (params ! 4) (share_version params)"

definition too_long :: "PoolContext \<Rightarrow> string list \<Rightarrow> bool" where
  "too_long ctx params \<longleftrightarrow> length (params ! 2) > pc_extranonce2_size ctx * 2 \<or> length (params ! 3) > 8 \<or> length (params ! 4) > 8
    \<or> (\<exists>bits \<in> set_option (share_version params). length bits > 8)"

definition share_submission :: "Session \<Rightarrow> json \<Rightarrow> Job \<Rightarrow> Coinbase2Cache \<Rightarrow> string list \<Rightarrow> Submission" where
  "share_submission s request_id job c params =
    submission_snapshot s request_id job c (params ! 2) (params ! 3) (params ! 4) (share_version params)"

lemma submit_enter_eq:
  "submit_enter ctx pf s request_id params =
    (if \<not> s_authorized s then Inr (send_error pf s request_id ERR_UNAUTHORIZED, None)
     else if \<not> s_subscribed s then Inr (send_error pf s request_id ERR_NOT_SUBSCRIBED, None)
     else if length params < 5 then Inr (send_error pf s request_id ERR_OTHER, None)
     else case pc_recent_job ctx (params ! 1) of
         None \<Rightarrow> Inr (reject_locked pf s request_id Stale ERR_STALE, None)
       | Some job \<Rightarrow>
           if too_long ctx params then Inr (reject_locked pf s request_id Malformed ERR_OTHER, None)
           else if \<not> snd (remember s (share_key s params))
           then Inr (reject_locked pf s request_id Duplicate ERR_DUPLICATE, None)
           else bindE (coinbase2_for (fst (remember s (share_key s params))) job) (\<lambda>(s, c).
             Inr ((s, []), Some (share_submission s request_id job c params))))"
proof -
  have known: "\<not> snd (remember s key) \<Longrightarrow> fst (remember s key) = s" for key by (rule remember_known)
  show ?thesis
    unfolding submit_enter_def Let_def share_version_def [symmetric] share_key_def [symmetric] too_long_def [symmetric]
      share_submission_def [symmetric] split_beta
    using known [of "share_key s params"] by (cases "snd (remember s (share_key s params))"; cases "pc_recent_job ctx (params ! 1)") simp_all
qed

definition share_admitted :: "PoolContext \<Rightarrow> Session \<Rightarrow> string list \<Rightarrow> bool" where
  "share_admitted ctx s params \<longleftrightarrow> s_authorized s \<and> s_subscribed s \<and> \<not> length params < 5 \<and> pc_recent_job ctx (params ! 1) \<noteq> None
    \<and> \<not> too_long ctx params \<and> snd (remember s (share_key s params))"

lemma submit_enter_refused:
  assumes "\<not> share_admitted ctx s params"
  obtains p where "submit_enter ctx pf s request_id params = Inr (p, None)" "quiet s (fst p)" "list_all no_block (snd p)"
proof -
  define Q where "Q r \<longleftrightarrow> (\<exists>p. r = Inr (p, None) \<and> quiet s (fst p) \<and> list_all no_block (snd p))"
    for r :: "((Session \<times> Effect list) \<times> Submission option) result"
  have "Q (Inr (p, None))" if "quiet s (fst p)" "list_all no_block (snd p)" for p using that by (auto simp: Q_def)
  note q = this [OF quiet_send_error no_block_effects(4)] this [OF quiet_reject_locked no_block_effects(6)]
  have "Q (submit_enter ctx pf s request_id params)"
    unfolding submit_enter_eq using assms by (cases "pc_recent_job ctx (params ! 1)") (auto simp: q share_admitted_def)
  then show ?thesis using that by (auto simp: Q_def)
qed

context pool_service
begin

abbreviation ok :: "bytes \<Rightarrow> Session \<Rightarrow> bool" where
  "ok en s \<equiv> session_ok jobs validate en s"

lemma authorized_account:
  assumes "ok en s" "s_authorized s"
  obtains a script where "s_address s = Some a" "s_payout_script s = Some script" "validate a = Some script"
  using assms by (auto simp: session_ok_def account_ok_def)

lemma cache_hit:
  assumes "cache_ok jobs script c" "job \<in> jobs" "cc_job_id c = j_job_id job"
  shows "Job_build_coinbase2 job script = Inr (cc_coinbase2 c)"
  using assms identified by (auto simp: cache_ok_def)

lemma coinbase2_for_ok:
  assumes s: "ok en s" and script: "s_payout_script s = Some script" and job: "job \<in> jobs"
  obtains s' c where "coinbase2_for s job = Inr (s', c)" "ok en s'" "same_account s s'"
    "s' = s\<lparr>s_coinbase2_cache := Some c\<rparr>" "Job_build_coinbase2 job script = Inr (cc_coinbase2 c)"
proof -
  obtain cb where cb: "Job_build_coinbase2 job script = Inr cb" using payable [OF job] by blast
  define new where "new = \<lparr>cc_job_id = j_job_id job, cc_coinbase2 = cb, cc_coinbase2_hex = to_hex cb\<rparr>"
  have fresh: "ok en (s\<lparr>s_coinbase2_cache := Some new\<rparr>)"
    using s script job cb by (auto simp: session_ok_def account_ok_def seen_ok_def cache_ok_def new_def)
  show ?thesis
  proof (cases "\<exists>c. s_coinbase2_cache s = Some c \<and> cc_job_id c = j_job_id job")
    case True
    then obtain c where c: "s_coinbase2_cache s = Some c" "cc_job_id c = j_job_id job" by blast
    have "cache_ok jobs script c" using s c(1) script by (auto simp: session_ok_def)
    then have "Job_build_coinbase2 job script = Inr (cc_coinbase2 c)" using cache_hit job c(2) by blast
    moreover have "s\<lparr>s_coinbase2_cache := Some c\<rparr> = s" using c(1) by (cases s) simp
    ultimately show ?thesis
      using that [of s c] c s script by (simp add: coinbase2_for_def same_account_def)
  next
    case False
    then have "coinbase2_for s job = Inr (s\<lparr>s_coinbase2_cache := Some new\<rparr>, new)"
      using script cb by (auto simp: coinbase2_for_def new_def Let_def split: option.splits)
    then show ?thesis
      by (rule that) (use fresh cb in \<open>simp_all add: same_account_def new_def\<close>)
  qed
qed

lemma build_notify_line_ok:
  assumes s: "ok en s" and job: "job \<in> jobs"
  obtains s' line where "build_notify_line s job clean = Inr (s', line)" "ok en s'" "same_account s s'"
proof (cases "\<not> s_subscribed s \<or> \<not> s_authorized s \<or> s_payout_script s = None")
  case True
  then show ?thesis using that [of s None] s by (simp add: build_notify_line_def same_account_def)
next
  case False
  then obtain script where script: "s_payout_script s = Some script" by blast
  define s1 where "s1 = s\<lparr>s_last_notified_publication_sequence :=
    max (s_last_notified_publication_sequence s) (j_publication_sequence job)\<rparr>"
  have q1: "quiet s s1" by (simp add: s1_def quiet_defs)
  have "s_payout_script s1 = Some script" using script by (simp add: s1_def)
  then obtain s2 c where c: "coinbase2_for s1 job = Inr (s2, c)" "ok en s2" "same_account s1 s2"
    by (rule coinbase2_for_ok [OF quiet_ok [OF q1 s] _ job])
  define s3 where "s3 = (if clean \<and> s_seen_shares_current s2 \<noteq> {} then rotate_seen_shares s2 else s2)"
  define s4 where "s4 = s3\<lparr>s_pending_difficulty_change := False\<rparr>"
  have "seen_ok s4" using c(2) seen_ok_rotate [of s2]
    by (simp add: s4_def s3_def session_ok_def seen_ok_def)
  moreover have a: "same_account s2 s4" "s_coinbase2_cache s4 = s_coinbase2_cache s2"
    by (simp_all add: s4_def s3_def same_account_def rotate_seen_shares_def)
  ultimately have "ok en s4" using session_ok_seen [OF c(2)] by blast
  moreover have "same_account s s4" using a(1) c(3) q1 by (simp add: quiet_defs)
  moreover have "\<exists>line. build_notify_line s job clean = Inr (s4, line)"
    using False c(1) unfolding build_notify_line_def s4_def s3_def s1_def Let_def by auto
  ultimately show ?thesis using that by blast
qed

lemma send_notify_ok:
  assumes "ok en s" "job \<in> jobs"
  shows "\<exists>s' es. send_notify s job clean = Inr (s', es) \<and> ok en s' \<and> list_all no_block es"
proof -
  obtain s' line where l: "build_notify_line s job clean = Inr (s', line)" "ok en s'"
    by (rule build_notify_line_ok [OF assms])
  then show ?thesis using assms by (cases line) (auto simp: send_notify_def)
qed

lemma send_difficulty_then_work_ok:
  assumes "ctx \<in> contexts" "ok en s"
  shows "\<exists>s' es. send_difficulty_then_work ctx pf s = Inr (s', es) \<and> ok en s' \<and> list_all no_block es"
proof (cases "pc_current_job ctx")
  case (Some job)
  obtain s' line where l: "build_notify_line s job True = Inr (s', line)" "ok en s'"
    by (rule build_notify_line_ok [OF assms(2) current [OF assms(1) Some]])
  then show ?thesis using Some by (cases line) (simp_all add: send_difficulty_then_work_def Let_def)
qed (use assms in \<open>simp add: send_difficulty_then_work_def Let_def\<close>)

lemma handle_subscribe_ok:
  assumes "ctx \<in> contexts" "ok en s"
  shows "\<exists>s' es. handle_subscribe ctx pf s request_id params = Inr (s', es) \<and> ok en s' \<and> list_all no_block es"
proof -
  define s1 where "s1 = (if params \<noteq> [] \<and> hd params \<noteq> [] then s\<lparr>s_user_agent := sanitize (hd params) 128\<rparr> else s)\<lparr>s_subscribed := True\<rparr>"
  have "quiet s s1" by (simp add: s1_def quiet_defs)
  then have ok1: "ok en s1" using assms(2) quiet_ok by blast
  then show ?thesis
    using send_difficulty_then_work_ok [OF assms(1) ok1, of pf]
    unfolding handle_subscribe_def Let_def s1_def [symmetric] by auto
qed

lemma handle_authorize_ok:
  assumes "ctx \<in> contexts" "ok en s"
  shows "\<exists>s' es. handle_authorize ctx pf s request_id params = Inr (s', es) \<and> ok en s' \<and> list_all no_block es"
proof (cases "params = [] \<or> hd params = []")
  case True
  then show ?thesis
    using quiet_ok [OF quiet_send_error assms(2)] no_block_effects(4) [of pf s request_id ERR_OTHER]
    by (auto simp: handle_authorize_def intro!: exI [of _ "fst (send_error pf s request_id ERR_OTHER)"]
        exI [of _ "snd (send_error pf s request_id ERR_OTHER)"])
next
  case False
  define address where "address = until_dot (sanitize (hd params) 128)"
  define worker where "worker = (if CHR ''.'' \<in> set (hd params) then ascii_only (after_dot (hd params)) 128 else [])"
  show ?thesis
  proof (cases "validate address")
    case None
    then show ?thesis using False assms validate by (simp add: handle_authorize_def Let_def address_def)
  next
    case (Some script)
    define s1 where "s1 = (if s_payout_script s \<noteq> Some script then s\<lparr>s_coinbase2_cache := None\<rparr> else s)\<lparr>s_address := Some address,
      s_worker := Some worker, s_payout_script := Some script, s_authorized := True,
      s_worker_accounting := pc_attach_worker ctx address worker\<rparr>"
    have "ok en s1" using assms(2) Some
      by (auto simp: s1_def session_ok_def account_ok_def seen_ok_def)
    then obtain s' es where "send_difficulty_then_work ctx pf s1 = Inr (s', es)" "ok en s'" "list_all no_block es"
      using send_difficulty_then_work_ok [OF assms(1)] by blast
    then show ?thesis using False Some assms(1) validate
      unfolding handle_authorize_def Let_def address_def [symmetric] worker_def [symmetric]
      by (simp add: s1_def [symmetric])
  qed
qed

lemma dispatch_ok:
  assumes "ctx \<in> contexts" "ok en s"
  shows "\<exists>s' es. dispatch ctx pf s request = Inr (s', es) \<and> ok en s' \<and> list_all no_block es"
proof -
  have q: "\<exists>s' es. p = (s', es) \<and> ok en s' \<and> list_all no_block es" if "quiet s (fst p)" "list_all no_block (snd p)" for p
    using that quiet_ok [OF that(1) assms(2)] by (cases p) simp
  show ?thesis
    using handle_subscribe_ok [OF assms] handle_authorize_ok [OF assms]
      q [OF quiet_handle_configure no_block_effects(8)] q [OF quiet_handle_suggest no_block_suggest] assms(2)
    by (simp add: dispatch_def Let_def)
qed

lemma submit_enter_ok:
  assumes "ctx \<in> contexts" "ok en s"
  shows "\<exists>s' es sub. submit_enter ctx pf s request_id params = Inr ((s', es), sub) \<and> ok en s' \<and> list_all no_block es
    \<and> (\<forall>x. sub = Some x \<longrightarrow> submission_ok jobs validate x)"
proof -
  show ?thesis
  proof (cases "share_admitted ctx s params")
    case False
    then obtain p where "submit_enter ctx pf s request_id params = Inr (p, None)" "quiet s (fst p)" "list_all no_block (snd p)"
      by (rule submit_enter_refused)
    then show ?thesis using quiet_ok [OF _ assms(2)] by (cases p) simp
  next
    case True
    note admitted = True [unfolded share_admitted_def]
    then obtain job where job: "pc_recent_job ctx (params ! 1) = Some job" "job \<in> jobs" using recent [OF assms(1)] by blast
    define s1 where "s1 = fst (remember s (share_key s params))"
    have ok1: "ok en s1" unfolding s1_def
      by (rule session_ok_seen [OF assms(2) remember_account]) (use assms(2) in \<open>simp add: session_ok_def seen_ok_remember\<close>)
    have acc: "same_account s s1" using remember_account by (simp add: s1_def)
    obtain a script where a: "s_address s = Some a" "s_payout_script s = Some script" "validate a = Some script"
      using authorized_account [OF assms(2)] admitted by blast
    then have "s_payout_script s1 = Some script" using acc by (simp add: same_account_def)
    then obtain s2 c where c: "coinbase2_for s1 job = Inr (s2, c)" "ok en s2" "same_account s1 s2"
      "Job_build_coinbase2 job script = Inr (cc_coinbase2 c)"
      by (rule coinbase2_for_ok [OF ok1 _ job(2)])
    have "submit_enter ctx pf s request_id params = Inr ((s2, []), Some (share_submission s2 request_id job c params))"
      unfolding submit_enter_eq using admitted job(1) c(1) by (simp add: s1_def)
    moreover have "submission_ok jobs validate (share_submission s2 request_id job c params)"
      using job(2) a c(3,4) acc
      by (simp add: submission_ok_def share_submission_def submission_snapshot_def same_account_def or_empty_def)
    ultimately show ?thesis using c(2) by simp
  qed
qed

end

lemma validate_share_header:
  assumes "validate_share job input = Inr result"
  obtains en2 ntime nonce version where "length en2 = j_extranonce2_size job"
    "let coinbase = j_coinbase1 job @ si_extranonce1 input @ en2 @ si_coinbase2 input
     in validate_header job coinbase (merkle_root_from_branch (sha256d coinbase) (j_merkle_branch job))
          ntime nonce version (si_share_target input) = Inr result"
  using assms that
  by (auto simp: validate_share_def rejected_def Let_def result_simps split: if_splits option.splits)

lemma submit_leave_block:
  assumes "submission_ok jobs validate sub" "submit_validate pf en sub = Inr outcome"
  shows "list_all (block_ok jobs validate en) (snd (submit_leave pf' s sub outcome))"
proof (cases outcome)
  case (Inl rejection)
  then show ?thesis
    by (auto simp: submit_leave_def send_error_def Let_def block_ok_def split: prod.splits)
next
  case (Inr result)
  obtain share_target where "validate_share (sub_job sub) (submission_input pf en sub share_target) = Inr result"
    using assms(2) Inr by (auto simp: submit_validate_def split: option.splits)
  then obtain en2 ntime nonce version where "length en2 = j_extranonce2_size (sub_job sub)"
    "let coinbase = j_coinbase1 (sub_job sub) @ en @ en2 @ cc_coinbase2 (sub_coinbase2 sub)
     in validate_header (sub_job sub) coinbase (merkle_root_from_branch (sha256d coinbase) (j_merkle_branch (sub_job sub)))
          ntime nonce version share_target = Inr result"
    by (rule validate_share_header) (auto simp: submission_input_def Let_def)
  then have "block_ok jobs validate en (BlockFound (sub_address sub) (sub_worker sub) (sub_job sub) result)" if "sr_is_block result"
    using assms(1) that by (fastforce simp: block_ok_def submission_ok_def)
  then show ?thesis
    using Inr by (auto simp: submit_leave_def Let_def send_result_def block_ok_def)
qed

section \<open>Interleavings\<close>

text \<open>
  A session with the submissions that are being validated outside the lock, and the effects so far. Requests come
  from the connection; jobs are published and difficulties retargeted by other threads at any point.
\<close>

inductive session_reach ::
  "PoolContext set \<Rightarrow> Job set \<Rightarrow> bytes \<Rightarrow> Session \<Rightarrow> Submission list \<Rightarrow> Effect list \<Rightarrow> bool"
  for contexts jobs en
where
  connect: "ctx \<in> contexts \<Longrightarrow> session_reach contexts jobs en (make_Session ctx pf en) [] []"
| request: "session_reach contexts jobs en s subs trace \<Longrightarrow> ctx \<in> contexts \<Longrightarrow> dispatch ctx pf s request = Inr (s', es) \<Longrightarrow>
    session_reach contexts jobs en s' subs (trace @ es)"
| submit_begin: "session_reach contexts jobs en s subs trace \<Longrightarrow> ctx \<in> contexts \<Longrightarrow>
    submit_enter ctx pf s request_id params = Inr ((s', es), sub) \<Longrightarrow>
    session_reach contexts jobs en s' (subs @ (case sub of Some x \<Rightarrow> [x] | None \<Rightarrow> [])) (trace @ es)"
| submit_end: "session_reach contexts jobs en s (subs @ sub # subs') trace \<Longrightarrow>
    submit_validate pf (s_extranonce1 s) sub = Inr outcome \<Longrightarrow> submit_leave pf' s sub outcome = (s', es) \<Longrightarrow>
    session_reach contexts jobs en s' (subs @ subs') (trace @ es)"
| publish: "session_reach contexts jobs en s subs trace \<Longrightarrow> job \<in> jobs \<Longrightarrow> send_notify s job clean = Inr (s', es) \<Longrightarrow>
    session_reach contexts jobs en s' subs (trace @ es)"
| retarget: "session_reach contexts jobs en s subs trace \<Longrightarrow> ctx \<in> contexts \<Longrightarrow> maybe_retarget ctx pf s = (s', es) \<Longrightarrow>
    session_reach contexts jobs en s' subs (trace @ es)"

lemma make_Session_ok: "session_ok jobs validate en (make_Session ctx pf en)"
  by (simp add: make_Session_def session_ok_def account_ok_def seen_ok_def)

lemma submit_validate_total: "\<exists>outcome. submit_validate pf en sub = Inr outcome"
  using target_from_difficulty_defined [of "accept_difficulty sub"] by (auto simp: submit_validate_def)

context pool_service
begin

lemma handle_submit_total:
  assumes "ctx \<in> contexts" "ok en s"
  shows "\<exists>p. handle_submit ctx pf s request_id params = Inr p"
proof -
  obtain s' es sub where "submit_enter ctx pf s request_id params = Inr ((s', es), sub)"
    using submit_enter_ok [OF assms] by blast
  then show ?thesis
    using submit_validate_total [of pf "s_extranonce1 s'" "the sub"]
    by (cases sub) (auto simp: handle_submit_def split_beta)
qed

lemma no_blocks_ok: "list_all no_block es \<Longrightarrow> list_all (block_ok jobs validate en) es"
  using no_block_ok by (auto simp: list_all_iff)

lemma reach_ok:
  assumes "session_reach contexts jobs en s subs trace"
  shows "ok en s \<and> list_all (submission_ok jobs validate) subs \<and> list_all (block_ok jobs validate en) trace"
  using assms
proof induction
  case (connect ctx pf)
  then show ?case by (simp add: make_Session_ok)
next
  case (request s subs trace ctx pf request s' es)
  then have "ok en s' \<and> list_all no_block es" using dispatch_ok [of ctx en s pf request] by fastforce
  then show ?case using request.IH no_blocks_ok by simp
next
  case (submit_begin s subs trace ctx pf request_id params s' es sub)
  then have "ok en s' \<and> list_all no_block es \<and> (\<forall>x. sub = Some x \<longrightarrow> submission_ok jobs validate x)"
    using submit_enter_ok [of ctx en s pf request_id params] by fastforce
  then show ?case using submit_begin.IH no_blocks_ok by (cases sub) simp_all
next
  case (submit_end s subs sub subs' trace pf outcome pf' s' es)
  have s': "s' = fst (submit_leave pf' s sub outcome)" "es = snd (submit_leave pf' s sub outcome)" using submit_end.hyps by simp_all
  have "s_extranonce1 s = en" using submit_end.IH by (simp add: session_ok_def)
  then have "list_all (block_ok jobs validate en) es"
    unfolding s' using submit_end.IH submit_end.hyps by (intro submit_leave_block) auto
  moreover have "ok en s'" unfolding s' by (rule quiet_ok [OF quiet_submit_leave]) (use submit_end.IH in blast)
  ultimately show ?case using submit_end.IH by simp
next
  case (publish s subs trace job clean s' es)
  then have "ok en s' \<and> list_all no_block es" using send_notify_ok [of en s job clean] by fastforce
  then show ?case using publish.IH no_blocks_ok by simp
next
  case (retarget s subs trace ctx pf s' es)
  have s': "s' = fst (maybe_retarget ctx pf s)" "es = snd (maybe_retarget ctx pf s)" using retarget.hyps by simp_all
  have "ok en s'" unfolding s' by (rule quiet_ok [OF quiet_maybe_retarget]) (use retarget.IH in blast)
  then show ?case using retarget.IH no_blocks_ok [OF no_block_effects(7)] s' by simp
qed

lemma never_throws:
  assumes "session_reach contexts jobs en s subs trace" "ctx \<in> contexts" "job \<in> jobs"
  shows "\<not> isl (dispatch ctx pf s request) \<and> \<not> isl (handle_submit ctx pf s request_id params)
    \<and> \<not> isl (send_notify s job clean) \<and> (\<forall>sub \<in> set subs. \<not> isl (submit_validate pf (s_extranonce1 s) sub))"
proof -
  have s: "ok en s" using reach_ok [OF assms(1)] by blast
  have "\<not> isl (dispatch ctx pf s request)"
    using dispatch_ok [OF assms(2) s, of pf request] by (elim exE conjE) simp
  moreover have "\<not> isl (handle_submit ctx pf s request_id params)"
    using handle_submit_total [OF assms(2) s, of pf request_id params] by (elim exE) simp
  moreover have "\<not> isl (send_notify s job clean)"
    using send_notify_ok [OF s assms(3), of clean] by (elim exE conjE) simp
  moreover have "\<not> isl (submit_validate pf (s_extranonce1 s) sub)" for sub
    using submit_validate_total [of pf "s_extranonce1 s" sub] by (elim exE) simp
  ultimately show ?thesis by blast
qed

end

end
