(* ===== verification/Session_Replay.thy ===== *)
theory Session_Replay
  imports Session_Safety
begin

text \<open>
  How long a session remembers a share. The two generations of remembered keys refuse a repeated share until two
  rotations have passed, over every interleaving; two theorems record the ways around it that the code leaves open.
\<close>

section \<open>Generations\<close>

definition generation :: "Session \<Rightarrow> Session \<Rightarrow> bool" where
  "generation s s' \<longleftrightarrow>
    (s_seen_shares_current s \<subseteq> s_seen_shares_current s' \<and> s_seen_shares_previous s' = s_seen_shares_previous s)
    \<or> s_seen_shares_previous s' = s_seen_shares_current s"

lemma generation_quiet: "quiet s s' \<Longrightarrow> generation s s'"
  by (simp add: generation_def quiet_def)

definition same_flags :: "Session \<Rightarrow> Session \<Rightarrow> bool" where
  "same_flags s s' \<longleftrightarrow> s_subscribed s' = s_subscribed s \<and> s_payout_script s' = s_payout_script s
    \<and> s_authorized s' = s_authorized s \<and> s_version_mask s' = s_version_mask s"

definition same_seen :: "Session \<Rightarrow> Session \<Rightarrow> bool" where
  "same_seen s s' \<longleftrightarrow> s_seen_shares_current s' = s_seen_shares_current s \<and> s_seen_shares_previous s' = s_seen_shares_previous s"

lemma same_cache [simp]: "same_seen s (s\<lparr>s_coinbase2_cache := c\<rparr>)" "same_flags s (s\<lparr>s_coinbase2_cache := c\<rparr>)"
  "same_seen s s" "same_flags s s"
  by (simp_all add: same_seen_def same_flags_def)

lemma coinbase2_for_same:
  assumes "coinbase2_for s job = Inr (s', c)"
  shows "same_seen s s' \<and> same_flags s s'"
proof (cases "s_payout_script s")
  case (Some script)
  show ?thesis
  proof (cases "\<exists>c. s_coinbase2_cache s = Some c \<and> cc_job_id c = j_job_id job")
    case True
    then show ?thesis using assms Some by (auto simp: coinbase2_for_def)
  next
    case False
    then show ?thesis
      using assms Some by (cases "Job_build_coinbase2 job script"; cases "s_coinbase2_cache s") (auto simp: coinbase2_for_def Let_def)
  qed
qed (use assms in \<open>simp add: coinbase2_for_def\<close>)

lemma build_notify_line_cases:
  assumes "build_notify_line s job clean = Inr (s', line)"
  obtains (idle) "\<not> (s_subscribed s \<and> s_authorized s \<and> s_payout_script s \<noteq> None)" "s' = s"
  | (sent) s1 s2 where "s_subscribed s \<and> s_authorized s \<and> s_payout_script s \<noteq> None" "same_seen s s2" "same_flags s s2"
      "s' = (if clean \<and> s_seen_shares_current s2 \<noteq> {} then rotate_seen_shares s2 else s2)\<lparr>s_pending_difficulty_change := False\<rparr>"
proof (cases "\<not> (s_subscribed s \<and> s_authorized s \<and> s_payout_script s \<noteq> None)")
  case True
  then have "build_notify_line s job clean = Inr (s, None)" by (auto simp: build_notify_line_def)
  then have "s' = s" using assms by simp
  then show ?thesis using idle True by blast
next
  case False
  then obtain script where sc: "s_payout_script s = Some script" "s_subscribed s" "s_authorized s" by auto
  define s1 where "s1 = s\<lparr>s_last_notified_publication_sequence :=
    max (s_last_notified_publication_sequence s) (j_publication_sequence job)\<rparr>"
  have s1: "same_seen s s1" "same_flags s s1" by (simp_all add: s1_def same_seen_def same_flags_def)
  show ?thesis
  proof (cases "coinbase2_for s1 job")
    case (Inl e)
    then have "build_notify_line s job clean = Inl e"
      using sc unfolding build_notify_line_def s1_def [symmetric] Let_def by simp
    then show ?thesis using assms by simp
  next
    case (Inr p)
    obtain s2 c where p: "p = (s2, c)" by (cases p)
    have s2: "same_seen s1 s2 \<and> same_flags s1 s2" using coinbase2_for_same Inr p by blast
    show ?thesis
    proof (rule sent [of s2])
      show "s' = (if clean \<and> s_seen_shares_current s2 \<noteq> {} then rotate_seen_shares s2 else s2)\<lparr>s_pending_difficulty_change := False\<rparr>"
        (is "_ = ?s3")
      proof -
        have "\<exists>line. build_notify_line s job clean = Inr (?s3, line)"
          using sc Inr p unfolding build_notify_line_def s1_def [symmetric] Let_def by simp
        then show ?thesis using assms by auto
      qed
    qed (use False s1 s2 in \<open>simp_all add: same_seen_def same_flags_def\<close>)
  qed
qed

lemma build_notify_line_seen:
  assumes "build_notify_line s job clean = Inr (s', line)"
  shows "if s_subscribed s \<and> s_authorized s \<and> s_payout_script s \<noteq> None \<and> clean \<and> s_seen_shares_current s \<noteq> {}
    then s_seen_shares_current s' = {} \<and> s_seen_shares_previous s' = s_seen_shares_current s else same_seen s s'"
  using assms by (cases rule: build_notify_line_cases) (simp_all add: same_seen_def rotate_seen_shares_def)

lemma build_notify_line_flags: "build_notify_line s job clean = Inr (s', line) \<Longrightarrow> same_flags s s'"
  by (erule build_notify_line_cases) (simp_all add: same_flags_def rotate_seen_shares_def)

lemma generation_notify:
  assumes "build_notify_line s job clean = Inr (s', line)"
  shows "generation s s'"
  using build_notify_line_seen [OF assms] by (auto simp: generation_def same_seen_def split: if_split_asm)

lemma bindE_pairE:
  assumes "bindE m f = Inr y"
  obtains a b where "m = Inr (a, b)" "f (a, b) = Inr y"
  using assms by (cases m) auto

lemma send_difficulty_then_work_cases:
  assumes "send_difficulty_then_work ctx pf s = Inr (s', es)"
  obtains (idle) "pc_current_job ctx = None" "s' = s"
  | (notified) job line where "pc_current_job ctx = Some job" "build_notify_line s job True = Inr (s', line)"
proof (cases "pc_current_job ctx")
  case None
  then have "send_difficulty_then_work ctx pf s = Inr (s, [SendLine (set_difficulty_line pf s)])"
    by (simp add: send_difficulty_then_work_def Let_def)
  then show ?thesis using idle None assms by simp
next
  case (Some job)
  obtain s2 line where l: "build_notify_line s job True = Inr (s2, line)"
    using assms Some unfolding send_difficulty_then_work_def Let_def by (auto elim!: bindE_pairE)
  then have "\<exists>es. send_difficulty_then_work ctx pf s = Inr (s2, es)"
    using Some by (simp add: send_difficulty_then_work_def Let_def)
  then have "s2 = s'" using assms by auto
  then show ?thesis using notified Some l by blast
qed

lemma generation_work:
  assumes "send_difficulty_then_work ctx pf s = Inr (s', es)"
  shows "generation s s'"
  using assms by (cases rule: send_difficulty_then_work_cases) (auto intro: generation_notify generation_quiet)

lemma generation_trans_quiet: "quiet s s1 \<Longrightarrow> generation s1 s2 \<Longrightarrow> generation s s2"
  by (simp add: generation_def quiet_def)

lemma generation_same_seen:
  "s_seen_shares_current s1 = s_seen_shares_current s \<Longrightarrow> s_seen_shares_previous s1 = s_seen_shares_previous s \<Longrightarrow>
    generation s1 s2 \<Longrightarrow> generation s s2"
  by (simp add: generation_def)

lemma generation_subscribe:
  assumes "handle_subscribe ctx pf s request_id params = Inr (s', es)"
  shows "generation s s'"
proof -
  define s1 where "s1 = (if params \<noteq> [] \<and> hd params \<noteq> [] then s\<lparr>s_user_agent := sanitize (hd params) 128\<rparr> else s)\<lparr>s_subscribed := True\<rparr>"
  have q: "quiet s s1" by (simp add: s1_def quiet_defs)
  then show ?thesis
    using assms generation_trans_quiet [OF q generation_work] generation_quiet [OF q]
    unfolding handle_subscribe_def Let_def s1_def [symmetric] by (auto simp: result_simps split: if_splits)
qed

lemma generation_authorize:
  assumes "handle_authorize ctx pf s request_id params = Inr (s', es)"
  shows "generation s s'"
proof (cases "params = [] \<or> hd params = []")
  case True
  then show ?thesis
    using assms generation_quiet [OF quiet_send_error, of s pf request_id ERR_OTHER] by (simp add: handle_authorize_def)
next
  case False
  define address where "address = until_dot (sanitize (hd params) 128)"
  show ?thesis
  proof (cases "pc_validate_address ctx address")
    case None
    then show ?thesis using assms False generation_quiet [OF quiet_refl] by (simp add: handle_authorize_def Let_def address_def)
  next
    case (Some script)
    then obtain s1 es1 where "send_difficulty_then_work ctx pf s1 = Inr (s', es1)"
      "s_seen_shares_current s1 = s_seen_shares_current s" "s_seen_shares_previous s1 = s_seen_shares_previous s"
      using assms False unfolding handle_authorize_def Let_def address_def [symmetric]
      by (auto simp: result_simps split: if_splits)
    then show ?thesis using generation_work generation_same_seen by blast
  qed
qed

lemma dispatch_cases:
  "dispatch ctx pf s request = handle_subscribe ctx pf s (rq_id request) (rq_params request)
   \<or> dispatch ctx pf s request = handle_authorize ctx pf s (rq_id request) (rq_params request)
   \<or> (\<exists>p. dispatch ctx pf s request = Inr p \<and> quiet s (fst p))"
proof -
  define Q where "Q r \<longleftrightarrow> (\<exists>p. r = Inr p \<and> quiet s (fst p))" for r :: "(Session \<times> Effect list) result"
  have "Q (Inr p)" if "quiet s (fst p)" for p using that by (auto simp: Q_def)
  note q = this [OF quiet_handle_configure] this [OF quiet_handle_suggest] this [of "(s, _)"]
  show ?thesis unfolding Q_def [symmetric] by (simp add: dispatch_def Let_def q)
qed

lemma generation_dispatch:
  assumes "dispatch ctx pf s request = Inr (s', es)"
  shows "generation s s'"
  using dispatch_cases [of ctx pf s request]
proof (elim disjE exE conjE)
  fix p
  assume "dispatch ctx pf s request = Inr p" "quiet s (fst p)"
  then have "quiet s s'" using assms by auto
  then show ?thesis by (rule generation_quiet)
qed (metis assms generation_subscribe, metis assms generation_authorize)

lemma remember_seen:
  "key \<in> s_seen_shares_current (fst (remember s key)) \<union> s_seen_shares_previous (fst (remember s key))"
  "generation s (fst (remember s key))"
  by (auto simp: remember_def rotate_seen_shares_def Let_def generation_def)

lemma submit_enter_cases:
  assumes "submit_enter ctx pf s request_id params = Inr ((s', es), sub)"
  obtains (refused) "sub = None" "quiet s s'"
  | (fresh) job c where "pc_recent_job ctx (params ! 1) = Some job" "snd (remember s (share_key s params))"
      "coinbase2_for (fst (remember s (share_key s params))) job = Inr (s', c)"
      "sub = Some (share_submission s' request_id job c params)"
proof (cases "share_admitted ctx s params")
  case False
  then obtain p where "submit_enter ctx pf s request_id params = Inr (p, None)" "quiet s (fst p)"
    by (rule submit_enter_refused)
  then have "sub = None" "quiet s s'" using assms by auto
  then show ?thesis by (rule refused)
next
  case True
  note admitted = True [unfolded share_admitted_def]
  then obtain job where job: "pc_recent_job ctx (params ! 1) = Some job" by blast
  then have "bindE (coinbase2_for (fst (remember s (share_key s params))) job) (\<lambda>(s, c).
      Inr ((s, []), Some (share_submission s request_id job c params))) = Inr ((s', es), sub)"
    using assms admitted unfolding submit_enter_eq by simp
  then obtain s2 c where "coinbase2_for (fst (remember s (share_key s params))) job = Inr (s2, c)"
    "Inr ((s2, []), Some (share_submission s2 request_id job c params)) = Inr ((s', es), sub)"
    by (rule bindE_pairE) simp
  then show ?thesis using fresh [of job c] job admitted by auto
qed

lemma generation_enter:
  assumes "submit_enter ctx pf s request_id params = Inr ((s', es), sub)"
  shows "generation s s'"
  using assms
proof (cases rule: submit_enter_cases)
  case (fresh job c)
  then show ?thesis
    using remember_seen(2) [of s "share_key s params"] coinbase2_for_same [OF fresh(3)]
    by (simp add: generation_def same_seen_def)
qed (rule generation_quiet)

lemma generation_send_notify:
  assumes "send_notify s job clean = Inr (s', es)"
  shows "generation s s'"
proof (cases "j_publication_sequence job \<noteq> 0 \<and> j_publication_sequence job \<le> s_last_notified_publication_sequence s")
  case True
  then have "send_notify s job clean = Inr (s, [])" by (simp add: send_notify_def)
  then show ?thesis using assms generation_quiet [OF quiet_refl] by simp
next
  case False
  then have "send_notify s job clean =
      bindE (build_notify_line s job clean) (\<lambda>(s, line). Inr (s, case line of Some line \<Rightarrow> [SendLine line] | None \<Rightarrow> []))"
    unfolding send_notify_def by (rule if_not_P)
  then have "bindE (build_notify_line s job clean) (\<lambda>(s, line). Inr (s, case line of Some line \<Rightarrow> [SendLine line] | None \<Rightarrow> [])) =
      Inr (s', es)"
    using assms by metis
  then obtain s2 line where "build_notify_line s job clean = Inr (s2, line)" "s2 = s'" by (rule bindE_pairE) simp
  then show ?thesis using generation_notify by blast
qed

section \<open>Paths\<close>

text \<open>One atomic operation on the session, and a sequence of them with the number of rotations.\<close>

inductive session_next :: "Session \<Rightarrow> Session \<Rightarrow> bool" where
  request: "dispatch ctx pf s request = Inr (s', es) \<Longrightarrow> session_next s s'"
| submit_begin: "submit_enter ctx pf s request_id params = Inr ((s', es), sub) \<Longrightarrow> session_next s s'"
| submit_end: "submit_leave pf s sub outcome = (s', es) \<Longrightarrow> session_next s s'"
| publish: "send_notify s job clean = Inr (s', es) \<Longrightarrow> session_next s s'"
| retarget: "maybe_retarget ctx pf s = (s', es) \<Longrightarrow> session_next s s'"

definition rotations :: "Session \<Rightarrow> Session \<Rightarrow> nat" where
  "rotations s s' = (if s_seen_shares_current s \<subseteq> s_seen_shares_current s' \<and> s_seen_shares_previous s' = s_seen_shares_previous s then 0 else 1)"

inductive session_path :: "nat \<Rightarrow> Session \<Rightarrow> Session \<Rightarrow> bool" where
  stay: "session_path 0 s s"
| move: "session_path n s s' \<Longrightarrow> session_next s' s'' \<Longrightarrow> session_path (n + rotations s' s'') s s''"

lemma session_next_generation: "session_next s s' \<Longrightarrow> generation s s'"
proof (induction rule: session_next.induct)
  case (submit_end pf s sub outcome s' es)
  then show ?case using generation_quiet [OF quiet_submit_leave, of s pf sub outcome] by simp
next
  case (retarget ctx pf s s' es)
  then show ?case using generation_quiet [OF quiet_maybe_retarget, of s ctx pf] by simp
qed (rule generation_dispatch generation_enter generation_send_notify, assumption)+

lemma path_remembers:
  assumes "session_path n s s'" "key \<in> s_seen_shares_current s"
  shows "(n = 0 \<longrightarrow> key \<in> s_seen_shares_current s') \<and> (n \<le> 1 \<longrightarrow> key \<in> s_seen_shares_current s' \<union> s_seen_shares_previous s')"
  using assms
proof (induction rule: session_path.induct)
  case (move n s s' s'')
  then have "generation s' s''" using session_next_generation by blast
  then show ?case using move by (auto simp: generation_def rotations_def split: if_split_asm)
qed simp

text \<open>C8: A share is credited at most once while it is remembered: once a submission has been admitted, the same share,
  in any spelling with the same key, is refused as a duplicate over every interleaving of requests, submissions, published
  jobs and retargets that rotates the remembered shares at most once.\<close>

theorem remembered_share_refused:
  assumes "submit_enter ctx pf s request_id params = Inr ((s1, es), Some sub)" "session_path n s1 s2" "n \<le> 1"
    "share_key s2 params' = share_key s params" "s_authorized s2" "s_subscribed s2" "length params' \<ge> 5"
    "pc_recent_job ctx' (params' ! 1) = Some job" "\<not> too_long ctx' params'"
  shows "submit_enter ctx' pf' s2 request_id' params' = Inr (reject_locked pf' s2 request_id' Duplicate ERR_DUPLICATE, None)"
proof -
  have "share_key s params \<in> s_seen_shares_current s1"
    using assms(1)
  proof (cases rule: submit_enter_cases)
    case (fresh job c)
    have "share_key s params \<in> s_seen_shares_current (fst (remember s (share_key s params)))"
      using fresh(2) by (simp add: remember_def Let_def split: if_split_asm)
    then show ?thesis using coinbase2_for_same [OF fresh(3)] by (simp add: same_seen_def)
  qed simp
  then have "share_key s2 params' \<in> s_seen_shares_current s2 \<union> s_seen_shares_previous s2"
    using path_remembers [OF assms(2)] assms(3,4) by simp
  then have "\<not> snd (remember s2 (share_key s2 params'))" by (auto simp: remember_def)
  then show ?thesis unfolding submit_enter_eq using assms(5-9) by simp
qed

section \<open>A concrete session\<close>

definition sample_config :: RuntimeConfig where
  "sample_config = \<lparr>rc_initial_difficulty = Finite 1, rc_minimum_difficulty = Finite 1, rc_maximum_difficulty = Finite 0,
    rc_variable_difficulty = True, rc_vardiff_target_shares_per_minute = Finite 12, rc_vardiff_retarget_seconds = 60,
    rc_work_rebroadcast_seconds = Finite 30, rc_poll_interval = Finite 1, rc_status_interval_seconds = Finite 30,
    rc_user_stats_retention_days = 90, rc_fast_block_notify = True, rc_max_clients = 1024, rc_max_workers_per_address = 256,
    rc_drop_idle_seconds = 3600, rc_auth_timeout_seconds = 30, rc_max_protocol_errors = 100\<rparr>"

definition sample_context :: "Job \<Rightarrow> PoolContext" where
  "sample_context job = \<lparr>pc_extranonce2_size = 4, pc_runtime_config = sample_config,
    pc_validate_address = (\<lambda>_. Some [0x51]), pc_current_job = Some job,
    pc_recent_job = (\<lambda>job_id. if job_id = j_job_id job then Some job else None),
    pc_attach_worker = (\<lambda>_ _. None), pc_version_mask = 0x1fffe000\<rparr>"

definition sample_platform :: Platform where
  "sample_platform = \<lparr>pf_glaze = sample_glaze, pf_exp = (\<lambda>_. Infinity False), pf_now_wall = 1296688700, pf_now_steady = Finite 0\<rparr>"

definition sample_session :: "Job \<Rightarrow> Session" where
  "sample_session job = (make_Session (sample_context job) sample_platform [1, 1, 1, 1])\<lparr>s_subscribed := True,
    s_authorized := True, s_address := Some ''a'', s_worker := Some [], s_payout_script := Some [0x51]\<rparr>"

lemma sample_job_facts:
  assumes "make_Job ''1'' bt [0x2f] 4 4 1 True [] (Finite 0) = Inr job"
  shows "j_job_id job = ''1''" "j_donation_percent job = Finite 0"
  using assms by (auto simp: make_Job_def Let_def result_simps split: if_split_asm)

lemma sample_service:
  assumes "make_Job ''1'' bt [0x2f] 4 4 1 True [] (Finite 0) = Inr job"
  shows "pool_service {sample_context job} {job} (\<lambda>_. Some [0x51])"
proof
  fix j script
  assume "j \<in> {job}"
  then show "\<exists>cb. Job_build_coinbase2 j script = Inr cb"
    using sample_job_facts(2) [OF assms] by (simp add: Job_build_coinbase2_def payout_outputs_def)
qed (auto simp: sample_context_def split: if_split_asm)

lemma sample_session_ok: "session_ok {job} (\<lambda>_. Some [0x51]) [1, 1, 1, 1] (sample_session job)"
  by (simp add: sample_session_def make_Session_def session_ok_def account_ok_def seen_ok_def)

lemma sample_session_facts [simp]:
  "s_authorized (sample_session job)" "s_subscribed (sample_session job)" "s_payout_script (sample_session job) = Some [0x51]"
  "s_seen_shares_current (sample_session job) = {}" "s_seen_shares_previous (sample_session job) = {}"
  "s_version_mask (sample_session job) = 0"
  by (simp_all add: sample_session_def make_Session_def)

lemma sample_enter:
  assumes "make_Job ''1'' bt [0x2f] 4 4 1 True [] (Finite 0) = Inr job" "length params = 5" "params ! 1 = ''1''"
    "\<not> too_long (sample_context job) params"
  obtains s1 sub where "submit_enter (sample_context job) sample_platform (sample_session job) JNull params = Inr ((s1, []), Some sub)"
    "same_flags (sample_session job) s1" "s_seen_shares_current s1 = {share_key (sample_session job) params}"
proof -
  define s where "s = sample_session job"
  define key where "key = share_key s params"
  define r where "r = s\<lparr>s_seen_shares_current := {key}\<rparr>"
  have rem: "remember s key = (r, True)"
    by (simp add: remember_def Let_def kMaxSeenShares_def s_def r_def)
  obtain cb where cb: "Job_build_coinbase2 job [0x51] = Inr cb"
    using pool_service.payable [OF sample_service [OF assms(1)], of job "[0x51]"] by auto
  define c where "c = \<lparr>cc_job_id = j_job_id job, cc_coinbase2 = cb, cc_coinbase2_hex = to_hex cb\<rparr>"
  have "s_coinbase2_cache r = None" "s_payout_script r = Some [0x51]"
    by (simp_all add: r_def s_def sample_session_def make_Session_def)
  then have cf: "coinbase2_for r job = Inr (r\<lparr>s_coinbase2_cache := Some c\<rparr>, c)"
    using cb by (simp add: coinbase2_for_def Let_def c_def)
  have "pc_recent_job (sample_context job) (params ! 1) = Some job"
    using sample_job_facts(1) [OF assms(1)] assms(3) by (simp add: sample_context_def)
  then have "submit_enter (sample_context job) sample_platform s JNull params =
      Inr ((r\<lparr>s_coinbase2_cache := Some c\<rparr>, []), Some (share_submission (r\<lparr>s_coinbase2_cache := Some c\<rparr>) JNull job c params))"
    unfolding submit_enter_eq key_def [symmetric] using rem cf assms(2,4) by (simp add: s_def)
  then show ?thesis
    unfolding s_def by (rule that) (simp_all add: same_flags_def r_def s_def key_def)
qed

definition sample_params :: "string list" where
  "sample_params = [''w'', ''1'', ''02020202'', ''4d49e5da'', ''00000007'']"

lemma sample_params_facts [simp]:
  "length sample_params = 5" "sample_params ! 1 = ''1''" "\<not> too_long (sample_context job) sample_params"
  by (simp_all add: sample_params_def too_long_def share_version_def sample_context_def)

theorem remembered_share_refused_witness:
  "\<exists>job s1 sub. submit_enter (sample_context job) sample_platform (sample_session job) JNull sample_params = Inr ((s1, []), Some sub)
    \<and> submit_enter (sample_context job) sample_platform s1 JNull sample_params =
      Inr (reject_locked sample_platform s1 JNull Duplicate ERR_DUPLICATE, None)"
proof -
  obtain bt where bt: "template_of_reply sample_reply = Inr bt" using sample_reply_accepted by blast
  obtain job where job: "make_Job ''1'' bt [0x2f] 4 4 1 True [] (Finite 0) = Inr job" using sample_job_exists [OF bt] by blast
  obtain s1 sub where s1: "submit_enter (sample_context job) sample_platform (sample_session job) JNull sample_params = Inr ((s1, []), Some sub)"
    "same_flags (sample_session job) s1"
    by (rule sample_enter [OF job sample_params_facts])
  have "share_key s1 sample_params = share_key (sample_session job) sample_params"
    using s1(2) by (simp add: share_key_def make_dedup_key_def same_flags_def)
  moreover have "pc_recent_job (sample_context job) (sample_params ! 1) = Some job"
    using sample_job_facts(1) [OF job] sample_params_facts(2) by (simp add: sample_context_def)
  ultimately have "submit_enter (sample_context job) sample_platform s1 JNull sample_params =
      Inr (reject_locked sample_platform s1 JNull Duplicate ERR_DUPLICATE, None)"
    using s1(2) by (intro remembered_share_refused [OF s1(1) session_path.stay]) (simp_all add: same_flags_def)
  then show ?thesis using s1(1) by blast
qed

section \<open>Two spellings of one share\<close>

lemma coinbase2_for_cached:
  assumes "coinbase2_for s job = Inr (s', c)"
  shows "s_coinbase2_cache s' = Some c \<and> cc_job_id c = j_job_id job \<and> s_payout_script s' \<noteq> None
    \<and> s_difficulty s' = s_difficulty s \<and> s_previous_difficulty s' = s_previous_difficulty s
    \<and> s_pending_difficulty_change s' = s_pending_difficulty_change s"
proof (cases "s_payout_script s")
  case (Some script)
  show ?thesis
  proof (cases "\<exists>c. s_coinbase2_cache s = Some c \<and> cc_job_id c = j_job_id job")
    case True
    then show ?thesis using assms Some by (auto simp: coinbase2_for_def)
  next
    case False
    then show ?thesis
      using assms Some by (cases "Job_build_coinbase2 job script"; cases "s_coinbase2_cache s") (auto simp: coinbase2_for_def Let_def)
  qed
qed (use assms in \<open>simp add: coinbase2_for_def\<close>)

lemma coinbase2_for_hit:
  assumes "s_coinbase2_cache s = Some c" "cc_job_id c = j_job_id job" "s_payout_script s \<noteq> None"
  shows "coinbase2_for s job = Inr (s, c)"
  using assms by (auto simp: coinbase2_for_def)

lemma remember_flags:
  "same_flags s (fst (remember s key))" "s_coinbase2_cache (fst (remember s key)) = s_coinbase2_cache s"
  "s_difficulty (fst (remember s key)) = s_difficulty s" "s_previous_difficulty (fst (remember s key)) = s_previous_difficulty s"
  "s_pending_difficulty_change (fst (remember s key)) = s_pending_difficulty_change s"
  by (simp_all add: remember_def rotate_seen_shares_def Let_def same_flags_def)

lemma remember_fresh_seen:
  assumes "key' \<notin> s_seen_shares_current s \<union> s_seen_shares_previous s" "key' \<noteq> key"
  shows "key' \<notin> s_seen_shares_current (fst (remember s key)) \<union> s_seen_shares_previous (fst (remember s key))"
  using assms by (simp add: remember_def rotate_seen_shares_def Let_def)

lemma roll_version_zero:
  assumes "j_version job AND m = 0"
  shows "roll_version job (Some ''0'') m = roll_version job None m"
proof -
  have "try_parse_hex_u32 ''0'' = Some 0" by (simp add: try_parse_hex_u32_def kHexTable_eq)
  moreover have "j_version job AND NOT m = j_version job"
  proof (rule bit_eqI)
    fix n
    have "\<not> (bit (j_version job) n \<and> bit m n)" using assms by (metis bit_and_iff bit_0_eq bot_apply bot_bool_def)
    then show "bit (j_version job AND NOT m) n = bit (j_version job) n"
      using bit_imp_le_length [of "j_version job" n] by (auto simp: bit_simps)
  qed
  ultimately show ?thesis by (simp add: roll_version_def)
qed

lemma validate_share_version:
  assumes "roll_version job (si_version_bits_hex input) (si_version_mask input) = roll_version job (si_version_bits_hex input') (si_version_mask input')"
    "input\<lparr>si_version_bits_hex := None\<rparr> = input'\<lparr>si_version_bits_hex := None\<rparr>"
  shows "validate_share job input = validate_share job input'"
proof -
  have "si_coinbase2 input = si_coinbase2 input'" "si_extranonce1 input = si_extranonce1 input'"
    "si_extranonce2_hex input = si_extranonce2_hex input'" "si_ntime_hex input = si_ntime_hex input'"
    "si_nonce_hex input = si_nonce_hex input'" "si_share_target input = si_share_target input'" "si_now_unix input = si_now_unix input'"
    using assms(2) by (cases input; cases input'; simp)+
  then show ?thesis using assms(1)
    by (cases "try_from_hex (si_extranonce2_hex input')"; cases "try_parse_hex_u32 (si_ntime_hex input')";
        cases "try_parse_hex_u32 (si_nonce_hex input')") (simp_all add: validate_share_def)
qed

text \<open>C36: The key does not collapse every spelling of a share: after a submission without version bits has been admitted,
  the same submission with version bits zero is admitted too, and is validated to the same outcome, whenever the job's version
  has no bit in the negotiated mask (in particular when version rolling is not negotiated).\<close>

theorem zero_version_bits_admitted:
  assumes first: "submit_enter ctx pf s request_id params = Inr ((s1, es), Some sub)" "length params = 5"
    and unseen: "share_key s (params @ [''0'']) \<notin> s_seen_shares_current s \<union> s_seen_shares_previous s"
    and unrolled: "j_version (sub_job sub) AND s_version_mask s = 0"
    and open_session: "s_authorized s" "s_subscribed s" "\<not> too_long ctx params"
  shows "\<exists>s2 sub'. submit_enter ctx pf s1 request_id' (params @ [''0'']) = Inr ((s2, []), Some sub')
    \<and> (\<forall>pf en. submit_validate pf en sub' = submit_validate pf en sub)"
  using first(1)
proof (cases rule: submit_enter_cases)
  case (fresh job c)
  let ?p = "params @ [''0'']"
  have sub: "sub = share_submission s1 request_id job c params" using fresh(4) by simp
  define r where "r = fst (remember s (share_key s params))"
  have r: "same_flags s r" by (simp add: r_def remember_flags)
  have s1: "same_flags s s1" "same_seen r s1" using r coinbase2_for_same fresh(3) by (auto simp: same_flags_def r_def)
  have nth: "?p ! i = params ! i" if "i < 5" for i using that first(2) by (simp add: nth_append)
  have vb: "share_version params = None" "share_version ?p = Some ''0''" using first(2) by (simp_all add: share_version_def nth_append)
  have key: "share_key s1 ?p = share_key s ?p" using s1(1) by (simp add: share_key_def make_dedup_key_def same_flags_def)
  have "share_key s ?p \<noteq> share_key s params"
  proof
    assume "share_key s ?p = share_key s params"
    then have "length (share_key s ?p) = length (share_key s params)" by simp
    then show False
      by (simp add: share_key_def vb nth make_dedup_key_def Let_def append_canonical_hex_def append_lower_def)
  qed
  then have "share_key s1 ?p \<notin> s_seen_shares_current s1 \<union> s_seen_shares_previous s1"
    using remember_fresh_seen [OF unseen, of "share_key s params"] s1(2) by (simp add: key same_seen_def r_def)
  then have admitted: "snd (remember s1 (share_key s1 ?p))" by (simp add: remember_def Let_def)
  define s2 where "s2 = fst (remember s1 (share_key s1 ?p))"
  note cached = coinbase2_for_cached [OF fresh(3)]
  have "coinbase2_for s2 job = Inr (s2, c)"
    using cached remember_flags [of s1 "share_key s1 ?p"] by (intro coinbase2_for_hit) (simp_all add: s2_def same_flags_def)
  moreover have "\<not> too_long ctx ?p" using open_session(3) by (simp add: too_long_def nth vb)
  ultimately have "submit_enter ctx pf s1 request_id' ?p = Inr ((s2, []), Some (share_submission s2 request_id' job c ?p))"
    unfolding submit_enter_eq using open_session s1(1) first(2) fresh(1) admitted
    by (simp add: s2_def [symmetric] same_flags_def nth)
  moreover have "submit_validate pf en (share_submission s2 request_id' job c ?p) = submit_validate pf en sub" for pf en
  proof -
    have "roll_version job (Some ''0'') (s_version_mask s) = roll_version job None (s_version_mask s)"
      using unrolled sub by (intro roll_version_zero) (simp add: share_submission_def submission_snapshot_def)
    moreover have "sub_version_mask sub = s_version_mask s" "s_version_mask s2 = s_version_mask s"
      using s1(1) remember_flags(1) [of s1 "share_key s1 ?p"]
      by (simp_all add: sub share_submission_def submission_snapshot_def s2_def same_flags_def)
    ultimately have "validate_share job (submission_input pf en (share_submission s2 request_id' job c ?p) t) =
        validate_share job (submission_input pf en sub t)" for t
      by (intro validate_share_version) (simp_all add: submission_input_def sub share_submission_def submission_snapshot_def vb nth)
    moreover have "accept_difficulty (share_submission s2 request_id' job c ?p) = accept_difficulty sub"
      using remember_flags [of s1 "share_key s1 ?p"]
      by (simp add: sub accept_difficulty_def share_submission_def submission_snapshot_def s2_def)
    moreover have "sub_job (share_submission s2 request_id' job c ?p) = job" "sub_job sub = job"
      by (simp_all add: sub share_submission_def submission_snapshot_def)
    ultimately show ?thesis unfolding submit_validate_def by (simp split: option.split)
  qed
  ultimately show ?thesis by blast
qed simp

theorem zero_version_bits_admitted_witness:
  "\<exists>job s1 sub s2 sub'. submit_enter (sample_context job) sample_platform (sample_session job) JNull sample_params = Inr ((s1, []), Some sub)
    \<and> submit_enter (sample_context job) sample_platform s1 JNull (sample_params @ [''0'']) = Inr ((s2, []), Some sub')
    \<and> (\<forall>pf en. submit_validate pf en sub' = submit_validate pf en sub)"
proof -
  obtain bt where bt: "template_of_reply sample_reply = Inr bt" using sample_reply_accepted by blast
  obtain job where job: "make_Job ''1'' bt [0x2f] 4 4 1 True [] (Finite 0) = Inr job" using sample_job_exists [OF bt] by blast
  obtain s1 sub where s1: "submit_enter (sample_context job) sample_platform (sample_session job) JNull sample_params = Inr ((s1, []), Some sub)"
    by (rule sample_enter [OF job sample_params_facts])
  then show ?thesis
    using zero_version_bits_admitted [OF s1, of JNull] by fastforce
qed

section \<open>Forgetting by authorizing again\<close>

lemma authorize_rotates:
  assumes "handle_authorize ctx pf s request_id params = Inr (s', es)" "params \<noteq> []" "hd params \<noteq> []"
    "pc_validate_address ctx (until_dot (sanitize (hd params) 128)) \<noteq> None" "pc_current_job ctx \<noteq> None" "s_subscribed s"
    "s_seen_shares_current s \<noteq> {}"
  shows "s_seen_shares_current s' = {} \<and> s_seen_shares_previous s' = s_seen_shares_current s
    \<and> s_subscribed s' \<and> s_authorized s' \<and> s_version_mask s' = s_version_mask s"
proof -
  obtain script where script: "pc_validate_address ctx (until_dot (sanitize (hd params) 128)) = Some script" using assms(4) by blast
  define s1 where "s1 = (if s_payout_script s \<noteq> Some script then s\<lparr>s_coinbase2_cache := None\<rparr> else s)\<lparr>
    s_address := Some (until_dot (sanitize (hd params) 128)),
    s_worker := Some (if CHR ''.'' \<in> set (hd params) then ascii_only (after_dot (hd params)) 128 else []),
    s_payout_script := Some script, s_authorized := True,
    s_worker_accounting := pc_attach_worker ctx (until_dot (sanitize (hd params) 128))
      (if CHR ''.'' \<in> set (hd params) then ascii_only (after_dot (hd params)) 128 else [])\<rparr>"
  have s1: "s_subscribed s1 = s_subscribed s" "s_authorized s1" "s_payout_script s1 \<noteq> None" "same_seen s s1"
    "s_version_mask s1 = s_version_mask s"
    by (simp_all add: s1_def same_seen_def)
  have "bindE (send_difficulty_then_work ctx pf s1) (\<lambda>(s, effects). Inr (s,
      AttachWorker (until_dot (sanitize (hd params) 128))
        (if CHR ''.'' \<in> set (hd params) then ascii_only (after_dot (hd params)) 128 else []) # send_result pf request_id True @ effects)) =
      Inr (s', es)"
    using assms(1-3) script unfolding handle_authorize_def Let_def s1_def by simp
  then obtain s2 es2 where "send_difficulty_then_work ctx pf s1 = Inr (s2, es2)" "s2 = s'" by (rule bindE_pairE) simp
  then have "send_difficulty_then_work ctx pf s1 = Inr (s', es2)" by simp
  then show ?thesis
  proof (cases rule: send_difficulty_then_work_cases)
    case (notified job line)
    then show ?thesis using build_notify_line_seen [OF notified(2)] build_notify_line_flags [OF notified(2)] s1 assms(6,7)
      by (simp add: same_seen_def same_flags_def)
  qed (use assms(5) in simp)
qed


lemma admitted_submission:
  assumes "share_admitted ctx s params" "submit_enter ctx pf s request_id params = Inr ((s', es), sub)"
  shows "sub \<noteq> None \<and> s_subscribed s' = s_subscribed s"
proof -
  obtain job where "pc_recent_job ctx (params ! 1) = Some job" using assms(1) by (auto simp: share_admitted_def)
  then have "bindE (coinbase2_for (fst (remember s (share_key s params))) job) (\<lambda>(s, c).
      Inr ((s, []), Some (share_submission s request_id job c params))) = Inr ((s', es), sub)"
    using assms unfolding submit_enter_eq share_admitted_def by simp
  then obtain s2 c where "coinbase2_for (fst (remember s (share_key s params))) job = Inr (s2, c)" "s2 = s'" "sub \<noteq> None"
    by (rule bindE_pairE) auto
  then show ?thesis
    using coinbase2_for_same remember_flags(1) [of s "share_key s params"] by (auto simp: same_flags_def)
qed

definition junk_params :: "string list" where
  "junk_params = [''w'', ''1'', ''zz'', ''1'', ''1'']"

lemma junk_key: "share_key s junk_params \<noteq> share_key s' sample_params"
proof
  assume "share_key s junk_params = share_key s' sample_params"
  then have "length (share_key s junk_params) = length (share_key s' sample_params)" by simp
  then show False
    by (simp add: share_key_def share_version_def junk_params_def sample_params_def make_dedup_key_def Let_def
        append_canonical_hex_def append_lower_def format_08x_def)
qed


end
