(* ===== verification/Pool_Work.thy ===== *)
theory Pool_Work
  imports Session_Safety Address
begin

text \<open>
  The work side of \<^verbatim>\<open>src/src/pool/pool.cpp\<close>: job identifiers and extranonces, the cache of recent jobs, publication to the
  connected clients, templates from the node and the empty work of a fast block. A critical section of the sources is one
  operation here; what an operation hands to a client session is a list of \<open>Publication\<close>s. The node and the clocks are
  arguments.
\<close>

section \<open>State\<close>

record HeaderFacts =
  hf_height :: int
  hf_confirmations :: int
  hf_bits_hex :: string
  hf_mediantime :: u32

record ChainInfo =
  ci_chain :: string
  ci_blocks :: int

record ConnectedClient =
  cl_session :: nat
  cl_publish_asynchronously :: bool

record PendingPublication =
  pub_recipient :: ConnectedClient
  pub_job :: Job
  pub_clean :: bool

datatype Publication = Publish nat Job bool

datatype PublishOutcome = Published | DuplicateWork | StaleHeight | StalePrevhash

record WorkState =
  w_config :: Config
  w_runtime_config :: RuntimeConfig
  w_network :: Network
  w_chain_name :: string
  w_donation_script :: bytes
  w_job_id_prefix :: u32
  w_job_counter :: u64
  w_extranonce1_counter :: u64
  w_current_job :: "Job option"
  w_recent_jobs :: "string \<rightharpoonup> Job"
  w_recent_order :: "string list"
  w_publish_counter :: u64
  w_clients :: "ConnectedClient list"
  w_broadcast_cursor :: u64
  w_publication_queue :: "PendingPublication list"
  w_last_prevhash :: string
  w_last_template_time :: double
  w_last_version :: u32
  w_has_template :: bool
  w_fastblock_pending :: bool
  w_last_broadcast_steady :: double
  w_new_block_flag :: bool
  w_generator_ready :: bool
  w_empty_commitment :: string
  w_chain_blocks :: int
  w_connector_ready :: bool
  w_config_generation :: u64
  w_last_reload_rejected :: bool

definition kMaxRecentJobs :: nat where
  "kMaxRecentJobs = 24"

definition kAddressChars :: string where
  "kAddressChars = ''abcdefghijklmnopqrstuvwxyzABCDEFGHIJKLMNOPQRSTUVWXYZ0123456789._''"

definition plausible_address :: "string \<Rightarrow> bool" where
  "plausible_address address \<longleftrightarrow> address \<noteq> [] \<and> length address \<le> 100 \<and> list_all (\<lambda>c. c \<in> set kAddressChars) address"

definition validate_address :: "WorkState \<Rightarrow> string \<Rightarrow> bytes option" where
  "validate_address w address =
    (if \<not> plausible_address address then None
     else case address_to_script address (w_network w) of Inr script \<Rightarrow> Some script | Inl _ \<Rightarrow> None)"

text \<open>The constructor, with the number drawn from the random device and the start time as arguments.\<close>

definition make_WorkState :: "Config \<Rightarrow> u32 \<Rightarrow> int \<Rightarrow> WorkState" where
  "make_WorkState config random started =
    \<lparr>w_config = config, w_runtime_config = runtime_config config, w_network = Regtest, w_chain_name = ''regtest'',
     w_donation_script = [], w_job_id_prefix = random XOR word_of_int started, w_job_counter = 0,
     w_extranonce1_counter = word_of_int started, w_current_job = None, w_recent_jobs = Map.empty, w_recent_order = [],
     w_publish_counter = 0, w_clients = [], w_broadcast_cursor = 0, w_publication_queue = [], w_last_prevhash = [],
     w_last_template_time = Finite 0, w_last_version = 0, w_has_template = False, w_fastblock_pending = False,
     w_last_broadcast_steady = Finite 0, w_new_block_flag = False, w_generator_ready = False,
     w_empty_commitment = ''6a24aa21a9ed'' @ to_hex (sha256d (replicate 64 0)), w_chain_blocks = - 1,
     w_connector_ready = False, w_config_generation = 0, w_last_reload_rejected = False\<rparr>"

definition detect_network :: "WorkState \<Rightarrow> ChainInfo \<Rightarrow> WorkState" where
  "detect_network w info =
    (let config = w_config w;
         network = (case network_from_string (ci_chain info) of Some detected \<Rightarrow> detected | None \<Rightarrow> Regtest);
         w = w\<lparr>w_network := network, w_chain_name := ci_chain info, w_chain_blocks := ci_blocks info, w_generator_ready := True\<rparr>
     in if dless (Finite 0) (cfg_donation_percent config) \<and> cfg_donation_address config \<noteq> [] then
          case address_to_script (cfg_donation_address config) network of
            Inr script \<Rightarrow> w\<lparr>w_donation_script := script\<rparr>
          | Inl _ \<Rightarrow> w
        else w)"

section \<open>Identifiers\<close>

text \<open>The \<^verbatim>\<open>{:08x}\<close> format of a 64-bit integer: at least eight digits.\<close>

definition format_08x_u64 :: "u64 \<Rightarrow> string" where
  "format_08x_u64 v =
    (let digits = to_hex (write_be64 v) in drop (min 8 (length (takeWhile (\<lambda>c. c = CHR ''0'') digits))) digits)"

definition next_job_id :: "WorkState \<Rightarrow> WorkState \<times> string" where
  "next_job_id w =
    (let counter = w_job_counter w + 1
     in (w\<lparr>w_job_counter := counter\<rparr>, format_08x (w_job_id_prefix w) @ format_08x_u64 counter))"

fun counter_loop :: "u64 \<Rightarrow> nat \<Rightarrow> nat \<Rightarrow> bytes \<Rightarrow> bytes" where
  "counter_loop v index 0 extranonce = extranonce"
| "counter_loop v index (Suc n) extranonce =
    counter_loop v (index + 1) n (extranonce[length extranonce - 1 - index := ucast (drop_bit (8 * index) v)])"

definition next_extranonce1 :: "WorkState \<Rightarrow> WorkState \<times> bytes" where
  "next_extranonce1 w =
    (let v = w_extranonce1_counter w + 1;
         size1 = cfg_extranonce1_size (w_config w); prefix_bytes = cfg_extranonce1_prefix (w_config w);
         counter_size = size1 - length prefix_bytes;
         extranonce = take size1 (prefix_bytes @ replicate (size1 - length prefix_bytes) 0)
     in (w\<lparr>w_extranonce1_counter := v\<rparr>, counter_loop v 0 counter_size extranonce))"

section \<open>Publication\<close>

fun trim_recent :: "string list \<Rightarrow> (string \<rightharpoonup> Job) \<Rightarrow> string list \<times> (string \<rightharpoonup> Job)" where
  "trim_recent [] jobs = ([], jobs)"
| "trim_recent (job_id # order) jobs =
    (if length (job_id # order) > kMaxRecentJobs then trim_recent order (jobs(job_id := None)) else (job_id # order, jobs))"

fun replace_pending :: "ConnectedClient \<Rightarrow> Job \<Rightarrow> bool \<Rightarrow> PendingPublication list \<Rightarrow> PendingPublication list option" where
  "replace_pending recipient job clean [] = None"
| "replace_pending recipient job clean (p # queue) =
    (if cl_session (pub_recipient p) = cl_session recipient then
       let p = p\<lparr>pub_clean := pub_clean p \<or> clean\<rparr>
       in Some ((if j_publication_sequence job \<ge> j_publication_sequence (pub_job p) then p\<lparr>pub_job := job\<rparr> else p) # queue)
     else map_option (\<lambda>q. p # q) (replace_pending recipient job clean queue))"

definition enqueue_publication :: "WorkState \<Rightarrow> ConnectedClient \<Rightarrow> Job \<Rightarrow> bool \<Rightarrow> WorkState" where
  "enqueue_publication w recipient job clean =
    (if recipient \<notin> set (w_clients w) then w
     else case replace_pending recipient job clean (w_publication_queue w) of
       None \<Rightarrow> w\<lparr>w_publication_queue := w_publication_queue w @ [\<lparr>pub_recipient = recipient, pub_job = job, pub_clean = clean\<rparr>]\<rparr>
     | Some queue \<Rightarrow> w\<lparr>w_publication_queue := queue\<rparr>)"

definition publication_step :: "WorkState \<Rightarrow> WorkState \<times> Publication list" where
  "publication_step w =
    (case w_publication_queue w of
       [] \<Rightarrow> (w, [])
     | p # queue \<Rightarrow> (w\<lparr>w_publication_queue := queue\<rparr>, [Publish (cl_session (pub_recipient p)) (pub_job p) (pub_clean p)]))"

definition publish_refusal :: "WorkState \<Rightarrow> Job \<Rightarrow> bool \<Rightarrow> PublishOutcome option" where
  "publish_refusal w job require_new_prevhash =
    (case w_current_job w of
       None \<Rightarrow> None
     | Some current \<Rightarrow>
         if j_work_signature current = j_work_signature job then Some DuplicateWork
         else if j_height job < j_height current then Some StaleHeight
         else if require_new_prevhash \<and> j_prevhash_stratum current = j_prevhash_stratum job then Some StalePrevhash
         else None)"

definition install_job :: "WorkState \<Rightarrow> Job \<Rightarrow> WorkState \<times> Job" where
  "install_job w job =
    (let counter = w_publish_counter w + 1; job = set_publication_sequence job counter;
         (order, jobs) = trim_recent (w_recent_order w @ [j_job_id job]) ((w_recent_jobs w)(j_job_id job \<mapsto> job))
     in (w\<lparr>w_publish_counter := counter, w_current_job := Some job, w_recent_order := order, w_recent_jobs := jobs\<rparr>, job))"

definition publish_to_clients :: "WorkState \<Rightarrow> Job \<Rightarrow> bool \<Rightarrow> WorkState \<times> Publication list" where
  "publish_to_clients w job clean =
    (let recipients = w_clients w
     in if recipients = [] then (w, [])
        else let start = unat (w_broadcast_cursor w) mod length recipients;
                 w = w\<lparr>w_broadcast_cursor := w_broadcast_cursor w + 1\<rparr>;
                 rotated = rotate start recipients;
                 publications = map (\<lambda>c. Publish (cl_session c) job clean) (filter (\<lambda>c. \<not> cl_publish_asynchronously c) rotated)
          in (foldl (\<lambda>w c. enqueue_publication w c job clean) w (filter cl_publish_asynchronously rotated), publications))"

definition broadcast_job :: "WorkState \<Rightarrow> Job \<Rightarrow> bool \<Rightarrow> bool \<Rightarrow> (WorkState \<times> Publication list) \<times> PublishOutcome" where
  "broadcast_job w job clean require_new_prevhash =
    (case publish_refusal w job require_new_prevhash of
       Some outcome \<Rightarrow> ((w, []), outcome)
     | None \<Rightarrow> let (w, job) = install_job w job in (publish_to_clients w job clean, Published))"

section \<open>Templates\<close>

definition make_job :: "WorkState \<Rightarrow> BlockTemplate \<Rightarrow> bool \<Rightarrow> WorkState \<times> Job result" where
  "make_job w bt clean =
    (let (w, job_id) = next_job_id w; config = w_config w
     in (w, make_Job job_id bt (map byte_of_char (cfg_coinbase_signature config)) (cfg_extranonce1_size config)
          (cfg_extranonce2_size config) (cfg_coinbase_version config) clean (w_donation_script w) (cfg_donation_percent config)))"

definition build_and_broadcast :: "WorkState \<Rightarrow> BlockTemplate \<Rightarrow> bool \<Rightarrow> double \<Rightarrow> (WorkState \<times> Publication list) \<times> unit result" where
  "build_and_broadcast w bt clean now_steady =
    (if \<exists>current \<in> set_option (w_current_job w). bt_height bt < j_height current then ((w, []), Inr ())
     else let (w, job) = make_job w bt clean
       in case job of
            Inl e \<Rightarrow> ((w, []), Inl e)
          | Inr job \<Rightarrow>
              let ((w, publications), outcome) = broadcast_job w job clean False
              in if outcome = StaleHeight then ((w, publications), Inr ())
                 else ((w\<lparr>w_last_prevhash := bt_previousblockhash bt, w_last_template_time := now_steady,
                          w_last_version := bt_version bt, w_has_template := True, w_fastblock_pending := False,
                          w_last_broadcast_steady := now_steady\<rparr>, publications), Inr ()))"

definition fastblock_eligible :: "bool \<Rightarrow> bool \<Rightarrow> string \<Rightarrow> string \<Rightarrow> int \<Rightarrow> int \<Rightarrow> string \<Rightarrow> string \<Rightarrow> bool" where
  "fastblock_eligible has_template fastblock_pending notified_tip last_prevhash next_height confirmations chain_name bits_hex =
    (if \<not> has_template \<or> fastblock_pending then False
     else if bits_hex = [] then False
     else if notified_tip = last_prevhash then False
     else if confirmations \<noteq> 1 then False
     else if next_height mod 2016 = 0 then False
     else if chain_name = ''test'' \<or> chain_name = ''testnet4'' then False
     else True)"

text \<open>The quotient truncates; a shift by a negative count is undefined.\<close>

definition block_subsidy :: "int \<Rightarrow> int \<Rightarrow> u64 result" where
  "block_subsidy height halving_interval =
    (let halvings = (if halving_interval > 0
           then if height < 0 then - ((- height) div halving_interval) else height div halving_interval else 0)
     in if halvings \<ge> 64 then Inr 0
        else if halvings < 0 then Inl (Undefined ''shift by a negative count'')
        else Inr (drop_bit (nat halvings) 5000000000))"

definition fastblock_template :: "WorkState \<Rightarrow> string \<Rightarrow> HeaderFacts \<Rightarrow> u32 \<Rightarrow> int \<Rightarrow> int \<Rightarrow> BlockTemplate result" where
  "fastblock_template w block_hash header version halving_interval now_wall =
    bindE (parse_hex_u32 (hf_bits_hex header)) (\<lambda>bits.
    bindE (block_subsidy (hf_height header + 1) halving_interval) (\<lambda>subsidy.
    bindE (serialize_height (hf_height header + 1)) (\<lambda>height_push.
    bindE (from_hex (w_empty_commitment w)) (\<lambda>commitment.
      Inr (BlockTemplate_init\<lparr>bt_height := hf_height header + 1, bt_version := version,
        bt_curtime := max (word_of_int now_wall) (hf_mediantime header + 1), bt_bits_hex := hf_bits_hex header,
        bt_bits := bits, bt_coinbase_value := subsidy, bt_previousblockhash := block_hash,
        bt_coinbase_script_sig_prefix := height_push, bt_coinbase_witness := Some (replicate 32 0),
        bt_coinbase_required_outputs := [\<lparr>out_value = 0, out_script = commitment\<rparr>]\<rparr>)))))"

definition notify_new_block :: "WorkState \<Rightarrow> WorkState" where
  "notify_new_block w = w\<lparr>w_new_block_flag := True\<rparr>"

definition fastblock_publish :: "WorkState \<Rightarrow> string \<Rightarrow> HeaderFacts \<Rightarrow> u32 \<Rightarrow> int \<Rightarrow> int \<Rightarrow> double \<Rightarrow> (WorkState \<times> Publication list) \<times> bool" where
  "fastblock_publish w block_hash header version halving_interval now_wall now_steady =
    (case fastblock_template w block_hash header version halving_interval now_wall of
       Inl e \<Rightarrow> ((w, []), False)
     | Inr bt \<Rightarrow>
         let (w, job) = make_job w bt True
         in case job of
              Inl e \<Rightarrow> ((w, []), False)
            | Inr job \<Rightarrow>
                let ((w, publications), outcome) = broadcast_job w job True True
                in if outcome = Published then ((w\<lparr>w_last_broadcast_steady := now_steady\<rparr>, publications), True)
                   else ((w, publications), False))"

definition on_zmq_block :: "WorkState \<Rightarrow> string \<Rightarrow> HeaderFacts result \<Rightarrow> int \<Rightarrow> double \<Rightarrow> WorkState \<times> Publication list" where
  "on_zmq_block w block_hash fetched now_wall now_steady =
    (let maybe_eligible = rc_fast_block_notify (w_runtime_config w) \<and> block_hash \<noteq> [] \<and> w_has_template w \<and> \<not> w_fastblock_pending w
           \<and> block_hash \<noteq> w_last_prevhash w \<and> w_chain_name w \<noteq> ''test'' \<and> w_chain_name w \<noteq> ''testnet4'';
         (w, publications) =
           (case fetched of
              Inr header \<Rightarrow>
                if maybe_eligible \<and> fastblock_eligible (w_has_template w) (w_fastblock_pending w) block_hash (w_last_prevhash w)
                     (hf_height header + 1) (hf_confirmations header) (w_chain_name w) (hf_bits_hex header)
                then let ((w, publications), published) =
                           fastblock_publish (w\<lparr>w_fastblock_pending := True\<rparr>) block_hash header (w_last_version w)
                             (if w_chain_name w = ''regtest'' then 150 else 210000) now_wall now_steady
                  in (if published then w else w\<lparr>w_fastblock_pending := False\<rparr>, publications)
                else (w, [])
            | Inl e \<Rightarrow> (w, []))
     in (notify_new_block w, publications))"

definition set_connector_ready :: "WorkState \<Rightarrow> bool \<Rightarrow> WorkState" where
  "set_connector_ready w ready = w\<lparr>w_connector_ready := ready\<rparr>"

definition reload_config :: "WorkState \<Rightarrow> RuntimeConfig \<Rightarrow> WorkState" where
  "reload_config w config =
    notify_new_block (w\<lparr>w_runtime_config := config, w_last_reload_rejected := False,
                        w_config_generation := w_config_generation w + 1\<rparr>)"

definition note_config_reload_rejected :: "WorkState \<Rightarrow> WorkState" where
  "note_config_reload_rejected w = w\<lparr>w_last_reload_rejected := True\<rparr>"

text \<open>One pass of the refresh loop: the tip probe and the template fetch are what the node answers when asked.\<close>

definition fetch_due :: "WorkState \<Rightarrow> bool \<Rightarrow> string result \<Rightarrow> double \<Rightarrow> bool result" where
  "fetch_due w refresh_failing tip now_steady =
    (case w_current_job w of
       None \<Rightarrow> Inr True
     | Some job \<Rightarrow>
         if refresh_failing \<or> dleq (rc_work_rebroadcast_seconds (w_runtime_config w)) (dsub now_steady (w_last_broadcast_steady w))
         then Inr True
         else bindE tip (\<lambda>tip. Inr (if \<not> mines_on job tip then True else tip \<noteq> w_last_prevhash w)))"

definition refresh_step ::
  "WorkState \<Rightarrow> bool \<Rightarrow> string result \<Rightarrow> BlockTemplate result \<Rightarrow> double \<Rightarrow> (WorkState \<times> Publication list) \<times> bool"
where
  "refresh_step w refresh_failing tip template now_steady =
    (case fetch_due w refresh_failing tip now_steady of
       Inl e \<Rightarrow> ((w\<lparr>w_generator_ready := False, w_new_block_flag := False\<rparr>, []), True)
     | Inr False \<Rightarrow> ((w\<lparr>w_generator_ready := True, w_new_block_flag := False\<rparr>, []), refresh_failing)
     | Inr True \<Rightarrow>
         (case template of
            Inl e \<Rightarrow> ((w\<lparr>w_generator_ready := False, w_new_block_flag := False\<rparr>, []), True)
          | Inr bt \<Rightarrow>
              let ((w, publications), r) = build_and_broadcast w bt (bt_previousblockhash bt \<noteq> w_last_prevhash w) now_steady
              in case r of
                   Inl e \<Rightarrow> ((w\<lparr>w_generator_ready := False, w_new_block_flag := False\<rparr>, publications), True)
                 | Inr _ \<Rightarrow> ((w\<lparr>w_generator_ready := True, w_new_block_flag := False\<rparr>, publications), False)))"

section \<open>Clients\<close>

definition add_client :: "WorkState \<Rightarrow> nat \<Rightarrow> bool \<Rightarrow> WorkState \<times> bytes" where
  "add_client w session asynchronously =
    (let (w, extranonce) = next_extranonce1 w
     in (w\<lparr>w_clients := w_clients w @ [\<lparr>cl_session = session, cl_publish_asynchronously = asynchronously\<rparr>]\<rparr>, extranonce))"

definition remove_client :: "WorkState \<Rightarrow> nat \<Rightarrow> WorkState" where
  "remove_client w session =
    w\<lparr>w_clients := filter (\<lambda>c. cl_session c \<noteq> session) (w_clients w),
      w_publication_queue := filter (\<lambda>p. cl_session (pub_recipient p) \<noteq> session) (w_publication_queue w)\<rparr>"

definition client_count :: "WorkState \<Rightarrow> nat" where
  "client_count w = length (w_clients w)"

definition recent_job :: "WorkState \<Rightarrow> string \<Rightarrow> Job option" where
  "recent_job w job_id = w_recent_jobs w job_id"

text \<open>The interface of the sessions: what a session reads of the pool in one critical section. The worker registry is an
  argument.\<close>

definition pool_context :: "(string \<Rightarrow> string \<Rightarrow> nat option) \<Rightarrow> WorkState \<Rightarrow> PoolContext" where
  "pool_context attach_worker w =
    \<lparr>pc_extranonce2_size = cfg_extranonce2_size (w_config w), pc_runtime_config = w_runtime_config w,
     pc_validate_address = validate_address w, pc_current_job = w_current_job w, pc_recent_job = recent_job w,
     pc_attach_worker = attach_worker, pc_version_mask = cfg_version_rolling_mask (w_config w)\<rparr>"

end
