(* ===== verification/Pool_Run.thy ===== *)
theory Pool_Run
  imports Pool_Safety
begin

text \<open>
  Runs of the pool: every sequence of its operations, from the start with an accepted configuration. The invariants of the job
  cache hold at every point, job identifiers are never reused, heights never go back, and the pool keeps the contract the
  sessions rely on (\<open>pool_service\<close>), so that the theorems of the sessions hold for the sessions of every run.
\<close>

section \<open>What one operation does to the cache\<close>

definition same_setup :: "WorkState \<Rightarrow> WorkState \<Rightarrow> bool" where
  "same_setup w w' \<longleftrightarrow> w_config w' = w_config w \<and> w_network w' = w_network w \<and> w_donation_script w' = w_donation_script w
    \<and> w_job_id_prefix w' = w_job_id_prefix w"

definition same_cache :: "WorkState \<Rightarrow> WorkState \<Rightarrow> bool" where
  "same_cache w w' \<longleftrightarrow> w_current_job w' = w_current_job w \<and> w_recent_jobs w' = w_recent_jobs w
    \<and> w_recent_order w' = w_recent_order w \<and> w_publish_counter w' = w_publish_counter w"

definition same_work :: "WorkState \<Rightarrow> WorkState \<Rightarrow> bool" where
  "same_work w w' \<longleftrightarrow> same_setup w w' \<and> same_cache w w' \<and> w_job_counter w' = w_job_counter w"

definition payable_job :: "Job \<Rightarrow> bool" where
  "payable_job job \<longleftrightarrow> (\<forall>script. \<exists>cb. Job_build_coinbase2 job script = Inr cb)"

definition new_job :: "WorkState \<Rightarrow> Job \<Rightarrow> bool" where
  "new_job w job \<longleftrightarrow> payable_job job \<and> j_job_id job = job_id_of (w_job_id_prefix w) (w_job_counter w + 1)
    \<and> (\<forall>current. w_current_job w = Some current \<longrightarrow> j_height current \<le> j_height job)"

definition work_change :: "WorkState \<Rightarrow> WorkState \<Rightarrow> bool" where
  "work_change w w' \<longleftrightarrow> same_setup w w'
    \<and> (same_cache w w' \<and> (w_job_counter w' = w_job_counter w \<or> w_job_counter w' = w_job_counter w + 1)
       \<or> w_job_counter w' = w_job_counter w + 1 \<and> (\<exists>job. new_job w job \<and> same_cache (fst (install_job w job)) w'))"

lemmas same_work_defs = same_work_def same_setup_def same_cache_def

lemma same_work_refl [simp]: "same_work w w"
  by (simp add: same_work_defs)

lemma same_work_trans: "same_work a b \<Longrightarrow> same_work b c \<Longrightarrow> same_work a c"
  by (simp add: same_work_defs)

lemma same_work_change: "same_work w w' \<Longrightarrow> work_change w w'"
  by (simp add: same_work_def work_change_def)

lemma work_change_then: "work_change w w' \<Longrightarrow> same_work w' w'' \<Longrightarrow> work_change w w''"
  by (auto simp: work_change_def same_work_defs)

lemma work_change_from: "same_work w w' \<Longrightarrow> work_change w' w'' \<Longrightarrow> work_change w w''"
  unfolding work_change_def new_job_def same_work_defs install_job_def Let_def by (auto simp: split_beta)

lemma enqueue_same: "same_work w (enqueue_publication w recipient job clean)"
  by (simp add: enqueue_publication_def same_work_defs split: option.split)

lemma enqueues_same: "same_work w (foldl (\<lambda>w c. enqueue_publication w c job clean) w cs)"
proof (induction cs arbitrary: w)
  case (Cons c cs)
  then show ?case using same_work_trans [OF enqueue_same [of w c job clean] Cons.IH] by simp
qed simp

lemma publish_same: "same_work w (fst (publish_to_clients w job clean))"
proof -
  have "same_work w (w\<lparr>w_broadcast_cursor := n\<rparr>)" for n by (simp add: same_work_defs)
  from same_work_trans [OF this enqueues_same] show ?thesis by (simp add: publish_to_clients_def Let_def)
qed

lemma broadcast_job_cases:
  assumes "broadcast_job w job clean r = ((w', pubs), outcome)"
  obtains (refused) "w' = w" "pubs = []" "publish_refusal w job r = Some outcome"
  | (published) "outcome = Published" "publish_refusal w job r = None" "same_work (fst (install_job w job)) w'"
      "publish_to_clients (fst (install_job w job)) (snd (install_job w job)) clean = (w', pubs)"
proof (cases "publish_refusal w job r")
  case None
  then have p: "publish_to_clients (fst (install_job w job)) (snd (install_job w job)) clean = (w', pubs)" "outcome = Published"
    using assms by (simp_all add: broadcast_job_def split_beta)
  show ?thesis
    using published None p publish_same [of "fst (install_job w job)" "snd (install_job w job)" clean] by simp
next
  case (Some x)
  then show ?thesis using assms refused by (simp add: broadcast_job_def)
qed

lemma publish_refusal_None:
  "publish_refusal w job r = None \<Longrightarrow> w_current_job w = Some current \<Longrightarrow> j_height current \<le> j_height job"
  by (simp add: publish_refusal_def split: if_split_asm)

definition setup_ok :: "WorkState \<Rightarrow> bool" where
  "setup_ok w \<longleftrightarrow> \<not> dless (Finite 100) (cfg_donation_percent (w_config w))"

lemma make_job_cases:
  assumes "make_job w bt clean = (w1, r)"
  shows "w1 = w\<lparr>w_job_counter := w_job_counter w + 1\<rparr>"
    and "r = Inr job \<Longrightarrow> j_job_id job = job_id_of (w_job_id_prefix w) (w_job_counter w + 1) \<and> j_height job = bt_height bt
      \<and> j_coinbase_value job = bt_coinbase_value bt \<and> j_donation_percent job = cfg_donation_percent (w_config w)"
  using assms
  by (auto simp: make_job_def next_job_id_def Let_def job_id_of_def make_Job_def result_simps split: if_split_asm)

lemma payable_jobI:
  assumes "\<not> dless (Finite 100) (j_donation_percent job)" "unat (j_coinbase_value job) \<le> 2100000000000000"
  shows "payable_job job"
  unfolding payable_job_def
proof
  fix script
  obtain outputs where "payout_outputs job script = Inr outputs" using payout_any_percent [OF assms] by blast
  then show "\<exists>cb. Job_build_coinbase2 job script = Inr cb" by (simp add: Job_build_coinbase2_def)
qed

lemma make_and_broadcast_change:
  assumes "setup_ok w" "unat (bt_coinbase_value bt) \<le> 2100000000000000"
    and m: "make_job w bt clean = (w1, Inr job)" and b: "broadcast_job w1 job clean' r = ((w2, pubs), outcome)"
  shows "work_change w w2"
proof -
  note j = make_job_cases(1) [OF m] make_job_cases(2) [OF m refl]
  have p: "payable_job job" using assms(1,2) j(2) by (intro payable_jobI) (simp_all add: setup_ok_def)
  show ?thesis
    using b
  proof (cases rule: broadcast_job_cases)
    case refused
    then show ?thesis by (simp add: j(1) work_change_def same_setup_def same_cache_def)
  next
    case published
    have "new_job w job" using p j(2) publish_refusal_None [OF published(2)] by (simp add: new_job_def j(1))
    moreover have "same_cache (fst (install_job w job)) (fst (install_job w1 job))"
        "same_setup w (fst (install_job w1 job))" "w_job_counter (fst (install_job w1 job)) = w_job_counter w + 1"
      by (simp_all add: j(1) install_job_def Let_def split_beta same_cache_def same_setup_def)
    ultimately have "work_change w (fst (install_job w1 job))" unfolding work_change_def by blast
    then show ?thesis using published(3) by (rule work_change_then)
  qed
qed

lemma make_job_change: "make_job w bt clean = (w1, r) \<Longrightarrow> work_change w w1"
  by (drule make_job_cases(1)) (simp add: work_change_def same_setup_def same_cache_def)

lemma build_and_broadcast_change:
  assumes "setup_ok w" "unat (bt_coinbase_value bt) \<le> 2100000000000000"
    and b: "build_and_broadcast w bt clean now = ((w', pubs), r)"
  shows "work_change w w'"
proof (cases "\<exists>current \<in> set_option (w_current_job w). bt_height bt < j_height current")
  case True
  then show ?thesis using b by (simp add: build_and_broadcast_def same_work_change)
next
  case False
  obtain w1 j where m: "make_job w bt clean = (w1, j)" by fastforce
  show ?thesis
  proof (cases j)
    case (Inl e)
    then show ?thesis using b m False make_job_change [OF m] by (simp add: build_and_broadcast_def)
  next
    case (Inr job)
    obtain w2 ps outcome where o: "broadcast_job w1 job clean False = ((w2, ps), outcome)" by (metis surj_pair)
    have "work_change w w2" by (rule make_and_broadcast_change [OF assms(1,2) m [unfolded Inr] o])
    moreover have "same_work w2 w'"
      using b m o False Inr by (auto simp: build_and_broadcast_def same_work_defs split: if_split_asm)
    ultimately show ?thesis by (rule work_change_then)
  qed
qed

lemma block_subsidy_le:
  assumes "block_subsidy height interval = Inr v"
  shows "unat v \<le> 5000000000"
proof -
  have "unat (drop_bit n (5000000000 :: u64)) \<le> 5000000000" for n
    by (simp only: unat_drop_bit_eq) (simp add: drop_bit_eq_div div_le_dividend)
  then show ?thesis
    using assms by (auto simp: block_subsidy_def Let_def split: if_split_asm)
qed

lemma fastblock_template_value:
  assumes "fastblock_template w block_hash header version interval now = Inr bt"
  shows "unat (bt_coinbase_value bt) \<le> 2100000000000000"
  using assms block_subsidy_le unfolding fastblock_template_def by (elim bindE_InrE) fastforce

lemma fastblock_publish_change:
  assumes "setup_ok w" and f: "fastblock_publish w block_hash header version interval now_wall now = ((w', pubs), published)"
  shows "work_change w w'"
proof (cases "fastblock_template w block_hash header version interval now_wall")
  case (Inl e)
  then show ?thesis using f by (simp add: fastblock_publish_def same_work_change)
next
  case (Inr bt)
  obtain w1 j where m: "make_job w bt True = (w1, j)" by fastforce
  show ?thesis
  proof (cases j)
    case (Inl e)
    then show ?thesis using f m Inr make_job_change [OF m] by (simp add: fastblock_publish_def)
  next
    case job: (Inr job)
    obtain w2 ps outcome where o: "broadcast_job w1 job True True = ((w2, ps), outcome)" by (metis surj_pair)
    have "work_change w w2"
      by (rule make_and_broadcast_change [OF assms(1) fastblock_template_value [OF Inr] m [unfolded job] o])
    moreover have "same_work w2 w'"
      using f m o job Inr by (auto simp: fastblock_publish_def same_work_defs split: if_split_asm)
    ultimately show ?thesis by (rule work_change_then)
  qed
qed

lemma setup_ok_same: "same_setup w w' \<Longrightarrow> setup_ok w' = setup_ok w"
  by (simp add: same_setup_def setup_ok_def)

lemma on_zmq_block_change:
  assumes "setup_ok w"
  shows "work_change w (fst (on_zmq_block w block_hash fetched now_wall now))"
proof -
  define w0 where "w0 = w\<lparr>w_fastblock_pending := True\<rparr>"
  have w0: "same_work w w0" by (simp add: w0_def same_work_defs)
  have flag: "same_work v (notify_new_block v)" "same_work v (notify_new_block (v\<lparr>w_fastblock_pending := False\<rparr>))" for v
    by (simp_all add: notify_new_block_def same_work_defs)
  have pub: "work_change w v"
    if "fastblock_publish w0 block_hash header version interval now_wall now = ((v, pubs), published)"
    for header version interval v pubs published
    using fastblock_publish_change [OF _ that] w0 assms setup_ok_same [of w w0] work_change_from [OF w0]
    by (simp add: same_work_def)
  show ?thesis
    using work_change_then [OF pub flag(1)] work_change_then [OF pub flag(2)] same_work_change [OF flag(1)]
    unfolding on_zmq_block_def Let_def w0_def [symmetric]
    by (auto split: sum.split prod.split)
qed

lemma refresh_step_change:
  assumes "setup_ok w" "\<And>bt. template = Inr bt \<Longrightarrow> unat (bt_coinbase_value bt) \<le> 2100000000000000"
  shows "work_change w (fst (fst (refresh_step w failing tip template now)))"
proof -
  have flag: "same_work v (v\<lparr>w_generator_ready := b, w_new_block_flag := c\<rparr>)" for v b c by (simp add: same_work_defs)
  have "work_change w v" if "template = Inr bt" "build_and_broadcast w bt clean now = ((v, pubs), r)" for bt clean v pubs r
    using build_and_broadcast_change [OF assms(1) assms(2) that(2)] that(1) by blast
  from work_change_then [OF this flag] show ?thesis
    using same_work_change [OF flag] unfolding refresh_step_def
    by (fastforce split: sum.split prod.split bool.split)
qed

section \<open>Runs\<close>

inductive work_step :: "WorkState \<Rightarrow> WorkState \<Rightarrow> bool" where
  refresh: "(\<And>bt. template = Inr bt \<Longrightarrow> unat (bt_coinbase_value bt) \<le> 2100000000000000) \<Longrightarrow>
    work_step w (fst (fst (refresh_step w failing tip template now)))"
| zmq: "work_step w (fst (on_zmq_block w block_hash fetched now_wall now))"
| connect: "work_step w (fst (add_client w session asynchronously))"
| disconnect: "work_step w (remove_client w session)"
| publication: "work_step w (fst (publication_step w))"
| reload: "work_step w (reload_config w config)"
| rejected: "work_step w (note_config_reload_rejected w)"
| connector: "work_step w (set_connector_ready w ready)"

lemma work_step_change: "work_step w w' \<Longrightarrow> setup_ok w \<Longrightarrow> work_change w w'"
proof (induction rule: work_step.induct)
  case (connect w session asynchronously)
  show ?case
    by (rule same_work_change) (simp add: add_client_def next_extranonce1_def Let_def same_work_defs)
next
  case (publication w)
  show ?case
    by (rule same_work_change) (simp add: publication_step_def same_work_defs split: list.split)
qed (simp_all add: refresh_step_change on_zmq_block_change same_work_change same_work_defs remove_client_def reload_config_def
    notify_new_block_def note_config_reload_rejected_def set_connector_ready_def)

text \<open>A run starts with an accepted configuration once the chain of the node is known, and is shorter than the range of the
  counters.\<close>

definition pool_run :: "WorkState list \<Rightarrow> bool" where
  "pool_run ws \<longleftrightarrow>
    ws \<noteq> [] \<and> successively work_step ws \<and> length ws < 2 ^ 64
    \<and> (\<exists>file config random started info. config_from file = Inr config
        \<and> hd ws = detect_network (make_WorkState config random started) info)"

definition run_jobs :: "WorkState list \<Rightarrow> Job set" where
  "run_jobs ws = (\<Union>w \<in> set ws. ran (w_recent_jobs w))"

definition run_inv :: "WorkState list \<Rightarrow> bool" where
  "run_inv ws \<longleftrightarrow>
    (let w = last ws
     in setup_ok w \<and> unat (w_job_counter w) < length ws \<and> (\<forall>v \<in> set ws. cache_inv v \<and> same_setup v w)
      \<and> (\<forall>job \<in> run_jobs ws. payable_job job
          \<and> (\<exists>k. k \<le> unat (w_job_counter w) \<and> j_job_id job = job_id_of (w_job_id_prefix w) (word_of_nat k))
          \<and> (\<exists>current. w_current_job w = Some current \<and> j_height job \<le> j_height current))
      \<and> (\<forall>job \<in> run_jobs ws. \<forall>job' \<in> run_jobs ws. j_job_id job = j_job_id job' \<longrightarrow> job = job'))"

lemma detect_network_facts:
  "w_config (detect_network w info) = w_config w" "w_current_job (detect_network w info) = w_current_job w"
  "w_recent_jobs (detect_network w info) = w_recent_jobs w" "w_recent_order (detect_network w info) = w_recent_order w"
  "w_job_counter (detect_network w info) = w_job_counter w"
  by (simp_all add: detect_network_def Let_def split: sum.split)

lemma run_inv_start:
  assumes "config_from file = Inr config"
  shows "run_inv [detect_network (make_WorkState config random started) info]"
proof -
  obtain config0 where "finalize_and_validate config0 = Inr config" by (rule config_from_validated [OF assms])
  note r = check_ranges_facts [OF finalize_facts(3) [OF this]]
  show ?thesis
    using r(1) by (simp add: run_inv_def Let_def setup_ok_def detect_network_facts make_WorkState_def cache_inv_def run_jobs_def
        same_setup_def)
qed

lemma install_job_jobs:
  assumes "cache_inv w" "j_job_id job \<notin> set (w_recent_order w)"
  shows "ran (w_recent_jobs (fst (install_job w job))) \<subseteq> insert (snd (install_job w job)) (ran (w_recent_jobs w))"
    and "w_current_job (fst (install_job w job)) = Some (snd (install_job w job))"
    and "snd (install_job w job) = set_publication_sequence job (w_publish_counter w + 1)"
proof -
  let ?j = "set_publication_sequence job (w_publish_counter w + 1)"
  have "distinct (w_recent_order w @ [j_job_id job])"
    "dom ((w_recent_jobs w)(j_job_id job \<mapsto> ?j)) = set (w_recent_order w @ [j_job_id job])"
    using assms by (auto simp: cache_inv_def)
  note t = trim_recent_spec [OF this]
  have id: "j_job_id ?j = j_job_id job" by (simp add: set_publication_sequence_def)
  have "ran (jobs |` A) \<subseteq> ran jobs" for jobs :: "string \<rightharpoonup> Job" and A by (auto simp: ran_def restrict_map_def split: if_split_asm)
  moreover have "ran ((w_recent_jobs w)(j_job_id job \<mapsto> ?j)) \<subseteq> insert ?j (ran (w_recent_jobs w))"
    by (auto simp: ran_def split: if_split_asm)
  ultimately show "ran (w_recent_jobs (fst (install_job w job))) \<subseteq> insert (snd (install_job w job)) (ran (w_recent_jobs w))"
    using t by (simp add: install_job_def Let_def id) blast
qed (simp_all add: install_job_def Let_def split_beta)

lemma run_invD:
  assumes "run_inv ws" "ws \<noteq> []" "job \<in> run_jobs ws"
  shows "payable_job job" "\<exists>current. w_current_job (last ws) = Some current \<and> j_height job \<le> j_height current"
    and "\<exists>k. k \<le> unat (w_job_counter (last ws)) \<and> j_job_id job = job_id_of (w_job_id_prefix (last ws)) (word_of_nat k)"
    and "job' \<in> run_jobs ws \<Longrightarrow> j_job_id job = j_job_id job' \<Longrightarrow> job = job'"
  using assms by (simp_all add: run_inv_def Let_def)

lemma run_inv_last:
  assumes "run_inv ws" "ws \<noteq> []"
  shows "cache_inv (last ws)" "setup_ok (last ws)" "unat (w_job_counter (last ws)) < length ws"
    "v \<in> set ws \<Longrightarrow> cache_inv v" "v \<in> set ws \<Longrightarrow> same_setup v (last ws)"
  using assms by (simp_all add: run_inv_def Let_def)

lemma cache_inv_same: "same_cache w w' \<Longrightarrow> cache_inv w \<Longrightarrow> cache_inv w'"
  unfolding cache_inv_def same_cache_def by (elim conjE) (auto split: option.split)

lemma run_inv_snocI:
  assumes ws: "run_inv ws" "ws \<noteq> []" and w: "cache_inv w" "same_setup (last ws) w" "unat (w_job_counter w) \<le> length ws"
    "unat (w_job_counter (last ws)) \<le> unat (w_job_counter w)"
    and jobs: "ran (w_recent_jobs w) \<subseteq> run_jobs ws \<union> New"
    and current: "\<And>c. w_current_job (last ws) = Some c \<Longrightarrow> \<exists>c'. w_current_job w = Some c' \<and> j_height c \<le> j_height c'"
    and new: "\<And>job. job \<in> New \<Longrightarrow> payable_job job \<and> j_job_id job = job_id_of (w_job_id_prefix w) (w_job_counter w)
        \<and> New = {job} \<and> w_current_job w = Some job \<and> unat (w_job_counter (last ws)) < unat (w_job_counter w)"
  shows "run_inv (ws @ [w])"
proof -
  note r = run_invD [OF ws]
  have sub: "run_jobs (ws @ [w]) \<subseteq> run_jobs ws \<union> New" using jobs by (auto simp: run_jobs_def)
  have pre: "w_job_id_prefix (last ws) = w_job_id_prefix w" using w(2) by (simp add: same_setup_def)
  have old: "payable_job job \<and> (\<exists>k. k \<le> unat (w_job_counter w) \<and> j_job_id job = job_id_of (w_job_id_prefix w) (word_of_nat k))
      \<and> (\<exists>c. w_current_job w = Some c \<and> j_height job \<le> j_height c)" if "job \<in> run_jobs ws" for job
    using r(1-3) [OF that] current w(4) pre by (metis le_trans order_trans)
  have fresh: "j_job_id job \<noteq> j_job_id n" if "job \<in> run_jobs ws" "n \<in> New" for job n
  proof
    note r3 = r(3) [OF that(1)]
    obtain k where k: "k \<le> unat (w_job_counter (last ws))" "j_job_id job = job_id_of (w_job_id_prefix w) (word_of_nat k)"
      using r3 pre by auto
    assume "j_job_id job = j_job_id n"
    then have "(word_of_nat k :: u64) = w_job_counter w" using k(2) new [OF that(2)] by (simp add: job_id_of_inject)
    then have "unat (word_of_nat k :: u64) = unat (w_job_counter w)" by simp
    moreover have "unat (word_of_nat k :: u64) \<le> k" by (simp add: unat_of_nat)
    ultimately show False using k(1) new [OF that(2)] by linarith
  qed
  have all: "payable_job job \<and> (\<exists>k. k \<le> unat (w_job_counter w) \<and> j_job_id job = job_id_of (w_job_id_prefix w) (word_of_nat k))
      \<and> (\<exists>c. w_current_job w = Some c \<and> j_height job \<le> j_height c)" if "job \<in> run_jobs ws \<union> New" for job
    using that
  proof
    assume "job \<in> New"
    then show ?thesis using new [of job] by (auto intro!: exI [of _ "unat (w_job_counter w)"])
  qed (rule old)
  have uniq: "job = job'" if "job \<in> run_jobs ws \<union> New" "job' \<in> run_jobs ws \<union> New" "j_job_id job = j_job_id job'" for job job'
    using that fresh [of job job'] fresh [of job' job] new [of job] new [of job'] r(4) [of job job'] by (metis UnE singletonD)
  have "setup_ok w" using run_inv_last(2) [OF ws] setup_ok_same [OF w(2)] by simp
  moreover have "\<forall>v \<in> set (ws @ [w]). cache_inv v \<and> same_setup v w"
    using w(1,2) run_inv_last(4,5) [OF ws] by (auto simp: same_setup_def)
  ultimately show ?thesis
    using all uniq sub w(3) unfolding run_inv_def Let_def last_snoc by (auto simp: less_Suc_eq_le subset_iff)
qed

lemma published_job_facts [simp]:
  "j_job_id (set_publication_sequence job n) = j_job_id job" "j_height (set_publication_sequence job n) = j_height job"
  "payable_job (set_publication_sequence job n) = payable_job job"
  by (simp_all add: set_publication_sequence_def payable_job_def Job_build_coinbase2_def payout_outputs_def cong: option.case_cong)

lemma run_inv_step:
  assumes ws: "run_inv ws" "ws \<noteq> []" "length ws < 2 ^ 64" and step: "work_change (last ws) w"
  shows "run_inv (ws @ [w])"
proof -
  note l = run_inv_last [OF ws(1,2)]
  have conf: "same_setup (last ws) w" using step by (simp add: work_change_def)
  have suc: "unat (w_job_counter (last ws) + 1) = Suc (unat (w_job_counter (last ws)))"
    using l(3) ws(3) by (simp add: unat_word_ariths)
  have sub: "ran (w_recent_jobs (last ws)) \<subseteq> run_jobs ws" using last_in_set [OF ws(2)] by (auto simp: run_jobs_def)
  from step consider "same_cache (last ws) w" "w_job_counter w = w_job_counter (last ws) \<or> w_job_counter w = w_job_counter (last ws) + 1"
    | job where "w_job_counter w = w_job_counter (last ws) + 1" "new_job (last ws) job" "same_cache (fst (install_job (last ws) job)) w"
    unfolding work_change_def by blast
  then show ?thesis
  proof cases
    case 1
    show ?thesis
      by (rule run_inv_snocI [OF ws(1,2) cache_inv_same [OF 1(1) l(1)] conf, of "{}"])
        (use 1 l(3) suc sub in \<open>auto simp: same_cache_def\<close>)
  next
    case 2
    have fresh: "j_job_id job \<notin> set (w_recent_order (last ws))"
    proof
      assume "j_job_id job \<in> set (w_recent_order (last ws))"
      then obtain j where j: "w_recent_jobs (last ws) (j_job_id job) = Some j" "j_job_id j = j_job_id job"
        using l(1) by (fastforce simp: cache_inv_def)
      then have "j \<in> run_jobs ws" using sub by (auto simp: ran_def)
      then obtain k where k: "k \<le> unat (w_job_counter (last ws))" "(word_of_nat k :: u64) = w_job_counter (last ws) + 1"
        using run_invD(3) [OF ws(1,2)] j(2) 2(2) by (fastforce simp: new_job_def job_id_of_inject)
      moreover have "unat (word_of_nat k :: u64) \<le> k" by (simp add: unat_of_nat)
      ultimately show False using suc by simp
    qed
    show ?thesis
      by (rule run_inv_snocI [OF ws(1,2) cache_inv_same [OF 2(3) install_job_inv [OF l(1) fresh]] conf, of "{snd (install_job (last ws) job)}"])
        (use 2 l(3) suc sub conf install_job_jobs [OF l(1) fresh] in \<open>auto simp: same_cache_def same_setup_def new_job_def\<close>)
  qed
qed

lemma pool_run_inv:
  assumes "pool_run ws"
  shows "run_inv ws"
proof -
  obtain cf config random started info where "config_from cf = Inr config"
      "hd ws = detect_network (make_WorkState config random started) info"
    using assms unfolding pool_run_def by blast
  then have start: "run_inv [hd ws]" using run_inv_start by simp
  have ws: "successively work_step ws" "ws \<noteq> []" "length ws < 2 ^ 64" using assms by (simp_all add: pool_run_def)
  from ws start show ?thesis
  proof (induction ws rule: rev_induct)
    case (snoc w ws)
    show ?case
    proof (cases "ws = []")
      case False
      have "run_inv ws" using snoc False by (auto simp: successively_append_iff)
      moreover have "work_change (last ws) w"
        using snoc.prems(1) False work_step_change run_inv_last(2) [OF \<open>run_inv ws\<close> False] by (auto simp: successively_append_iff)
      ultimately show ?thesis using run_inv_step False snoc.prems(3) by simp
    qed (use snoc.prems in simp)
  qed simp
qed

section \<open>The contract of the sessions\<close>

definition run_contexts :: "WorkState list \<Rightarrow> PoolContext set" where
  "run_contexts ws = (if pool_run ws then {pool_context attach w |attach w. w \<in> set ws} else {})"

definition published_jobs :: "WorkState list \<Rightarrow> Job set" where
  "published_jobs ws = (if pool_run ws then run_jobs ws else {})"

lemma cache_current: "cache_inv w \<Longrightarrow> w_current_job w = Some job \<Longrightarrow> w_recent_jobs w (j_job_id job) = Some job"
  by (simp add: cache_inv_def)

interpretation run_service: pool_service "run_contexts ws" "published_jobs ws" "validate_address (last ws)" for ws
proof
  have inv: "run_inv ws" "ws \<noteq> []" if "pool_run ws" using pool_run_inv [OF that] that by (simp_all add: pool_run_def)
  fix ctx job job' script job_id
  show "ctx \<in> run_contexts ws \<Longrightarrow> pc_validate_address ctx = validate_address (last ws)"
    using run_inv_last(5) [OF inv]
    by (fastforce simp: run_contexts_def pool_context_def same_setup_def validate_address_def fun_eq_iff split: if_split_asm)
  show "ctx \<in> run_contexts ws \<Longrightarrow> pc_current_job ctx = Some job \<Longrightarrow> job \<in> published_jobs ws"
    using cache_current run_inv_last(4) [OF inv]
    by (fastforce simp: run_contexts_def published_jobs_def run_jobs_def pool_context_def ran_def split: if_split_asm)
  show "ctx \<in> run_contexts ws \<Longrightarrow> pc_recent_job ctx job_id = Some job \<Longrightarrow> job \<in> published_jobs ws \<and> j_job_id job = job_id"
    using run_inv_last(4) [OF inv]
    by (fastforce simp: run_contexts_def published_jobs_def run_jobs_def pool_context_def recent_job_def cache_inv_def ran_def split: if_split_asm)
  show "job \<in> published_jobs ws \<Longrightarrow> job' \<in> published_jobs ws \<Longrightarrow> j_job_id job = j_job_id job' \<Longrightarrow> job = job'"
    using run_invD(4) [OF inv] by (auto simp: published_jobs_def split: if_split_asm)
  show "job \<in> published_jobs ws \<Longrightarrow> \<exists>cb. Job_build_coinbase2 job script = Inr cb"
    using run_invD(1) [OF inv] by (auto simp: published_jobs_def payable_job_def split: if_split_asm)
qed

end
