(* ===== verification/Pool_Sessions.thy ===== *)
theory Pool_Sessions
  imports Pool_Run
begin

text \<open>
  What every run of the pool promises, to its cache of jobs and to the sessions it serves.
\<close>

section \<open>A concrete run\<close>

definition sample_pool :: "Config \<Rightarrow> WorkState" where
  "sample_pool config = detect_network (make_WorkState config 7 1700000000) \<lparr>ci_chain = ''regtest'', ci_blocks = 1\<rparr>"

definition sample_refreshed :: "Config \<Rightarrow> BlockTemplate \<Rightarrow> WorkState" where
  "sample_refreshed config bt = fst (fst (refresh_step (sample_pool config) True (Inr []) (Inr bt) (Finite 1)))"

lemma published_current:
  assumes "publish_refusal w job r = None" "broadcast_job w job clean r = ((w', pubs), outcome)"
  shows "w_current_job w' = Some (set_publication_sequence job (w_publish_counter w + 1))"
  using assms(2)
proof (cases rule: broadcast_job_cases)
  case published
  then show ?thesis by (simp add: same_work_defs install_job_def Let_def split_beta)
qed (use assms(1) in simp)

lemma sample_refreshed_current:
  assumes "config_from cf = Inr config" "template_of_reply sample_reply = Inr bt"
  shows "\<exists>job. w_current_job (sample_refreshed config bt) = Some job"
proof -
  have t: "bt_previousblockhash bt = to_hex (replicate 32 0x0f)" "bt_coinbase_script_sig_prefix bt = [0x51]"
    using template_of_reply_ok(1) [OF assms(2)]
    by (auto simp: template_fields_def sample_reply_def serialize_height_def simp del: to_hex_simps)
  have h: "from_hex (bt_previousblockhash bt) = Inr (replicate 32 0x0f)" using t(1) by (simp del: to_hex_simps)
  let ?w = "sample_pool config" and ?clean = "bt_previousblockhash bt \<noteq> w_last_prevhash (sample_pool config)"
  have w: "w_config ?w = config" "w_current_job ?w = None" by (simp_all add: sample_pool_def detect_network_facts make_WorkState_def)
  define w1 job_id where "w1 = fst (next_job_id ?w)" and "job_id = snd (next_job_id ?w)"
  have w1: "w_config w1 = config" "w_donation_script w1 = w_donation_script ?w"
    by (simp_all add: w1_def next_job_id_def Let_def w(1))
  obtain job where job: "make_Job job_id bt (map byte_of_char (cfg_coinbase_signature config)) (cfg_extranonce1_size config)
        (cfg_extranonce2_size config) (cfg_coinbase_version config) ?clean (w_donation_script ?w) (cfg_donation_percent config) = Inr job"
    by (rule config_makes_job [OF assms(1) h]) (simp_all add: t(2) kMaxHeightPush_def)
  have m: "make_job ?w bt ?clean = (w1, Inr job)"
    unfolding make_job_def Let_def split_beta w1_def [symmetric] job_id_def [symmetric] w1 job by (rule refl)
  obtain w2 pubs outcome where b: "broadcast_job w1 job ?clean False = ((w2, pubs), outcome)" by (metis surj_pair)
  have "publish_refusal w1 job False = None" using make_job_cases(1) [OF m] w(2) by (simp add: publish_refusal_def)
  from published_current [OF this b] show ?thesis
    unfolding sample_refreshed_def refresh_step_def fetch_due_def build_and_broadcast_def w(2) by (simp add: m b)
qed

lemma sample_run:
  obtains config bt job where "config_from ConfigFile_init = Inr config" "template_of_reply sample_reply = Inr bt"
    "pool_run [sample_pool config, sample_refreshed config bt]" "w_current_job (sample_refreshed config bt) = Some job"
proof -
  obtain config where c: "config_from ConfigFile_init = Inr config" using empty_file_accepted by blast
  obtain bt where bt: "template_of_reply sample_reply = Inr bt" "bt_coinbase_value bt = 5000000000" using sample_reply_accepted by blast
  obtain job where job: "w_current_job (sample_refreshed config bt) = Some job" using sample_refreshed_current [OF c bt(1)] by blast
  have "work_step (sample_pool config) (sample_refreshed config bt)"
    unfolding sample_refreshed_def by (rule work_step.refresh) (use bt(2) in simp)
  moreover have "\<exists>file config' random started info. config_from file = Inr config'
      \<and> sample_pool config = detect_network (make_WorkState config' random started) info"
    using c unfolding sample_pool_def by blast
  ultimately have "pool_run [sample_pool config, sample_refreshed config bt]" by (simp add: pool_run_def)
  then show ?thesis using that c bt(1) job by blast
qed

section \<open>The cache of jobs\<close>

text \<open>C6: At every point of every run the cache of recent jobs holds at most 24 jobs, its order lists each cached identifier once,
  every job is filed under its own identifier, and the current job is the newest entry.\<close>

theorem cache_always_consistent:
  assumes "pool_run ws" "w \<in> set ws"
  shows "length (w_recent_order w) \<le> kMaxRecentJobs \<and> distinct (w_recent_order w) \<and> dom (recent_job w) = set (w_recent_order w)
    \<and> (\<forall>job_id job. recent_job w job_id = Some job \<longrightarrow> j_job_id job = job_id)
    \<and> (\<forall>job. w_current_job w = Some job \<longrightarrow> recent_job w (j_job_id job) = Some job \<and> last (w_recent_order w) = j_job_id job)"
proof -
  have "cache_inv w" using pool_run_inv [OF assms(1)] assms by (auto intro: run_inv_last(4) simp: pool_run_def)
  moreover have "recent_job w = w_recent_jobs w" by (simp add: fun_eq_iff recent_job_def)
  ultimately show ?thesis using cache_current [of w] by (auto simp: cache_inv_def)
qed

theorem cache_always_consistent_witness:
  "\<exists>config bt job. w_current_job (sample_refreshed config bt) = Some job
    \<and> recent_job (sample_refreshed config bt) (j_job_id job) = Some job"
proof -
  obtain config bt job where "pool_run [sample_pool config, sample_refreshed config bt]" "w_current_job (sample_refreshed config bt) = Some job"
    by (rule sample_run)
  then show ?thesis using cache_always_consistent [of "[sample_pool config, sample_refreshed config bt]" "sample_refreshed config bt"] by auto
qed

text \<open>C5: A job identifier names one job for the whole run: whenever a client presents an identifier, at any time, every cache
  that knows it gives the same job, so a share can never be checked against work other than the one the client was sent.\<close>

theorem job_ids_never_reused:
  assumes "pool_run ws" "w \<in> set ws" "w' \<in> set ws" "recent_job w job_id = Some job" "recent_job w' job_id = Some job'"
  shows "job = job'"
proof -
  have "pool_context (\<lambda>_ _. None) w \<in> run_contexts ws" "pool_context (\<lambda>_ _. None) w' \<in> run_contexts ws"
    using assms(1-3) by (auto simp: run_contexts_def)
  from this [THEN run_service.recent] show ?thesis
    using assms(4,5) run_service.identified [of job ws job'] by (simp add: pool_context_def)
qed

theorem job_ids_never_reused_witness:
  "\<exists>config bt job. recent_job (sample_refreshed config bt) (j_job_id job) = Some job
    \<and> (\<forall>job'. recent_job (sample_refreshed config bt) (j_job_id job) = Some job' \<longrightarrow> job = job')"
proof -
  obtain config bt job where r: "pool_run [sample_pool config, sample_refreshed config bt]" "w_current_job (sample_refreshed config bt) = Some job"
    by (rule sample_run)
  then have "recent_job (sample_refreshed config bt) (j_job_id job) = Some job"
    using cache_current run_inv_last(4) [OF pool_run_inv [OF r(1)]] by (simp add: recent_job_def)
  then show ?thesis
    using job_ids_never_reused [OF r(1), of "sample_refreshed config bt" "sample_refreshed config bt" "j_job_id job" job] by (metis list.set_intros)
qed


lemma pool_run_extend:
  assumes "pool_run (ws @ [w])" "work_step w w'" "length ws + 2 < 2 ^ 64"
  shows "pool_run ((ws @ [w]) @ [w'])"
proof -
  have "hd ((ws @ [w]) @ [w']) = hd (ws @ [w])" by (cases ws) simp_all
  then show ?thesis using assms unfolding pool_run_def by (auto simp only: successively_append_iff) (simp_all add: successively_append_iff)
qed


section \<open>The sessions of a run\<close>


lemma sample_connected:
  assumes "pool_run ws" "w \<in> set ws"
  shows "session_reach (run_contexts ws) (published_jobs ws) en (make_Session (pool_context (\<lambda>_ _. None) w) sample_platform en) [] []"
  by (rule session_reach.connect) (use assms in \<open>auto simp: run_contexts_def\<close>)


text \<open>C4: No operation of a session throws: in every run, after any sequence of operations, handling any request, submitting any
  share, validating any pending submission and publishing any job of the pool returns a result.\<close>

theorem session_operations_return:
  assumes "pool_run ws" "session_reach (run_contexts ws) (published_jobs ws) en s subs trace"
    and "w \<in> set ws" "v \<in> set ws" "recent_job v job_id = Some job"
  shows "\<not> isl (dispatch (pool_context attach_worker w) pf s request)
    \<and> \<not> isl (handle_submit (pool_context attach_worker w) pf s request_id params)
    \<and> \<not> isl (send_notify s job clean) \<and> (\<forall>sub \<in> set subs. \<not> isl (submit_validate pf (s_extranonce1 s) sub))"
proof (rule run_service.never_throws [OF assms(2)])
  show "pool_context attach_worker w \<in> run_contexts ws" using assms(1,3) by (auto simp: run_contexts_def)
  have "pool_context attach_worker v \<in> run_contexts ws" using assms(1,4) by (auto simp: run_contexts_def)
  then show "job \<in> published_jobs ws" using run_service.recent assms(5) by (fastforce simp: pool_context_def)
qed

theorem session_operations_return_witness:
  "\<exists>config bt job. recent_job (sample_refreshed config bt) (j_job_id job) = Some job
    \<and> \<not> isl (send_notify (make_Session (pool_context (\<lambda>_ _. None) (sample_refreshed config bt)) sample_platform [1, 2, 3, 4]) job True)"
proof -
  obtain config bt job where r: "pool_run [sample_pool config, sample_refreshed config bt]" "w_current_job (sample_refreshed config bt) = Some job"
    by (rule sample_run)
  define ws where "ws = [sample_pool config, sample_refreshed config bt]"
  have w: "pool_run ws" "sample_refreshed config bt \<in> set ws" using r by (simp_all add: ws_def)
  have "recent_job (sample_refreshed config bt) (j_job_id job) = Some job"
    using cache_current run_inv_last(4) [OF pool_run_inv [OF r(1)]] r(2) by (simp add: recent_job_def)
  then show ?thesis
    using session_operations_return [OF w(1) sample_connected [OF w] w(2,2)] by blast
qed

end
