(* ===== verification/Spec2Isabelle.thy ===== *)
theory Spec2Isabelle
  imports Uint256 Varint Base58 Bech32 Sv2_Messages Address Coinbase Difficulty Work_Signature Mining_Ipc Proxy_Protocol
    Accounting Stratum_Message Config Session_Replay Pool_Sessions
begin

text \<open>
  A verification development for erikslund-solo-pool, a solo Bitcoin mining pool server in C++.
\<close>

end
